(* ===== verification/Shipper_Prelude.thy ===== *)
theory Shipper_Prelude
  imports Main "HOL-Library.Word" "HOL-Library.Sublist"
begin

text \<open>
  What every theory of the development shares: the Go integer types at their widths, Go errors
  and panics as values, the functions of Go's standard library the shipper calls
  (\<open>errors.Is\<close>, \<open>strings.Join\<close>, \<open>strings.TrimPrefix\<close>, \<open>strings.ToLower\<close>), and the lemmas on
  lists, sums and words that the component proofs use. Two collections carry the automation:
  \<open>go_simps\<close> (evaluation of the standard-library functions) and \<open>word_bounds\<close> (arithmetic of
  words that do not overflow).
\<close>

named_theorems go_simps \<open>rewrite rules for the Go standard library functions\<close>
named_theorems word_bounds \<open>word arithmetic without overflow, read as natural numbers\<close>

unbundle bit_operations_syntax

section \<open>Integers\<close>

text \<open>Go's fixed-width integers; \<open>int\<close> and \<open>time.Duration\<close> (nanoseconds) are 64 bits wide.
  Signed types are read with \<open>sint\<close>, unsigned ones with \<open>unat\<close>.\<close>

type_synonym u32 = "32 word"
type_synonym i32 = "32 word"
type_synonym u64 = "64 word"
type_synonym i64 = "64 word"
type_synonym duration = i64

abbreviation seconds :: "nat \<Rightarrow> duration" where
  "seconds n \<equiv> word_of_nat (n * 1000000000)"

abbreviation milliseconds :: "nat \<Rightarrow> duration" where
  "milliseconds n \<equiv> word_of_nat (n * 1000000)"

lemma unat_add_no_overflow [word_bounds]:
  fixes a b :: "'a::len word"
  assumes "unat a + unat b < 2 ^ LENGTH('a)"
  shows "unat (a + b) = unat a + unat b"
  using assms by (simp add: unat_word_ariths)

lemma unat_sum_list_no_overflow [word_bounds]:
  fixes ws :: "'a::len word list"
  assumes "sum_list (map unat ws) < 2 ^ LENGTH('a)"
  shows "unat (sum_list ws) = sum_list (map unat ws)"
  using assms by (induction ws) (auto simp: unat_add_no_overflow)

lemma unat_u64_less: "unat (x :: u64) < 2 ^ 64"
  using unsigned_less [of x] by simp

lemma unat_of_nat_u64 [word_bounds]: "n < 2 ^ 64 \<Longrightarrow> unat (word_of_nat n :: u64) = n"
  by (simp add: unat_of_nat take_bit_nat_eq_self)

lemma word_of_nat_le_u64: "m \<le> n \<Longrightarrow> n < 2 ^ 64 \<Longrightarrow> (word_of_nat m :: u64) \<le> word_of_nat n"
  by (simp add: word_le_nat_alt unat_of_nat take_bit_nat_eq_self)

text \<open>The two's complement reading of a word, by its top bit.\<close>

lemma sint_by_top_bit:
  fixes w :: "'a::len word"
  shows "sint w = (if bit w (LENGTH('a) - Suc 0) then uint w - 2 ^ LENGTH('a) else uint w)"
proof -
  have "sint w = take_bit LENGTH('a) (uint w)
      - 2 ^ LENGTH('a) * of_bool (bit (uint w) (LENGTH('a) - Suc 0))"
    using signed_take_bit_eq_take_bit_minus [of "LENGTH('a) - Suc 0" "uint w"]
    by (simp add: sint_uint)
  moreover have "take_bit LENGTH('a) (uint w) = uint w"
    by (simp add: bintr_uint)
  ultimately show ?thesis
    by (simp add: bit_uint_iff)
qed

lemma unat_sint_nonneg [word_bounds]:
  fixes w :: "'a::len word"
  assumes "0 \<le> sint w"
  shows "int (unat w) = sint w"
proof -
  have "\<not> 2 ^ LENGTH('a) \<le> uint w"
    by (simp add: not_le)
  with assms show ?thesis
    by (simp add: sint_by_top_bit split: if_splits)
qed

lemma sint_less_imp_unat_less:
  fixes w :: "'a::len word"
  assumes "0 \<le> sint w" and "sint w < int n"
  shows "unat w < n"
  using unat_sint_nonneg [OF assms(1)] assms(2) by linarith

lemma sint_of_int_bounded:
  assumes "- (2 ^ (LENGTH('a::len) - 1)) \<le> k" and "k < 2 ^ (LENGTH('a) - 1)"
  shows "sint (word_of_int k :: 'a word) = k"
  using assms by (simp add: signed_of_int signed_take_bit_int_eq_self)

lemma sint_double_small [word_bounds]:
  fixes w :: i64
  assumes "0 \<le> sint w" and "sint w < 2 ^ 62"
  shows "sint (w * 2) = 2 * sint w"
  using sint_of_int_bounded [where 'a = 64, of "sint w * 2"] assms by simp

section \<open>Errors and panics\<close>

text \<open>
  An \<open>error\<close> value: a package-level sentinel (identified by its text, and the sentinels of this
  program have different texts), an error made by \<open>errors.New\<close> or a \<open>fmt.Errorf\<close> without
  \<^verbatim>\<open>%w\<close>, or one that wraps another under a prefix. A function that returns \<open>(T, error)\<close> has a
  result of the sum type, \<open>Inl\<close> the error; a function that returns only an \<open>error\<close> has an
  option, \<open>None\<close> being \<open>nil\<close>.
\<close>

datatype go_error = Sentinel string | NewError string | Wrapped string go_error

type_synonym 'a result = "go_error + 'a"

text \<open>A call that may panic (a nil dereference, a division by zero, a send to a missing
  object) returns an outcome.\<close>

datatype 'a outcome = Return 'a | Panic string

fun errors_Is :: "go_error \<Rightarrow> go_error \<Rightarrow> bool" where
  "errors_Is (Wrapped p e) t = (Wrapped p e = t \<or> errors_Is e t)"
| "errors_Is e t = (e = t)"

fun Error_text :: "go_error \<Rightarrow> string" where
  "Error_text (Sentinel s) = s"
| "Error_text (NewError s) = s"
| "Error_text (Wrapped p e) = p @ Error_text e"

lemma errors_Is_refl [go_simps]: "errors_Is e e"
  by (cases e) simp_all

lemma errors_Is_wrapped [go_simps]: "errors_Is e t \<Longrightarrow> errors_Is (Wrapped p e) t"
  by simp

section \<open>Strings\<close>

fun strings_Join :: "string list \<Rightarrow> string \<Rightarrow> string" where
  "strings_Join [] sep = ''''"
| "strings_Join [x] sep = x"
| "strings_Join (x # y # xs) sep = x @ sep @ strings_Join (y # xs) sep"

definition strings_TrimPrefix :: "string \<Rightarrow> string \<Rightarrow> string" where
  "strings_TrimPrefix s p = (if prefix p s then drop (length p) s else s)"

text \<open>\<open>strings.ToLower\<close> on ASCII text, the only text the configuration tables hold.\<close>

definition ToLower_char :: "char \<Rightarrow> char" where
  "ToLower_char c =
     (let n = (of_char c :: nat) in if 65 \<le> n \<and> n \<le> 90 then char_of (n + 32) else c)"

definition quoted :: "string \<Rightarrow> string" where
  "quoted s = [CHR 0x27] @ s @ [CHR 0x27]"

definition strings_ToLower :: "string \<Rightarrow> string" where
  "strings_ToLower s = map ToLower_char s"

lemma strings_Join_eq_Nil:
  assumes "sep \<noteq> ''''"
  shows "strings_Join xs sep = '''' \<longleftrightarrow> xs = [] \<or> xs = ['''']"
  using assms by (cases "(xs, sep)" rule: strings_Join.cases) auto

lemma strings_TrimPrefix_append [go_simps]: "strings_TrimPrefix (p @ s) p = s"
  by (simp add: strings_TrimPrefix_def)

section \<open>Lists\<close>

text \<open>The number of elements that satisfy a predicate, and sums of list prefixes.\<close>

definition option_list :: "'a option \<Rightarrow> 'a list" where
  "option_list x = (case x of None \<Rightarrow> [] | Some a \<Rightarrow> [a])"

abbreviation count_if :: "('a \<Rightarrow> bool) \<Rightarrow> 'a list \<Rightarrow> nat" where
  "count_if P xs \<equiv> length (filter P xs)"

lemma count_if_partition: "count_if P xs + count_if (\<lambda>x. \<not> P x) xs = length xs"
  by (induction xs) auto

lemma sum_list_positive_zero:
  fixes xs :: "nat list"
  assumes "\<forall>x \<in> set xs. 0 < x" and "sum_list xs = 0"
  shows "xs = []"
  using assms by (cases xs) auto

lemma prefix_take_length: "prefix xs ys \<Longrightarrow> take (length xs) ys = xs"
  by (auto simp: prefix_def)

end
