(* ===== verification/Beats_Queue.thy ===== *)
theory Beats_Queue
  imports Shipper_Prelude
begin

text \<open>
  The libbeat queue the shipper is built on is a third-party package: the shipper holds a
  \<open>beatsqueue.Queue\<close> interface value and only calls its methods. Here the interface is a record
  of functions over an opaque queue state \<open>'q\<close>, and it is an argument of every definition that
  calls it. What the shipper relies on is stated as predicates over that record and a view of
  the state: \<open>queue_laws\<close> (the queue is first in, first out, and an entry leaves it only through
  \<open>Get\<close>) and \<open>ascending_ids\<close> (entry ids ascend). A bounded list queue at the end of the theory
  satisfies both, and is used in witnesses only.
\<close>

section \<open>The interface\<close>

text \<open>\<open>opt.Uint\<close> values are options: \<open>Exists\<close> is being \<open>Some\<close>.\<close>

record beats_metrics =
  EventCount :: "u64 option"
  ByteCount :: "u64 option"
  ByteLimit :: "u64 option"
  EventLimit :: "u64 option"
  UnackedConsumedEvents :: "u64 option"
  OldestEntryID :: u64

text \<open>
  A batch: \<open>Count\<close> is the number of its entries, and \<open>Entry(i)\<close> returns the i-th one as an
  \<open>interface{}\<close>, here \<open>Some e\<close> if its dynamic type is \<open>*messages.Event\<close> and \<open>None\<close> if not. The
  batch is named by an identity, on which \<open>Done\<close> is called.
\<close>

record 'e batch =
  batch_id :: nat
  batch_entries :: "'e option list"

record ('q, 'e) beats_queue =
  beats_Publish :: "'q \<Rightarrow> 'e \<Rightarrow> 'q \<times> u64 \<times> bool"
  beats_TryPublish :: "'q \<Rightarrow> 'e \<Rightarrow> 'q \<times> u64 \<times> bool"
  beats_Get :: "'q \<Rightarrow> nat \<Rightarrow> 'q \<times> ('e batch) result"
  beats_Metrics :: "'q \<Rightarrow> beats_metrics result"
  beats_Close :: "'q \<Rightarrow> 'q \<times> go_error option"
  beats_Done :: "'q \<Rightarrow> nat \<Rightarrow> 'q"

section \<open>What the shipper relies on\<close>

definition publish_law :: "('q \<Rightarrow> 'e list) \<Rightarrow> ('q \<Rightarrow> 'e \<Rightarrow> 'q \<times> u64 \<times> bool) \<Rightarrow> bool" where
  "publish_law pending f \<longleftrightarrow>
     (\<forall>q e q' i ok. f q e = (q', i, ok) \<longrightarrow>
        pending q' = pending q @ (if ok then [e] else []))"

definition get_law :: "('q \<Rightarrow> 'e list) \<Rightarrow> ('q \<Rightarrow> nat \<Rightarrow> 'q \<times> ('e batch) result) \<Rightarrow> bool" where
  "get_law pending f \<longleftrightarrow>
     (\<forall>q n q' r. f q n = (q', r) \<longrightarrow>
        (case r of
           Inl _ \<Rightarrow> pending q' = pending q
         | Inr b \<Rightarrow> \<exists>es. es \<noteq> [] \<and> length es < 2 ^ 63 \<and> batch_entries b = map Some es \<and>
                      pending q = es @ pending q'))"

definition queue_laws :: "('q, 'e) beats_queue \<Rightarrow> ('q \<Rightarrow> 'e list) \<Rightarrow> bool" where
  "queue_laws bq pending \<longleftrightarrow>
     publish_law pending (beats_Publish bq) \<and> publish_law pending (beats_TryPublish bq) \<and>
     get_law pending (beats_Get bq) \<and>
     (\<forall>q. pending (fst (beats_Close bq q)) = pending q) \<and>
     (\<forall>q b. pending (beats_Done bq q b) = pending q)"

definition ascending_law :: "('q \<Rightarrow> nat) \<Rightarrow> ('q \<Rightarrow> 'e \<Rightarrow> 'q \<times> u64 \<times> bool) \<Rightarrow> bool" where
  "ascending_law newest f \<longleftrightarrow>
     (\<forall>q e q' i ok. f q e = (q', i, ok) \<longrightarrow>
        (if ok then newest q < unat i \<and> newest q' = unat i else newest q' = newest q))"

definition ascending_ids :: "('q, 'e) beats_queue \<Rightarrow> ('q \<Rightarrow> nat) \<Rightarrow> bool" where
  "ascending_ids bq newest \<longleftrightarrow>
     ascending_law newest (beats_Publish bq) \<and> ascending_law newest (beats_TryPublish bq)"

lemma publish_lawD:
  assumes "publish_law pending f" and "f q e = (q', i, ok)"
  shows "pending q' = pending q @ (if ok then [e] else [])"
  using assms unfolding publish_law_def by blast

lemma get_lawD:
  assumes "get_law pending f" and "f q n = (q', r)"
  shows "case r of Inl _ \<Rightarrow> pending q' = pending q
    | Inr b \<Rightarrow> \<exists>es. es \<noteq> [] \<and> length es < 2 ^ 63 \<and> batch_entries b = map Some es \<and>
        pending q = es @ pending q'"
  using assms(1)[unfolded get_law_def, rule_format, OF assms(2)] .

lemma get_law_ok:
  assumes "get_law pending f" and "f q n = (q', Inr b)"
  obtains es where "es \<noteq> []" and "length es < 2 ^ 63" and "batch_entries b = map Some es"
    and "pending q = es @ pending q'"
  using get_lawD [OF assms] by (simp only: sum.case) blast

lemma get_law_err:
  assumes "get_law pending f" and "f q n = (q', Inl x)"
  shows "pending q' = pending q"
  using get_lawD [OF assms] by simp

lemma ascending_lawD:
  assumes "ascending_law newest f" and "f q e = (q', i, ok)"
  shows "if ok then newest q < unat i \<and> newest q' = unat i else newest q' = newest q"
  using assms unfolding ascending_law_def by blast

lemma queue_lawsD:
  assumes "queue_laws bq pending"
  shows "publish_law pending (beats_Publish bq)" "publish_law pending (beats_TryPublish bq)"
    "get_law pending (beats_Get bq)" "pending (fst (beats_Close bq q)) = pending q"
    "pending (beats_Done bq q b) = pending q"
  using assms unfolding queue_laws_def by auto

section \<open>A bounded list queue that satisfies the laws\<close>

record 'e fifo =
  fifo_pending :: "'e list"
  fifo_newest :: nat
  fifo_cap :: nat
  fifo_closed :: bool

definition fifo_put :: "'e fifo \<Rightarrow> 'e \<Rightarrow> 'e fifo \<times> u64 \<times> bool" where
  "fifo_put q e =
     (if fifo_closed q \<or> fifo_cap q \<le> length (fifo_pending q) \<or> 2 ^ 63 \<le> Suc (fifo_newest q)
      then (q, 0, False)
      else (q\<lparr>fifo_pending := fifo_pending q @ [e], fifo_newest := Suc (fifo_newest q)\<rparr>,
            word_of_nat (Suc (fifo_newest q)), True))"

definition fifo_get :: "'e fifo \<Rightarrow> nat \<Rightarrow> 'e fifo \<times> ('e batch) result" where
  "fifo_get q n =
     (let es = take (min n 4096) (fifo_pending q) in
      if fifo_closed q \<or> es = [] then (q, Inl (NewError ''queue closed''))
      else (q\<lparr>fifo_pending := drop (min n 4096) (fifo_pending q)\<rparr>,
            Inr \<lparr>batch_id = 0, batch_entries = map Some es\<rparr>))"

definition fifo_metrics :: "'e fifo \<Rightarrow> beats_metrics result" where
  "fifo_metrics q =
     (if fifo_closed q then Inl (NewError ''queue closed'')
      else Inr \<lparr>EventCount = Some (word_of_nat (length (fifo_pending q))), ByteCount = None,
                ByteLimit = None, EventLimit = Some (word_of_nat (fifo_cap q)),
                UnackedConsumedEvents = Some 0,
                OldestEntryID = word_of_nat (Suc (fifo_newest q) - length (fifo_pending q))\<rparr>)"

definition fifo_queue :: "('e fifo, 'e) beats_queue" where
  "fifo_queue =
     \<lparr>beats_Publish = fifo_put, beats_TryPublish = fifo_put, beats_Get = fifo_get,
      beats_Metrics = fifo_metrics,
      beats_Close = (\<lambda>q. (q\<lparr>fifo_closed := True\<rparr>, None)), beats_Done = (\<lambda>q _. q)\<rparr>"

definition fifo_new :: "nat \<Rightarrow> 'e fifo" where
  "fifo_new n = \<lparr>fifo_pending = [], fifo_newest = 0, fifo_cap = n, fifo_closed = False\<rparr>"

lemma fifo_put_law: "publish_law fifo_pending fifo_put"
  by (auto simp: publish_law_def fifo_put_def)

lemma fifo_get_law: "get_law fifo_pending fifo_get"
  by (auto simp: get_law_def fifo_get_def Let_def append_take_drop_id)

lemma fifo_laws: "queue_laws fifo_queue fifo_pending"
  by (simp add: queue_laws_def fifo_queue_def fifo_put_law fifo_get_law)

lemma fifo_put_ascending: "ascending_law fifo_newest fifo_put"
  using unat_of_nat_u64
  by (auto simp: ascending_law_def fifo_put_def simp del: word_of_nat_eq_iff of_nat_Suc)

lemma fifo_ascending: "ascending_ids fifo_queue fifo_newest"
  by (simp add: ascending_ids_def fifo_queue_def fifo_put_ascending)

end
