(* ===== verification/Queue_Config.thy ===== *)
theory Queue_Config
  imports Beats_Queue
begin

text \<open>
  \<^verbatim>\<open>src/queue/config.go\<close>: the queue configuration, its validation, and the translation of the
  disk queue section into the settings of libbeat's disk queue. \<open>cfgtype.ByteSize\<close> and
  \<open>time.Duration\<close> are signed 64-bit integers, so \<open>*c.SegmentSize*2\<close> can wrap around; a nil
  pointer field is \<open>None\<close>, and dereferencing it panics. The defaults of the disk queue and
  \<open>pbkdf2.Key\<close> are parameters.
\<close>

section \<open>Configuration\<close>

record mem_settings =
  ms_Events :: int
  ms_FlushMinEvents :: int
  ms_FlushTimeout :: duration

record disk_config =
  dc_Path :: string
  dc_MaxSize :: i64
  dc_SegmentSize :: "i64 option"
  dc_ReadAheadLimit :: "int option"
  dc_WriteAheadLimit :: "int option"
  dc_RetryInterval :: "duration option"
  dc_MaxRetryInterval :: "duration option"
  dc_EncryptionPassword :: string
  dc_UseCompression :: bool

record queue_config =
  MemSettings :: "mem_settings option"
  DiskConfig :: "disk_config option"

definition queue_DefaultConfig :: queue_config where
  "queue_DefaultConfig =
     \<lparr>MemSettings = Some \<lparr>ms_Events = 4096, ms_FlushMinEvents = 2048, ms_FlushTimeout = seconds 1\<rparr>,
      DiskConfig = None\<rparr>"

datatype queue_config_error =
    NoQueueSettings
  | MaxSizeBelowTwoSegments
  | MaxSizeBelow10MB i64
  | SegmentSizeBelow1MB i64
  | MaxRetryBelowRetry duration duration

definition queue_Config_Validate :: "queue_config \<Rightarrow> queue_config_error option" where
  "queue_Config_Validate c =
     (if MemSettings c = None \<and> DiskConfig c = None then Some NoQueueSettings else None)"

definition useDiskQueue :: "queue_config \<Rightarrow> bool" where
  "useDiskQueue c \<longleftrightarrow> DiskConfig c \<noteq> None"

definition DiskConfig_Validate :: "disk_config \<Rightarrow> queue_config_error option" where
  "DiskConfig_Validate c =
     (if (case dc_SegmentSize c of None \<Rightarrow> False
            | Some seg \<Rightarrow> dc_MaxSize c \<noteq> 0 \<and> sint (dc_MaxSize c) < sint (seg * 2))
      then Some MaxSizeBelowTwoSegments
      else if dc_MaxSize c \<noteq> 0 \<and> sint (dc_MaxSize c) < 10 * 1000 * 1000
      then Some (MaxSizeBelow10MB (dc_MaxSize c))
      else if (case dc_SegmentSize c of None \<Rightarrow> False | Some seg \<Rightarrow> sint seg < 1000 * 1000)
      then map_option SegmentSizeBelow1MB (dc_SegmentSize c)
      else (case (dc_RetryInterval c, dc_MaxRetryInterval c) of
              (Some r, Some m) \<Rightarrow> if sint m < sint r then Some (MaxRetryBelowRetry m r) else None
            | _ \<Rightarrow> None))"

section \<open>Disk queue settings\<close>

text \<open>The settings of \<open>diskqueue\<close> that the shipper writes.\<close>

record 'k disk_settings =
  ds_Path :: string
  ds_MaxBufferSize :: u64
  ds_MaxSegmentSize :: u64
  ds_ReadAheadLimit :: int
  ds_WriteAheadLimit :: int
  ds_RetryInterval :: duration
  ds_MaxRetryInterval :: duration
  ds_EncryptionKey :: "'k option"
  ds_UseCompression :: bool
  ds_UseProtobuf :: bool

definition defaultDiskqueueSettings :: "'k disk_settings \<Rightarrow> 'k disk_settings" where
  "defaultDiskqueueSettings DefaultSettings = DefaultSettings\<lparr>ds_UseProtobuf := True\<rparr>"

definition DiskSettingsFromConfig ::
    "'k disk_settings \<Rightarrow> (string \<Rightarrow> string \<Rightarrow> nat \<Rightarrow> 'k) \<Rightarrow> disk_config \<Rightarrow>
     (go_error + 'k disk_settings) outcome" where
  "DiskSettingsFromConfig DefaultSettings pbkdf2_Key c =
     (let s = (defaultDiskqueueSettings DefaultSettings)
                \<lparr>ds_Path := dc_Path c, ds_MaxBufferSize := dc_MaxSize c\<rparr>;
          s = (case dc_SegmentSize c of
                 Some seg \<Rightarrow> s\<lparr>ds_MaxSegmentSize := seg\<rparr>
               | None \<Rightarrow> s\<lparr>ds_MaxSegmentSize := dc_MaxSize c div 10\<rparr>);
          s = (case dc_ReadAheadLimit c of Some l \<Rightarrow> s\<lparr>ds_ReadAheadLimit := l\<rparr> | None \<Rightarrow> s);
          s = (case dc_WriteAheadLimit c of Some l \<Rightarrow> s\<lparr>ds_WriteAheadLimit := l\<rparr> | None \<Rightarrow> s);
          s = (case dc_RetryInterval c of Some r \<Rightarrow> s\<lparr>ds_RetryInterval := r\<rparr> | None \<Rightarrow> s);
          finish = (\<lambda>s. let s = (if dc_EncryptionPassword c \<noteq> ''''
                                 then s\<lparr>ds_EncryptionKey := Some (pbkdf2_Key (dc_EncryptionPassword c)
                                          (dc_EncryptionPassword c) 4096)\<rparr>
                                 else s)
                        in Return (Inr (s\<lparr>ds_UseCompression := dc_UseCompression c\<rparr>)))
      in case dc_MaxRetryInterval c of
           None \<Rightarrow> finish s
         | Some _ \<Rightarrow> (case dc_RetryInterval c of
                        None \<Rightarrow> Panic ''nil dereference: diskConfig.RetryInterval''
                      | Some r \<Rightarrow> finish (s\<lparr>ds_MaxRetryInterval := r\<rparr>)))"

section \<open>Properties\<close>

lemma DiskSettingsFromConfig_sizes:
  assumes "DiskSettingsFromConfig D K c = Return (Inr s)"
  shows "ds_MaxBufferSize s = dc_MaxSize c"
    and "ds_MaxSegmentSize s =
      (case dc_SegmentSize c of Some seg \<Rightarrow> seg | None \<Rightarrow> dc_MaxSize c div 10)"
  using assms
  by (auto simp: DiskSettingsFromConfig_def Let_def split: option.splits if_splits)

lemma DiskConfig_Validate_sizes:
  assumes "DiskConfig_Validate c = None" and "dc_MaxSize c \<noteq> 0"
  shows "10000000 \<le> sint (dc_MaxSize c)"
    and "dc_SegmentSize c = Some seg \<Longrightarrow>
      1000000 \<le> sint seg \<and> sint (seg * 2) \<le> sint (dc_MaxSize c)"
  using assms by (auto simp: DiskConfig_Validate_def split: if_splits option.splits)

lemma unat_ge_of_sint_ge: "int n \<le> sint w \<Longrightarrow> n \<le> unat (w :: i64)"
  using unat_sint_nonneg [of w] by linarith

text \<open>A disk queue configuration that passes validation, with a maximum size set and a
  segment size below \<open>2^62\<close> bytes, is turned into settings with a buffer of at least 10MB,
  segments of at least 1MB, and room for at least two segments.\<close>

theorem validated_disk_settings_sizes:
  assumes valid: "DiskConfig_Validate c = None" and "dc_MaxSize c \<noteq> 0"
    and small: "\<forall>seg. dc_SegmentSize c = Some seg \<longrightarrow> sint seg < 2 ^ 62"
    and ret: "DiskSettingsFromConfig D K c = Return (Inr s)"
  shows "10000000 \<le> unat (ds_MaxBufferSize s) \<and> 1000000 \<le> unat (ds_MaxSegmentSize s) \<and>
    2 * unat (ds_MaxSegmentSize s) \<le> unat (ds_MaxBufferSize s)"
proof (cases "dc_SegmentSize c")
  case None
  have "10000000 \<le> unat (dc_MaxSize c)"
    using DiskConfig_Validate_sizes(1) [OF valid assms(2)] unat_ge_of_sint_ge [of 10000000] by simp
  then have "1000000 \<le> unat (dc_MaxSize c) div 10"
    and "2 * (unat (dc_MaxSize c) div 10) \<le> unat (dc_MaxSize c)"
    by linarith+
  with None \<open>10000000 \<le> unat (dc_MaxSize c)\<close> show ?thesis
    by (simp add: DiskSettingsFromConfig_sizes [OF ret] unat_div)
next
  case (Some seg)
  have max: "10000000 \<le> sint (dc_MaxSize c)" and seg: "1000000 \<le> sint seg"
    and two: "sint (seg * 2) \<le> sint (dc_MaxSize c)"
    using DiskConfig_Validate_sizes [OF valid assms(2)] Some by auto
  from seg small Some have "sint (seg * 2) = 2 * sint seg"
    by (intro sint_double_small) auto
  moreover have "int (unat seg) = sint seg" "int (unat (dc_MaxSize c)) = sint (dc_MaxSize c)"
    using seg max unat_sint_nonneg [of seg] unat_sint_nonneg [of "dc_MaxSize c"] by simp_all
  ultimately have "10000000 \<le> unat (dc_MaxSize c)" "1000000 \<le> unat seg"
    "2 * unat seg \<le> unat (dc_MaxSize c)"
    using max seg two by linarith+
  with Some show ?thesis
    by (simp add: DiskSettingsFromConfig_sizes [OF ret])
qed

definition sample_disk_config :: disk_config where
  "sample_disk_config =
     \<lparr>dc_Path = ''/q'', dc_MaxSize = 20000000, dc_SegmentSize = Some 4000000,
      dc_ReadAheadLimit = None, dc_WriteAheadLimit = None, dc_RetryInterval = Some 5,
      dc_MaxRetryInterval = Some 9, dc_EncryptionPassword = '''', dc_UseCompression = False\<rparr>"

definition sample_disk_defaults :: "nat disk_settings" where
  "sample_disk_defaults =
     \<lparr>ds_Path = '''', ds_MaxBufferSize = 0, ds_MaxSegmentSize = 0, ds_ReadAheadLimit = 512,
      ds_WriteAheadLimit = 2048, ds_RetryInterval = 1, ds_MaxRetryInterval = 30,
      ds_EncryptionKey = None, ds_UseCompression = False, ds_UseProtobuf = False\<rparr>"

lemmas sample_disk_defs = sample_disk_config_def sample_disk_defaults_def DiskConfig_Validate_def
  DiskSettingsFromConfig_def defaultDiskqueueSettings_def

theorem validated_disk_settings_sizes_witness:
  "\<exists>s. DiskSettingsFromConfig sample_disk_defaults (\<lambda>_ _ _. 0) sample_disk_config = Return (Inr s) \<and>
     10000000 \<le> unat (ds_MaxBufferSize s) \<and> 1000000 \<le> unat (ds_MaxSegmentSize s) \<and>
     2 * unat (ds_MaxSegmentSize s) \<le> unat (ds_MaxBufferSize s)"
proof -
  obtain s where s: "DiskSettingsFromConfig sample_disk_defaults (\<lambda>_ _ _. 0) sample_disk_config =
      Return (Inr s)"
    by (simp add: sample_disk_defs)
  have v: "DiskConfig_Validate sample_disk_config = None" "dc_MaxSize sample_disk_config \<noteq> 0"
    "\<forall>seg. dc_SegmentSize sample_disk_config = Some seg \<longrightarrow> sint seg < 2 ^ 62"
    by (simp_all add: sample_disk_defs)
  show ?thesis
    using s validated_disk_settings_sizes [OF v s] by blast
qed

text \<open>The guard on the segment size is computed in 64 bits and wraps around: a segment size
  of \<open>2^62\<close> bytes passes validation with a queue of 10MB, so the queue does not hold even one
  segment.\<close>

theorem segment_guard_wraps:
  "\<exists>c seg. DiskConfig_Validate c = None \<and> dc_SegmentSize c = Some seg \<and>
     dc_MaxSize c \<noteq> 0 \<and> sint (dc_MaxSize c) < sint seg"
proof -
  let ?c = "sample_disk_config\<lparr>dc_MaxSize := 10000000, dc_SegmentSize := Some (2 ^ 62)\<rparr>"
  have "DiskConfig_Validate ?c = None" and "sint (dc_MaxSize ?c) < sint (2 ^ 62 :: i64)"
    by (simp_all add: sample_disk_config_def DiskConfig_Validate_def)
  then show ?thesis by (intro exI [of _ ?c]) simp
qed

text \<open>The conversion panics exactly when a maximum retry interval is configured without a
  retry interval, and otherwise returns settings whose maximum retry interval is the default if
  none is configured and the configured \<^emph>\<open>retry interval\<close> if one is: the configured maximum is
  never used.\<close>

theorem disk_settings_max_retry_interval:
  "case DiskSettingsFromConfig D K c of
     Panic _ \<Rightarrow> dc_MaxRetryInterval c \<noteq> None \<and> dc_RetryInterval c = None
   | Return r \<Rightarrow> \<exists>s. r = Inr s \<and>
       (case dc_MaxRetryInterval c of
          None \<Rightarrow> ds_MaxRetryInterval s = ds_MaxRetryInterval D
        | Some _ \<Rightarrow> dc_RetryInterval c = Some (ds_MaxRetryInterval s))"
  by (auto simp: DiskSettingsFromConfig_def defaultDiskqueueSettings_def Let_def
      split: option.splits)

end
