(* ===== verification/Shipper_Queue.thy ===== *)
theory Shipper_Queue
  imports Queue_Config
begin

text \<open>
  \<^verbatim>\<open>src/queue/queue.go\<close>: the shipper's wrapper around the libbeat queue, and the batch wrapper
  that turns per-event acknowledgements into one acknowledgement of the whole batch. The queue
  object is the pair of its configuration and the state of the libbeat queue; the constructors of
  libbeat's two queues are parameters of \<open>queue_New\<close>, its methods the record \<open>bq\<close>. The counter of
  acknowledged events is a 64-bit word that wraps around, as \<open>atomic.AddUint64\<close> does; since the
  additions are atomic, concurrent calls of \<open>Done\<close> are some sequence of calls.

  The locale \<open>acknowledging_output\<close> is the contract between a batch and the output that
  processes it; every output theory interprets it.
\<close>

section \<open>The queue\<close>

record 'q queue =
  queue_cfg :: queue_config
  eventQueue :: 'q

definition ErrQueueIsFull :: go_error where
  "ErrQueueIsFull = Sentinel ''couldn't publish: queue is full''"

definition ErrQueueIsClosed :: go_error where
  "ErrQueueIsClosed = Sentinel ''couldn't publish: queue is closed''"

definition queue_New ::
    "'k disk_settings \<Rightarrow> (string \<Rightarrow> string \<Rightarrow> nat \<Rightarrow> 'k) \<Rightarrow> ('k disk_settings \<Rightarrow> 'q result) \<Rightarrow>
     (mem_settings \<Rightarrow> 'q) \<Rightarrow> queue_config \<Rightarrow> ('q queue) result outcome" where
  "queue_New DefaultSettings pbkdf2_Key diskqueue_NewQueue memqueue_NewQueue c =
     (if useDiskQueue c
      then (case DiskConfig c of
              None \<Rightarrow> Panic ''nil dereference: DiskConfig''
            | Some dc \<Rightarrow>
                (case DiskSettingsFromConfig DefaultSettings pbkdf2_Key dc of
                   Panic m \<Rightarrow> Panic m
                 | Return (Inl e) \<Rightarrow> Return (Inl (Wrapped ''error creating diskqueue settings: '' e))
                 | Return (Inr ds) \<Rightarrow>
                     (case diskqueue_NewQueue ds of
                        Inl e \<Rightarrow> Return (Inl (Wrapped ''error creating diskqueue: '' e))
                      | Inr q \<Rightarrow> Return (Inr \<lparr>queue_cfg = c, eventQueue = q\<rparr>))))
      else (case MemSettings c of
              None \<Rightarrow> Panic ''nil dereference: MemSettings''
            | Some ms \<Rightarrow> Return (Inr \<lparr>queue_cfg = c, eventQueue = memqueue_NewQueue ms\<rparr>)))"

definition queue_Publish ::
    "('q, 'e) beats_queue \<Rightarrow> 'q queue \<Rightarrow> 'e \<Rightarrow> 'q queue \<times> u64 result" where
  "queue_Publish bq q e =
     (case beats_Publish bq (eventQueue q) e of
        (s, i, published) \<Rightarrow>
          (q\<lparr>eventQueue := s\<rparr>, if \<not> published then Inl ErrQueueIsClosed else Inr i))"

definition queue_TryPublish ::
    "('q, 'e) beats_queue \<Rightarrow> 'q queue \<Rightarrow> 'e \<Rightarrow> 'q queue \<times> u64 result" where
  "queue_TryPublish bq q e =
     (case beats_TryPublish bq (eventQueue q) e of
        (s, i, published) \<Rightarrow>
          (q\<lparr>eventQueue := s\<rparr>, if \<not> published then Inl ErrQueueIsFull else Inr i))"

definition queue_Metrics :: "('q, 'e) beats_queue \<Rightarrow> 'q queue \<Rightarrow> beats_metrics result" where
  "queue_Metrics bq q = beats_Metrics bq (eventQueue q)"

definition queue_Close :: "('q, 'e) beats_queue \<Rightarrow> 'q queue \<Rightarrow> 'q queue \<times> go_error option" where
  "queue_Close bq q =
     (case beats_Close bq (eventQueue q) of (s, err) \<Rightarrow> (q\<lparr>eventQueue := s\<rparr>, err))"

definition queue_PersistedIndex :: "('q, 'e) beats_queue \<Rightarrow> 'q queue \<Rightarrow> u64 result" where
  "queue_PersistedIndex bq q =
     (if useDiskQueue (queue_cfg q) then Inr 0
      else case beats_Metrics bq (eventQueue q) of
             Inl e \<Rightarrow> Inl e
           | Inr m \<Rightarrow> Inr (OldestEntryID m))"

section \<open>The batch wrapper\<close>

text \<open>The callback is a closure of the output; \<open>'c\<close> names it.\<close>

record ('e, 'c) wrapped_batch =
  wb_batch :: "'e batch"
  doneCount :: u64
  CompletionCallback :: "'c option"

definition batch_Count :: "'e batch \<Rightarrow> nat" where
  "batch_Count b = length (batch_entries b)"

definition batch_Entry :: "'e batch \<Rightarrow> nat \<Rightarrow> 'e option" where
  "batch_Entry b i = (if i < batch_Count b then batch_entries b ! i else None)"

definition queue_Get ::
    "('q, 'e) beats_queue \<Rightarrow> 'q queue \<Rightarrow> nat \<Rightarrow> 'q queue \<times> (('e, 'c) wrapped_batch) result" where
  "queue_Get bq q eventCount =
     (case beats_Get bq (eventQueue q) eventCount of
        (s, Inl e) \<Rightarrow> (q\<lparr>eventQueue := s\<rparr>, Inl e)
      | (s, Inr b) \<Rightarrow>
          (q\<lparr>eventQueue := s\<rparr>, Inr \<lparr>wb_batch = b, doneCount = 0, CompletionCallback = None\<rparr>))"

text \<open>A nil entry of the result stands for an entry that is not an event.\<close>

definition WrappedBatch_Events :: "('e, 'c) wrapped_batch \<Rightarrow> 'e option list" where
  "WrappedBatch_Events w = map (batch_Entry (wb_batch w)) [0..<batch_Count (wb_batch w)]"

text \<open>What a call of \<open>Done\<close> causes: the call of the batch's own \<open>Done\<close>, then of the callback.\<close>

datatype 'c done_effect = BatchDone nat | RunCallback 'c

definition WrappedBatch_Done ::
    "('e, 'c) wrapped_batch \<Rightarrow> u64 \<Rightarrow> ('e, 'c) wrapped_batch \<times> 'c done_effect list" where
  "WrappedBatch_Done w count =
     (let w' = w\<lparr>doneCount := doneCount w + count\<rparr> in
      if word_of_nat (batch_Count (wb_batch w)) \<le> doneCount w'
      then (w', BatchDone (batch_id (wb_batch w)) #
                (case CompletionCallback w of None \<Rightarrow> [] | Some cb \<Rightarrow> [RunCallback cb]))
      else (w', []))"

text \<open>A sequence of calls, with the effects of all of them.\<close>

fun done_run ::
    "('e, 'c) wrapped_batch \<Rightarrow> u64 list \<Rightarrow> ('e, 'c) wrapped_batch \<times> 'c done_effect list" where
  "done_run w [] = (w, [])"
| "done_run w (n # ns) =
     (case WrappedBatch_Done w n of
        (w', es) \<Rightarrow> (case done_run w' ns of (w'', es') \<Rightarrow> (w'', es @ es')))"

section \<open>Properties of the queue\<close>

lemma queue_Publish_pending:
  assumes "publish_law pending (beats_Publish bq)" and "queue_Publish bq q e = (q', r)"
  shows "pending (eventQueue q') = pending (eventQueue q) @ (case r of Inl _ \<Rightarrow> [] | Inr _ \<Rightarrow> [e])"
    and "queue_cfg q' = queue_cfg q"
  using assms by (auto simp: queue_Publish_def dest: publish_lawD split: prod.splits if_splits)

lemma queue_TryPublish_pending:
  assumes "publish_law pending (beats_TryPublish bq)" and "queue_TryPublish bq q e = (q', r)"
  shows "pending (eventQueue q') = pending (eventQueue q) @ (case r of Inl _ \<Rightarrow> [] | Inr _ \<Rightarrow> [e])"
    and "queue_cfg q' = queue_cfg q"
  using assms by (auto simp: queue_TryPublish_def dest: publish_lawD split: prod.splits if_splits)

definition ascends :: "nat \<Rightarrow> nat \<Rightarrow> u64 result \<Rightarrow> bool" where
  "ascends old new r = (case r of Inl _ \<Rightarrow> new = old | Inr i \<Rightarrow> old < unat i \<and> new = unat i)"

lemma ascends_Inl [simp]: "ascends old new (Inl err) \<longleftrightarrow> new = old"
  by (simp add: ascends_def)

lemma queue_publish_ascends:
  assumes "ascending_ids bq newest"
  shows "queue_Publish bq q e = (q', r) \<Longrightarrow> ascends (newest (eventQueue q)) (newest (eventQueue q')) r"
    and "queue_TryPublish bq q e = (q', r) \<Longrightarrow> ascends (newest (eventQueue q)) (newest (eventQueue q')) r"
proof -
  have asc: "ascending_law newest (beats_Publish bq)" "ascending_law newest (beats_TryPublish bq)"
    using assms by (simp_all add: ascending_ids_def)
  show "queue_Publish bq q e = (q', r) \<Longrightarrow> ascends (newest (eventQueue q)) (newest (eventQueue q')) r"
    using ascending_lawD [OF asc(1)]
    by (cases "beats_Publish bq (eventQueue q) e") (fastforce simp: queue_Publish_def ascends_def)
  show "queue_TryPublish bq q e = (q', r) \<Longrightarrow> ascends (newest (eventQueue q)) (newest (eventQueue q')) r"
    using ascending_lawD [OF asc(2)]
    by (cases "beats_TryPublish bq (eventQueue q) e") (fastforce simp: queue_TryPublish_def ascends_def)
qed

lemma WrappedBatch_Events_entries: "WrappedBatch_Events w = batch_entries (wb_batch w)"
  by (auto simp: WrappedBatch_Events_def batch_Entry_def batch_Count_def intro: nth_equalityI)

text \<open>A batch returned by \<open>Get\<close> is fresh (nothing acknowledged yet), it holds the oldest
  pending events, in order and at least one of them, every entry of it is an event, and exactly
  those events leave the queue; an error leaves the pending events as they are.\<close>

theorem queue_Get_takes_oldest:
  assumes "queue_laws bq pending" and get: "queue_Get bq q n = (q', r)"
  shows "case r of
      Inl _ \<Rightarrow> pending (eventQueue q') = pending (eventQueue q)
    | Inr w \<Rightarrow> doneCount w = 0 \<and> (\<exists>es. es \<noteq> [] \<and> WrappedBatch_Events w = map Some es \<and>
        pending (eventQueue q) = es @ pending (eventQueue q'))"
proof (cases "beats_Get bq (eventQueue q) n")
  case (Pair s r0)
  note law = queue_lawsD(3) [OF assms(1)]
  show ?thesis
  proof (cases r0)
    case (Inl e)
    with get Pair get_law_err [OF law] show ?thesis
      by (auto simp: queue_Get_def)
  next
    case (Inr b)
    with Pair obtain es where "es \<noteq> []" "batch_entries b = map Some es"
      "pending (eventQueue q) = es @ pending s"
      using get_law_ok [OF law] by metis
    with get Pair Inr show ?thesis
      by (auto simp: queue_Get_def WrappedBatch_Events_entries)
  qed
qed

theorem queue_Get_takes_oldest_witness:
  "queue_Get fifo_queue \<lparr>queue_cfg = queue_DefaultConfig,
       eventQueue = (fifo_new 8)\<lparr>fifo_pending := [7, 8, 9 :: nat]\<rparr>\<rparr> 2 =
     (\<lparr>queue_cfg = queue_DefaultConfig, eventQueue = (fifo_new 8)\<lparr>fifo_pending := [9]\<rparr>\<rparr>,
      Inr \<lparr>wb_batch = \<lparr>batch_id = 0, batch_entries = [Some 7, Some 8]\<rparr>, doneCount = 0,
           CompletionCallback = (None :: unit option)\<rparr>) \<and>
   (\<exists>es. es \<noteq> [] \<and> [Some 7, Some 8] = map Some es \<and> [7, 8, 9 :: nat] = es @ [9])"
proof -
  let ?q = "\<lparr>queue_cfg = queue_DefaultConfig,
       eventQueue = (fifo_new 8)\<lparr>fifo_pending := [7, 8, 9 :: nat]\<rparr>\<rparr>"
  let ?q' = "\<lparr>queue_cfg = queue_DefaultConfig, eventQueue = (fifo_new 8)\<lparr>fifo_pending := [9 :: nat]\<rparr>\<rparr>"
  let ?w = "\<lparr>wb_batch = \<lparr>batch_id = 0, batch_entries = [Some 7, Some (8 :: nat)]\<rparr>, doneCount = 0,
           CompletionCallback = (None :: unit option)\<rparr>"
  have get: "queue_Get fifo_queue ?q 2 = (?q', Inr ?w)"
    by (simp add: queue_Get_def fifo_queue_def fifo_get_def fifo_new_def)
  show ?thesis
    using get queue_Get_takes_oldest [OF fifo_laws get]
    by (simp add: WrappedBatch_Events_entries)
qed

section \<open>Properties of the batch wrapper\<close>

abbreviation acked :: "u64 list \<Rightarrow> nat" where
  "acked ns \<equiv> sum_list (map unat ns)"

definition completion :: "('e, 'c) wrapped_batch \<Rightarrow> 'c done_effect list" where
  "completion w = BatchDone (batch_id (wb_batch w)) #
     (case CompletionCallback w of None \<Rightarrow> [] | Some cb \<Rightarrow> [RunCallback cb])"

lemma WrappedBatch_Done_cases:
  assumes "unat (doneCount w) + unat n < 2 ^ 64" and "batch_Count (wb_batch w) < 2 ^ 64"
  shows "WrappedBatch_Done w n = (w\<lparr>doneCount := doneCount w + n\<rparr>,
    if batch_Count (wb_batch w) \<le> unat (doneCount w) + unat n then completion w else [])"
proof -
  have "unat (doneCount w + n) = unat (doneCount w) + unat n"
    using assms(1) by (intro unat_add_no_overflow) simp
  moreover have "unat (word_of_nat (batch_Count (wb_batch w)) :: u64) = batch_Count (wb_batch w)"
    using assms(2) by (rule unat_of_nat_u64)
  ultimately show ?thesis
    by (simp add: WrappedBatch_Done_def completion_def word_le_nat_alt)
qed

lemma completion_update [simp]: "completion (w\<lparr>doneCount := n\<rparr>) = completion w"
  by (simp add: completion_def)

lemma done_run_below:
  assumes "unat (doneCount w) + acked ns < batch_Count (wb_batch w)"
    and "batch_Count (wb_batch w) < 2 ^ 64"
  shows "done_run w ns = (w\<lparr>doneCount := doneCount w + sum_list ns\<rparr>, [])"
  using assms
proof (induction ns arbitrary: w)
  case Nil
  then show ?case by simp
next
  case (Cons n ns)
  let ?w = "w\<lparr>doneCount := doneCount w + n\<rparr>"
  have add: "unat (doneCount w + n) = unat (doneCount w) + unat n"
    using Cons.prems by (intro unat_add_no_overflow) simp
  have "WrappedBatch_Done w n = (?w, [])"
    using Cons.prems by (subst WrappedBatch_Done_cases) auto
  moreover have "done_run ?w ns = (?w\<lparr>doneCount := doneCount ?w + sum_list ns\<rparr>, [])"
    using Cons.prems add by (intro Cons.IH) auto
  ultimately show ?case
    by (simp add: add.assoc)
qed

lemma done_run_append:
  "done_run w (ms @ ns) =
     (let (w', es) = done_run w ms; (w'', es') = done_run w' ns in (w'', es @ es'))"
  by (induction ms arbitrary: w) (auto split: prod.splits)

text \<open>The condition on a sequence of acknowledgements under which a batch of \<open>n\<close> events
  completes once, with the last of them.\<close>

definition acks_exactly :: "nat \<Rightarrow> u64 list \<Rightarrow> bool" where
  "acks_exactly n ns \<longleftrightarrow> ns \<noteq> [] \<and> last ns \<noteq> 0 \<and> acked ns = n"

lemma acks_exactly_prefix:
  assumes "acks_exactly n ns" and "strict_prefix ms ns"
  shows "acked ms < n"
proof -
  from assms(2) obtain ks where ns: "ns = ms @ ks" and "ks \<noteq> []"
    by (auto elim: strict_prefixE')
  then have "last ks = last ns" by simp
  with assms(1) have "0 < unat (last ks)"
    by (simp add: acks_exactly_def unat_gt_0)
  moreover have "unat (last ks) \<le> acked ks"
    using \<open>ks \<noteq> []\<close> by (intro member_le_sum_list) simp_all
  ultimately show ?thesis
    using assms(1) ns by (simp add: acks_exactly_def)
qed

lemma done_run_completes:
  assumes "doneCount w = 0" and "acks_exactly (batch_Count (wb_batch w)) ns"
    and "batch_Count (wb_batch w) < 2 ^ 64"
  shows "snd (done_run w ns) = completion w"
proof -
  let ?ms = "butlast ns" and ?n = "last ns"
  have ne: "ns \<noteq> []" and tot: "acked ns = batch_Count (wb_batch w)"
    using assms(2) by (auto simp: acks_exactly_def)
  have split: "ns = ?ms @ [?n]" using ne by simp
  then have "strict_prefix ?ms ns"
    by (metis append_self_conv not_Cons_self2 prefixI prefix_order.less_le)
  then have below: "acked ?ms < batch_Count (wb_batch w)"
    by (rule acks_exactly_prefix [OF assms(2)])
  define w' where "w' = w\<lparr>doneCount := sum_list ?ms\<rparr>"
  have run: "done_run w ?ms = (w', [])"
    using done_run_below [of w ?ms] assms(1,3) below by (simp add: w'_def)
  have sum: "unat (sum_list ?ms) = acked ?ms"
    using below assms(3) by (intro unat_sum_list_no_overflow) simp
  have "acked ?ms + unat ?n = batch_Count (wb_batch w)"
    using tot by (subst (asm) split) simp
  then have "WrappedBatch_Done w' ?n = (w'\<lparr>doneCount := doneCount w' + ?n\<rparr>, completion w')"
    using assms(3) sum by (subst WrappedBatch_Done_cases) (auto simp: w'_def)
  with run show ?thesis
    by (subst split, subst done_run_append) (simp add: w'_def)
qed

text \<open>C16: a fresh batch completes exactly once, and with the last acknowledgement, under every
  sequence of \<open>Done\<close> calls whose counts add up to the size of the batch and whose last count is
  not zero: no proper prefix of the calls has any effect, and all of them together call the
  batch's \<open>Done\<close> once and then the completion callback, if there is one, once.\<close>

theorem batch_completes_exactly_once:
  assumes "doneCount w = 0" and "acks_exactly (batch_Count (wb_batch w)) ns"
    and "batch_Count (wb_batch w) < 2 ^ 64"
  shows "snd (done_run w ns) = completion w \<and>
    (\<forall>ms. strict_prefix ms ns \<longrightarrow> snd (done_run w ms) = [])"
proof (intro conjI allI impI)
  show "snd (done_run w ns) = completion w"
    using assms by (rule done_run_completes)
next
  fix ms
  assume "strict_prefix ms ns"
  then have "acked ms < batch_Count (wb_batch w)"
    by (rule acks_exactly_prefix [OF assms(2)])
  then show "snd (done_run w ms) = []"
    using assms(1,3) done_run_below [of w ms] by simp
qed

theorem batch_completes_exactly_once_witness:
  "snd (done_run \<lparr>wb_batch = \<lparr>batch_id = 4, batch_entries = [Some 1, Some 2, Some (3 :: nat)]\<rparr>,
       doneCount = 0, CompletionCallback = Some ()\<rparr> [1, 0, 2]) = [BatchDone 4, RunCallback ()]"
  using batch_completes_exactly_once
    [of "\<lparr>wb_batch = \<lparr>batch_id = 4, batch_entries = [Some 1, Some 2, Some (3 :: nat)]\<rparr>,
       doneCount = 0, CompletionCallback = Some ()\<rparr>" "[1, 0, 2]"]
  by (simp add: acks_exactly_def batch_Count_def completion_def)

section \<open>The contract of an output\<close>

text \<open>
  An output is handed a fresh batch and owes it acknowledgements: \<open>dones s es\<close> are the counts it
  passes to \<open>Done\<close> while it processes a batch of the events \<open>es\<close> from a state \<open>s\<close>, and \<open>serves\<close>
  says from which states and for which events it meets the contract.
\<close>

locale acknowledging_output =
  fixes dones :: "'s \<Rightarrow> 'e list \<Rightarrow> u64 list"
    and serves :: "'s \<Rightarrow> 'e list \<Rightarrow> bool"
  assumes acks_batch:
    "serves s es \<Longrightarrow> es \<noteq> [] \<Longrightarrow> length es < 2 ^ 63 \<Longrightarrow> acks_exactly (length es) (dones s es)"
begin

lemma batch_completed:
  assumes "serves s es" and "es \<noteq> []" and "length es < 2 ^ 63"
    and "doneCount w = 0" and "batch_entries (wb_batch w) = map Some es"
  shows "snd (done_run w (dones s es)) = completion w"
  using done_run_completes [of w "dones s es"] acks_batch [OF assms(1-3)] assms(3-5)
  by (simp add: batch_Count_def)

end

text \<open>A batch as \<open>Get\<close> returns it, by \<open>queue_Get_takes_oldest\<close> and the laws of the queue.\<close>

definition fresh_batch :: "('e, 'c) wrapped_batch \<Rightarrow> 'e list \<Rightarrow> bool" where
  "fresh_batch w es \<longleftrightarrow>
     doneCount w = 0 \<and> es \<noteq> [] \<and> length es < 2 ^ 63 \<and> batch_entries (wb_batch w) = map Some es"

lemma queue_Get_fresh:
  assumes "queue_laws bq pending" and "queue_Get bq q n = (q', Inr w)"
  obtains es where "fresh_batch w es" and "pending (eventQueue q) = es @ pending (eventQueue q')"
    and "CompletionCallback w = None" and "queue_cfg q' = queue_cfg q"
proof (cases "beats_Get bq (eventQueue q) n")
  case (Pair s r)
  with assms(2) obtain b where r: "r = Inr b" and w: "wb_batch w = b" "doneCount w = 0"
    "CompletionCallback w = None" and q': "eventQueue q' = s" "queue_cfg q' = queue_cfg q"
    by (auto simp: queue_Get_def split: sum.splits)
  from Pair r obtain es where "es \<noteq> []" "length es < 2 ^ 63" "batch_entries b = map Some es"
    "pending (eventQueue q) = es @ pending s"
    using get_law_ok [OF queue_lawsD(3) [OF assms(1)]] by metis
  then show thesis
    using that w q' by (simp add: fresh_batch_def)
qed

context acknowledging_output
begin

lemma fresh_batch_completed:
  assumes "serves s es" and "fresh_batch w es"
  shows "snd (done_run w (dones s es)) = completion w"
  using assms batch_completed [of s es w] by (simp add: fresh_batch_def)

end

end
