(* ===== verification/Messages.thy ===== *)
theory Messages
  imports Shipper_Prelude
begin

text \<open>
  The protobuf messages of the shipper client library, as far as the shipper reads them. The
  types are generated code of another repository: only the fields the shipper uses are here, and
  timestamps \<open>'t\<close> and field values \<open>'v\<close> stay opaque. A nil pointer is \<open>None\<close>; the generated
  getters accept a nil receiver, so a nil event reads like one with no field set. The entries of
  a \<open>Struct\<close> are listed in the order in which an iteration over the Go map visits them.
\<close>

record source_msg =
  InputId :: string

record data_stream_msg =
  ds_Dataset :: string
  ds_Namespace :: string
  ds_Type :: string

type_synonym 'v struct_msg = "(string \<times> 'v) list"

record ('t, 'v) event =
  ev_Timestamp :: "'t option"
  ev_Source :: "source_msg option"
  ev_DataStream :: "data_stream_msg option"
  ev_Metadata :: "'v struct_msg option"
  ev_Fields :: "'v struct_msg option"

definition nil_event :: "('t, 'v) event" where
  "nil_event = \<lparr>ev_Timestamp = None, ev_Source = None, ev_DataStream = None,
                ev_Metadata = None, ev_Fields = None\<rparr>"

text \<open>The event behind a possibly nil pointer, and a lookup in the metadata.\<close>

definition deref :: "('t, 'v) event option \<Rightarrow> ('t, 'v) event" where
  "deref p = (case p of None \<Rightarrow> nil_event | Some e \<Rightarrow> e)"

definition metadata_field :: "('t, 'v) event \<Rightarrow> string \<Rightarrow> 'v option" where
  "metadata_field e key = Option.bind (ev_Metadata e) (\<lambda>d. map_of d key)"

lemma deref_Some [simp]: "deref (Some e) = e"
  by (simp add: deref_def)

end
