(* ===== verification/Grpc_Server.thy ===== *)
theory Grpc_Server
  imports Shipper_Queue Messages
begin

text \<open>
  \<^verbatim>\<open>src/grpcserver/server.go\<close>: the gRPC service. It talks to the rest of the shipper only through
  the interface \<open>Publisher\<close>, here a record of operations on the publisher's state \<open>'s\<close>; what the
  service relies on is the locale \<open>publisher\<close> (an event that is accepted is appended to the pending
  events, a refused one changes nothing) and its extension \<open>indexed_publisher\<close> (entry ids ascend).
  Other goroutines may use the publisher between two calls of one request; their effect is a
  parameter \<open>env\<close>, a change of the state before the \<open>n\<close>-th call.
\<close>

section \<open>The server\<close>

record ('s, 'e) publisher_ops =
  pub_PersistedIndex :: "'s \<Rightarrow> u64 result"
  pub_Publish :: "'s \<Rightarrow> 'e \<Rightarrow> 's \<times> u64 result"
  pub_TryPublish :: "'s \<Rightarrow> 'e \<Rightarrow> 's \<times> u64 result"
  pub_IsInitialized :: "'s \<Rightarrow> bool"

datatype status_code = Unavailable | FailedPrecondition | InvalidArgument

datatype grpc_status = Status status_code string

record shipper_server =
  srv_uuid :: string
  srv_closed :: bool
  srv_stopped :: nat
  strictMode :: bool
  initErrMsg :: string

text \<open>\<open>uuid.NewV4\<close> may fail; \<open>srv_closed\<close> is the state of the \<open>sync.Once\<close> and \<open>srv_stopped\<close> counts the
  calls of the context's cancel function.\<close>

definition NewShipperServer :: "string result \<Rightarrow> shipper_server result" where
  "NewShipperServer newV4 =
     (case newV4 of
        Inl err \<Rightarrow> Inl (Wrapped ''error generating shipper UUID: '' err)
      | Inr u \<Rightarrow> Inr \<lparr>srv_uuid = u, srv_closed = False, srv_stopped = 0, strictMode = False,
                      initErrMsg = []\<rparr>)"

definition SetStrictMode :: "shipper_server \<Rightarrow> bool \<Rightarrow> shipper_server" where
  "SetStrictMode serv mode = serv\<lparr>strictMode := mode\<rparr>"

definition SetInitError :: "shipper_server \<Rightarrow> string \<Rightarrow> shipper_server" where
  "SetInitError serv msg = serv\<lparr>initErrMsg := msg\<rparr>"

definition server_Close :: "shipper_server \<Rightarrow> shipper_server" where
  "server_Close serv =
     (if srv_closed serv then serv else serv\<lparr>srv_closed := True, srv_stopped := srv_stopped serv + 1\<rparr>)"

definition initMessage :: "shipper_server \<Rightarrow> string" where
  "initMessage serv = (if initErrMsg serv = [] then ''shipper is initializing'' else initErrMsg serv)"

section \<open>Validation\<close>

text \<open>The list of messages a validation collects, and the error made of them.\<close>

definition join_messages :: "string list \<Rightarrow> go_error option" where
  "join_messages msgs = (if msgs = [] then None else Some (NewError (strings_Join msgs ''; '')))"

definition validateSource :: "source_msg option \<Rightarrow> go_error option" where
  "validateSource s =
     (case s of
        None \<Rightarrow> Some (NewError ''cannot be nil'')
      | Some src \<Rightarrow> join_messages (if InputId src = [] then [''input_id is a required field''] else []))"

definition validateDataStream :: "data_stream_msg option \<Rightarrow> go_error option" where
  "validateDataStream ds =
     (case ds of
        None \<Rightarrow> Some (NewError ''cannot be nil'')
      | Some d \<Rightarrow> join_messages
          ((if ds_Dataset d = [] then [''dataset is a required field''] else []) @
           (if ds_Namespace d = [] then [''namespace is a required field''] else []) @
           (if ds_Type d = [] then [''type is a required field''] else [])))"

definition labelled :: "string \<Rightarrow> go_error option \<Rightarrow> string list" where
  "labelled name err = (case err of None \<Rightarrow> [] | Some e \<Rightarrow> [name @ '': '' @ Error_text e])"

text \<open>The events of a request are messages; protocol buffers decode a repeated field to messages that are never
  nil, and \<open>validateEvent\<close> would panic on one that is.\<close>

definition validateEvent :: "('t option \<Rightarrow> go_error option) \<Rightarrow> ('t, 'v) event \<Rightarrow> go_error option" where
  "validateEvent CheckValid m = join_messages
     (labelled ''timestamp'' (CheckValid (ev_Timestamp m)) @
      labelled ''datastream'' (validateDataStream (ev_DataStream m)) @
      labelled ''source'' (validateSource (ev_Source m)))"

fun validate_all :: "('t option \<Rightarrow> go_error option) \<Rightarrow> ('t, 'v) event list \<Rightarrow> go_error option" where
  "validate_all CheckValid [] = None"
| "validate_all CheckValid (e # es) =
     (case validateEvent CheckValid e of Some err \<Rightarrow> Some err | None \<Rightarrow> validate_all CheckValid es)"

section \<open>Publishing\<close>

record ('t, 'v) publish_request =
  rq_Uuid :: string
  rq_Events :: "('t, 'v) event list"

record publish_reply =
  rp_Uuid :: string
  AcceptedCount :: u32
  AcceptedIndex :: u64

text \<open>The loop over the events after the first: it stops at the first error.\<close>

fun try_publish_loop ::
    "('s, 'e) publisher_ops \<Rightarrow> (nat \<Rightarrow> 's \<Rightarrow> 's) \<Rightarrow> nat \<Rightarrow> 's \<Rightarrow> u32 \<Rightarrow> u64 \<Rightarrow> 'e list \<Rightarrow> 's \<times> u32 \<times> u64" where
  "try_publish_loop ops env n s count index [] = (s, count, index)"
| "try_publish_loop ops env n s count index (e # es) =
     (case pub_TryPublish ops (env n s) e of
        (s', Inr i) \<Rightarrow> try_publish_loop ops env (Suc n) s' (count + 1) i es
      | (s', Inl err) \<Rightarrow> (s', count, index))"

definition clear_init_error :: "shipper_server \<Rightarrow> shipper_server" where
  "clear_init_error serv = (if initErrMsg serv \<noteq> [] then serv\<lparr>initErrMsg := []\<rparr> else serv)"

definition PublishEvents ::
    "('t option \<Rightarrow> go_error option) \<Rightarrow> ('s, ('t, 'v) event) publisher_ops \<Rightarrow> (nat \<Rightarrow> 's \<Rightarrow> 's) \<Rightarrow>
     shipper_server \<Rightarrow> 's \<Rightarrow> ('t, 'v) publish_request \<Rightarrow>
     shipper_server \<times> 's \<times> publish_reply option \<times> grpc_status option" where
  "PublishEvents CheckValid ops env serv s req =
     (if \<not> pub_IsInitialized ops s then (serv, s, None, Some (Status Unavailable (initMessage serv)))
      else
        let serv = clear_init_error serv;
            resp = \<lparr>rp_Uuid = srv_uuid serv, AcceptedCount = 0, AcceptedIndex = 0\<rparr>
        in if rq_Uuid req \<noteq> [] \<and> rq_Uuid req \<noteq> srv_uuid serv
        then (serv, s, Some resp, Some (Status FailedPrecondition
               (''UUID does not match. Expected = '' @ srv_uuid serv @ '', actual = '' @ rq_Uuid req)))
        else (case rq_Events req of
          [] \<Rightarrow> (serv, s, None, Some (Status InvalidArgument
                  ''publish request must contain at least one event''))
        | e # es \<Rightarrow>
            (case (if strictMode serv then validate_all CheckValid (e # es) else None) of
               Some err \<Rightarrow> (serv, s, None, Some (Status InvalidArgument (Error_text err)))
             | None \<Rightarrow>
                 (case pub_Publish ops (env 0 s) e of
                    (s', Inl err) \<Rightarrow> (serv, s', None, Some (Status Unavailable (Error_text err)))
                  | (s', Inr i) \<Rightarrow>
                      (case try_publish_loop ops env 1 s' (AcceptedCount resp + 1) i es of
                         (s'', count, index) \<Rightarrow>
                           (serv, s'', Some (resp\<lparr>AcceptedCount := count, AcceptedIndex := index\<rparr>), None))))))"

section \<open>The persisted index\<close>

text \<open>The stream of index updates. What the loop's \<open>select\<close> receives comes as a list: a tick with
  the index the publisher reports at that time and the outcome of a send, or the end of one of the
  contexts. The result is the indexes sent and the error returned, \<open>None\<close> for \<open>nil\<close>; a stream that
  is still open after all inputs has no result yet.\<close>

datatype poll_input = Tick "u64 result" "go_error option" | ProducerDone go_error | ServerDone go_error

fun poll_loop :: "u64 \<Rightarrow> poll_input list \<Rightarrow> u64 list \<times> go_error option option" where
  "poll_loop persistedIndex [] = ([], None)"
| "poll_loop persistedIndex (ProducerDone err # _) =
     ([], Some (Some (Wrapped ''producer context: '' err)))"
| "poll_loop persistedIndex (ServerDone err # _) =
     ([], Some (Some (Wrapped ''server is stopped: '' err)))"
| "poll_loop persistedIndex (Tick (Inl _) _ # inputs) = poll_loop persistedIndex inputs"
| "poll_loop persistedIndex (Tick (Inr i) sent # inputs) =
     (if i = persistedIndex then poll_loop persistedIndex inputs
      else case sent of
             Some err \<Rightarrow> ([i], Some (Some (Wrapped ''failed to send the update: '' err)))
           | None \<Rightarrow> (case poll_loop i inputs of (is', r) \<Rightarrow> (i # is', r)))"

text \<open>\<open>NewTicker\<close> panics on an interval that is not positive.\<close>

definition PersistedIndex ::
    "('s, 'e) publisher_ops \<Rightarrow> shipper_server \<Rightarrow> 's \<Rightarrow> duration \<Rightarrow> go_error option \<Rightarrow> poll_input list \<Rightarrow>
     (shipper_server \<times> u64 list \<times> (grpc_status + go_error option) option) outcome" where
  "PersistedIndex ops serv s pollingInterval first_send inputs =
     (if \<not> pub_IsInitialized ops s
      then Return (serv, [], Some (Inl (Status Unavailable (initMessage serv))))
      else let serv = clear_init_error serv in
        case pub_PersistedIndex ops s of
          Inl err \<Rightarrow> Return (serv, [], Some (Inl (Status Unavailable (Error_text err))))
        | Inr i \<Rightarrow>
            (case first_send of
               Some err \<Rightarrow> Return (serv, [i], Some (Inr (Some err)))
             | None \<Rightarrow>
                 if pollingInterval = 0 then Return (serv, [i], Some (Inr None))
                 else if sint pollingInterval \<le> 0 then Panic ''non-positive interval for NewTicker''
                 else (case poll_loop i inputs of
                         (is', r) \<Rightarrow> Return (serv, i # is', map_option Inr r))))"

section \<open>The contract of the publisher\<close>

abbreviation no_interference :: "nat \<Rightarrow> 's \<Rightarrow> 's" where
  "no_interference \<equiv> \<lambda>n s. s"

definition accepted_events :: "'e \<Rightarrow> u64 result \<Rightarrow> 'e list" where
  "accepted_events e r = (case r of Inl _ \<Rightarrow> [] | Inr _ \<Rightarrow> [e])"

lemma accepted_events_simps [simp]:
  "accepted_events e (Inl err) = []" "accepted_events e (Inr i) = [e]"
  by (simp_all add: accepted_events_def)

locale publisher =
  fixes ops :: "('s, ('t, 'v) event) publisher_ops"
    and pending :: "'s \<Rightarrow> ('t, 'v) event list"
    and inv :: "'s \<Rightarrow> bool"
  assumes Publish_appends:
      "inv s \<Longrightarrow> pub_Publish ops s e = (s', r) \<Longrightarrow> inv s' \<and> pending s' = pending s @ accepted_events e r"
    and TryPublish_appends:
      "inv s \<Longrightarrow> pub_TryPublish ops s e = (s', r) \<Longrightarrow> inv s' \<and> pending s' = pending s @ accepted_events e r"
begin

lemma try_publish_loop_prefix:
  assumes "inv s" and "try_publish_loop ops no_interference n s count index es = (s', count', index')"
  shows "inv s' \<and> (\<exists>k\<le>length es. count' = count + word_of_nat k \<and> pending s' = pending s @ take k es)"
  using assms
proof (induction es arbitrary: n s count index)
  case Nil
  then show ?case by auto
next
  case (Cons e es)
  obtain s1 r where t: "pub_TryPublish ops s e = (s1, r)" by force
  note app = TryPublish_appends [OF Cons.prems(1) t]
  show ?case
  proof (cases r)
    case (Inl err)
    with Cons.prems t app show ?thesis by auto
  next
    case (Inr i)
    with Cons.prems(2) t
    have rest: "try_publish_loop ops no_interference (Suc n) s1 (count + 1) i es = (s', count', index')" by simp
    from Cons.IH [OF conjunct1 [OF app] this] obtain k where "inv s'" "k \<le> length es"
      "count' = count + 1 + word_of_nat k" "pending s' = pending s1 @ take k es" by blast
    with app Inr show ?thesis by (intro conjI exI [of _ "Suc k"]) simp_all
  qed
qed

lemma PublishEvents_prefix:
  assumes "inv s" and "PublishEvents CheckValid ops no_interference serv s req = (serv', s', reply, st)"
  shows "inv s' \<and>
    (if st = None
     then \<exists>rp k. reply = Some rp \<and> 0 < k \<and> k \<le> length (rq_Events req) \<and>
            AcceptedCount rp = word_of_nat k \<and> rp_Uuid rp = srv_uuid serv \<and>
            pending s' = pending s @ take k (rq_Events req)
     else pending s' = pending s)"
proof (cases "st = None")
  case True
  then obtain e es s1 i count index where ev: "rq_Events req = e # es"
      and p: "pub_Publish ops s e = (s1, Inr i)"
      and l: "try_publish_loop ops no_interference 1 s1 1 i es = (s', count, index)"
      and r: "reply = Some \<lparr>rp_Uuid = srv_uuid serv, AcceptedCount = count, AcceptedIndex = index\<rparr>"
    using assms(2) unfolding PublishEvents_def Let_def clear_init_error_def
    by (auto split: if_splits list.splits option.splits prod.splits sum.splits)
  note app = Publish_appends [OF assms(1) p]
  from try_publish_loop_prefix [OF conjunct1 [OF app] l] obtain k where "inv s'" "k \<le> length es"
    "count = 1 + word_of_nat k" "pending s' = pending s1 @ take k es" by blast
  with True ev r app show ?thesis by (auto intro!: exI [of _ "Suc k"])
next
  case False
  then consider "s' = s" | e err where "pub_Publish ops s e = (s', Inl err)"
    using assms(2) unfolding PublishEvents_def Let_def
    by (auto split: if_splits list.splits option.splits prod.splits sum.splits)
  then show ?thesis
    using False assms(1) Publish_appends by cases fastforce+
qed

end

text \<open>Ids: \<open>newest s\<close> is the id of the last event accepted so far. Other goroutines may publish in
  between, so they may only raise it.\<close>

locale indexed_publisher = publisher ops pending inv
  for ops :: "('s, ('t, 'v) event) publisher_ops" and pending and inv +
  fixes newest :: "'s \<Rightarrow> nat"
  assumes Publish_ascends:
      "inv s \<Longrightarrow> pub_Publish ops s e = (s', r) \<Longrightarrow>
       ascends (newest s) (newest s') r"
    and TryPublish_ascends:
      "inv s \<Longrightarrow> pub_TryPublish ops s e = (s', r) \<Longrightarrow>
       ascends (newest s) (newest s') r"
begin

definition benign :: "(nat \<Rightarrow> 's \<Rightarrow> 's) \<Rightarrow> bool" where
  "benign env \<longleftrightarrow> (\<forall>n s. inv s \<longrightarrow> inv (env n s) \<and> newest s \<le> newest (env n s))"

lemma try_publish_loop_index:
  assumes "benign env" "inv s" "unat index \<le> newest s"
    and "try_publish_loop ops env n s count index es = (s', count', index')"
  shows "\<exists>k\<le>length es. count' = count + word_of_nat k \<and> unat index + k \<le> unat index' \<and>
    unat index' \<le> newest s'"
  using assms(2-)
proof (induction es arbitrary: n s count index)
  case Nil
  then show ?case by auto
next
  case (Cons e es)
  have env: "inv (env n s)" "newest s \<le> newest (env n s)"
    using assms(1) Cons.prems(1) by (auto simp: benign_def)
  obtain s1 r where t: "pub_TryPublish ops (env n s) e = (s1, r)" by force
  note asc = TryPublish_ascends [OF env(1) t] and app = TryPublish_appends [OF env(1) t]
  show ?case
  proof (cases r)
    case (Inl err)
    with Cons.prems t asc env show ?thesis by (auto simp: ascends_def)
  next
    case (Inr i)
    with Cons.prems(3) t
    have rest: "try_publish_loop ops env (Suc n) s1 (count + 1) i es = (s', count', index')" by simp
    have i: "unat i \<le> newest s1" "unat index < unat i" using asc Inr env Cons.prems(2) by (auto simp: ascends_def)
    from Cons.IH [OF conjunct1 [OF app] i(1) rest] obtain k where "k \<le> length es"
      "count' = count + 1 + word_of_nat k" "unat i + k \<le> unat index'" "unat index' \<le> newest s'" by blast
    with i(2) show ?thesis by (intro exI [of _ "Suc k"]) simp_all
  qed
qed

lemma PublishEvents_index:
  assumes "benign env" "inv s"
    and "PublishEvents CheckValid ops env serv s req = (serv', s', Some rp, None)"
  shows "\<exists>k. 0 < k \<and> k \<le> length (rq_Events req) \<and> AcceptedCount rp = word_of_nat k \<and>
    newest s + k \<le> unat (AcceptedIndex rp) \<and> unat (AcceptedIndex rp) \<le> newest s'"
proof -
  obtain e es s1 i count index where ev: "rq_Events req = e # es"
      and p: "pub_Publish ops (env 0 s) e = (s1, Inr i)"
      and l: "try_publish_loop ops env 1 s1 1 i es = (s', count, index)"
      and r: "rp = \<lparr>rp_Uuid = srv_uuid serv, AcceptedCount = count, AcceptedIndex = index\<rparr>"
    using assms(3) unfolding PublishEvents_def Let_def clear_init_error_def
    by (auto split: if_splits list.splits option.splits prod.splits sum.splits)
  have env: "inv (env 0 s)" "newest s \<le> newest (env 0 s)" using assms(1,2) by (auto simp: benign_def)
  from Publish_ascends [OF env(1) p] have i: "newest s < unat i" "unat i \<le> newest s1"
    using env by (auto simp: ascends_def)
  from try_publish_loop_index [OF assms(1) conjunct1 [OF Publish_appends [OF env(1) p]] i(2) l]
  obtain k where "k \<le> length es" "count = 1 + word_of_nat k" "unat i + k \<le> unat index"
    "unat index \<le> newest s'" by blast
  with i ev r show ?thesis by (intro exI [of _ "Suc k"]) auto
qed

end

section \<open>Strict mode\<close>

lemma join_messages_None [simp]: "join_messages msgs = None \<longleftrightarrow> msgs = []"
  by (simp add: join_messages_def)

lemma labelled_Nil [simp]: "labelled name err = [] \<longleftrightarrow> err = None"
  by (simp add: labelled_def split: option.split)

definition complete_event :: "('t option \<Rightarrow> go_error option) \<Rightarrow> ('t, 'v) event \<Rightarrow> bool" where
  "complete_event CheckValid e \<longleftrightarrow> CheckValid (ev_Timestamp e) = None \<and>
     (\<exists>d. ev_DataStream e = Some d \<and> ds_Dataset d \<noteq> [] \<and> ds_Namespace d \<noteq> [] \<and> ds_Type d \<noteq> []) \<and>
     (\<exists>src. ev_Source e = Some src \<and> InputId src \<noteq> [])"

lemma validateEvent_None: "validateEvent CheckValid e = None \<longleftrightarrow> complete_event CheckValid e"
  by (auto simp: validateEvent_def validateDataStream_def validateSource_def complete_event_def
      split: option.splits)

lemma validate_all_None: "validate_all CheckValid es = None \<longleftrightarrow> list_all (complete_event CheckValid) es"
  by (induction es) (auto simp: validateEvent_None [symmetric] split: option.splits)

text \<open>C22: in strict mode a request goes through only if every event of it has a valid timestamp, a
  data stream with dataset, namespace and type, and a source with an input id; otherwise the
  request is answered with \<open>InvalidArgument\<close> and no event of it, not even a complete one, reaches
  the publisher. Without strict mode the events are not looked at.\<close>

theorem strict_mode_all_or_nothing:
  assumes "pub_IsInitialized ops s" "rq_Uuid req \<in> {[], srv_uuid serv}" "rq_Events req \<noteq> []"
    and "strictMode serv"
  shows "if list_all (complete_event CheckValid) (rq_Events req)
    then PublishEvents CheckValid ops env serv s req =
         (let (serv', r) = PublishEvents CheckValid ops env (SetStrictMode serv False) s req
          in (SetStrictMode serv' True, r))
    else \<exists>msg. PublishEvents CheckValid ops env serv s req =
         (clear_init_error serv, s, None, Some (Status InvalidArgument msg))"
proof -
  obtain e es where ev: "rq_Events req = e # es" using assms(3) by (cases "rq_Events req") auto
  have v: "validate_all CheckValid (e # es) = None \<longleftrightarrow> list_all (complete_event CheckValid) (rq_Events req)"
    by (simp only: validate_all_None ev)
  show ?thesis
  proof (cases "validate_all CheckValid (e # es)")
    case None
    with v assms ev show ?thesis
      by (auto simp: PublishEvents_def Let_def clear_init_error_def SetStrictMode_def
        split: prod.split sum.split simp del: validate_all.simps)
  next
    case (Some err)
    with v assms ev show ?thesis
      by (auto simp: PublishEvents_def Let_def clear_init_error_def simp del: validate_all.simps)
  qed
qed

definition list_publisher :: "('e list, 'e) publisher_ops" where
  "list_publisher = \<lparr>pub_PersistedIndex = \<lambda>s. Inr (word_of_nat (length s)),
     pub_Publish = \<lambda>s e. (s @ [e], Inr (word_of_nat (length s))),
     pub_TryPublish = \<lambda>s e. (s @ [e], Inr (word_of_nat (length s))), pub_IsInitialized = \<lambda>s. True\<rparr>"

definition example_server :: shipper_server where
  "example_server = \<lparr>srv_uuid = ''u'', srv_closed = False, srv_stopped = 0, strictMode = True,
     initErrMsg = ''''\<rparr>"

theorem strict_mode_all_or_nothing_witness:
  "\<exists>msg. PublishEvents (\<lambda>t. None) list_publisher no_interference example_server []
      \<lparr>rq_Uuid = ''u'', rq_Events = [nil_event :: (unit, unit) event]\<rparr> =
    (example_server, [], None, Some (Status InvalidArgument msg))"
  using strict_mode_all_or_nothing [of list_publisher "[]" "\<lparr>rq_Uuid = ''u'',
      rq_Events = [nil_event :: (unit, unit) event]\<rparr>" example_server "\<lambda>t. None" no_interference]
  by (simp add: list_publisher_def example_server_def complete_event_def nil_event_def clear_init_error_def)

section \<open>The stream of persisted indexes\<close>

text \<open>The indexes the publisher reports at the ticks before one of the contexts ends.\<close>

fun readings :: "poll_input list \<Rightarrow> u64 list" where
  "readings (Tick (Inr i) sent # inputs) = i # readings inputs"
| "readings (Tick (Inl err) sent # inputs) = readings inputs"
| "readings _ = []"

fun sends_succeed :: "poll_input \<Rightarrow> bool" where
  "sends_succeed (Tick r sent) \<longleftrightarrow> sent = None"
| "sends_succeed _ \<longleftrightarrow> True"

fun stream_end :: "poll_input list \<Rightarrow> go_error option" where
  "stream_end (ProducerDone err # inputs) = Some (Wrapped ''producer context: '' err)"
| "stream_end (ServerDone err # inputs) = Some (Wrapped ''server is stopped: '' err)"
| "stream_end (Tick r sent # inputs) = stream_end inputs"
| "stream_end [] = None"

lemma poll_loop_result:
  assumes "list_all sends_succeed inputs"
  shows "i # fst (poll_loop i inputs) = remdups_adj (i # readings inputs) \<and>
    snd (poll_loop i inputs) = map_option Some (stream_end inputs)"
  using assms
proof (induction i inputs rule: poll_loop.induct)
  case (5 p i sent inputs)
  then show ?case
    by (cases "i = p") (auto split: prod.splits)
qed auto

text \<open>A subscriber to the persisted index gets the index at once and then every change of it and
  nothing else: the values sent are those the publisher reported, in order, with adjacent repetitions
  left out; failed readings are skipped. The stream stays open until the producer's or the server's
  context ends, and then returns that context's error; with interval zero it ends after the first
  value.\<close>

theorem persisted_index_stream:
  assumes "pub_IsInitialized ops s" "pub_PersistedIndex ops s = Inr i"
    and "0 \<le> sint interval" "list_all sends_succeed inputs"
  shows "PersistedIndex ops serv s interval None inputs =
    Return (clear_init_error serv,
      if interval = 0 then ([i], Some (Inr None))
      else (remdups_adj (i # readings inputs), map_option (Inr \<circ> Some) (stream_end inputs)))"
proof (cases "interval = 0")
  case True
  with assms show ?thesis by (simp add: PersistedIndex_def)
next
  case False
  have "sint interval \<noteq> 0" using False by (metis signed_eq_0_iff)
  with False assms poll_loop_result [OF assms(4), of i] show ?thesis
    by (cases "poll_loop i inputs") (auto simp: PersistedIndex_def Let_def option.map_comp)
qed

theorem persisted_index_stream_witness:
  "PersistedIndex list_publisher example_server [7 :: nat] (seconds 1) None
     [Tick (Inr 1) None, Tick (Inr 4) None, Tick (Inl (NewError ''x'')) None, Tick (Inr 4) None,
      ServerDone (NewError ''context canceled'')] =
   Return (example_server, [1, 4], Some (Inr (Some (Wrapped ''server is stopped: '' (NewError ''context canceled'')))))"
  using persisted_index_stream [of list_publisher "[7 :: nat]" 1 "seconds 1"
     "[Tick (Inr 1) None, Tick (Inr 4) None, Tick (Inl (NewError ''x'')) None, Tick (Inr 4) None,
      ServerDone (NewError ''context canceled'')]" example_server]
  by (simp add: list_publisher_def example_server_def clear_init_error_def)

text \<open>A subscriber that asks for a negative polling interval makes the server panic after the
  first value was sent, since the interval is only compared with zero before the ticker is made.\<close>

theorem negative_polling_interval_panics:
  assumes "pub_IsInitialized ops s" "pub_PersistedIndex ops s = Inr i" "sint interval < 0"
  shows "PersistedIndex ops serv s interval None inputs = Panic ''non-positive interval for NewTicker''"
proof -
  from assms(3) have "interval \<noteq> 0" by auto
  with assms show ?thesis by (simp add: PersistedIndex_def)
qed

theorem negative_polling_interval_panics_witness:
  "PersistedIndex list_publisher example_server [7 :: nat] (- 1) None [] =
     Panic ''non-positive interval for NewTicker''"
  by (rule negative_polling_interval_panics [where i = 1]) (simp_all add: list_publisher_def)

end
