(* ===== verification/Build_Env.thy ===== *)
theory Build_Env
  imports Shipper_Prelude
begin

text \<open>
  What the build and the command line share: the version helpers of \<^verbatim>\<open>src/tools\<close> and the helpers of
  \<^verbatim>\<open>src/dev-tools/common/common.go\<close>, with the functions of Go's standard library they call:
  \<open>strconv.ParseBool\<close> and \<open>FormatBool\<close>, \<open>strings.Contains\<close> and \<open>Split\<close>, \<open>filepath.Join\<close> with its
  lexical cleaning (for paths with slashes), and the process environment, a map in which a variable
  may be missing (\<open>os.LookupEnv\<close>) or empty (\<open>os.Getenv\<close>).
\<close>

section \<open>The standard library\<close>

text \<open>The verb \<^verbatim>\<open>%q\<close>, for text without characters that Go escapes.\<close>

definition go_quoted :: "string \<Rightarrow> string" where
  "go_quoted s = [CHR 0x22] @ s @ [CHR 0x22]"

definition ParseBool :: "string \<Rightarrow> bool result" where
  "ParseBool s =
     (if s \<in> set [''1'', ''t'', ''T'', ''true'', ''TRUE'', ''True''] then Inr True
      else if s \<in> set [''0'', ''f'', ''F'', ''false'', ''FALSE'', ''False''] then Inr False
      else Inl (NewError (''strconv.ParseBool: parsing '' @ go_quoted s @ '': invalid syntax'')))"

definition FormatBool :: "bool \<Rightarrow> string" where
  "FormatBool b = (if b then ''true'' else ''false'')"

lemma ParseBool_FormatBool [simp]: "ParseBool (FormatBool b) = Inr b"
  by (cases b) (simp_all add: ParseBool_def FormatBool_def)

definition strings_Contains :: "string \<Rightarrow> string \<Rightarrow> bool" where
  "strings_Contains s sub \<longleftrightarrow> list_ex (prefix sub) (suffixes s)"

text \<open>\<open>strings.Split\<close> for a separator of one character.\<close>

fun strings_Split :: "string \<Rightarrow> char \<Rightarrow> string list" where
  "strings_Split [] sep = [[]]"
| "strings_Split (c # s) sep =
     (if c = sep then [] # strings_Split s sep
      else case strings_Split s sep of w # ws \<Rightarrow> (c # w) # ws | [] \<Rightarrow> [[c]])"

lemma strings_Split_Nil [simp]: "strings_Split s sep \<noteq> []"
  by (induction s) (auto split: list.splits)

lemma Join_Split: "strings_Join (strings_Split s sep) [sep] = s"
proof (induction s)
  case (Cons c s)
  obtain w ws where w: "strings_Split s sep = w # ws"
    by (cases "strings_Split s sep") auto
  with Cons show ?case by (cases ws) auto
qed simp

lemma Split_Join:
  assumes "ws \<noteq> []" "\<forall>w \<in> set ws. sep \<notin> set w"
  shows "strings_Split (strings_Join ws [sep]) sep = ws"
proof -
  have word: "strings_Split w sep = [w]" if "sep \<notin> set w" for w
    using that by (induction w) auto
  have app: "strings_Split (w @ sep # s) sep = w # strings_Split s sep" if "sep \<notin> set w" for w s
    using that by (induction w) auto
  from assms show ?thesis
    by (induction ws "[sep]" rule: strings_Join.induct) (auto simp: word app)
qed

text \<open>The elements of a path without \<open>.\<close> and empty ones, and with \<open>..\<close> taking back the element before it;
  at the root there is nothing to take back.\<close>

fun clean_elements :: "bool \<Rightarrow> string list \<Rightarrow> string list \<Rightarrow> string list" where
  "clean_elements rooted acc [] = rev acc"
| "clean_elements rooted acc (x # xs) =
     (if x = [] \<or> x = ''.'' then clean_elements rooted acc xs
      else if x = ''..''
      then (case acc of
              [] \<Rightarrow> clean_elements rooted (if rooted then [] else [x]) xs
            | y # ys \<Rightarrow> if y = ''..'' then clean_elements rooted (x # acc) xs else clean_elements rooted ys xs)
      else clean_elements rooted (x # acc) xs)"

definition filepath_Clean :: "string \<Rightarrow> string" where
  "filepath_Clean p =
     (let rooted = prefix ''/'' p;
          q = (if rooted then ''/'' else []) @ strings_Join (clean_elements rooted [] (strings_Split p (CHR ''/''))) ''/''
      in if q = [] then ''.'' else q)"

definition filepath_Join :: "string list \<Rightarrow> string" where
  "filepath_Join elems =
     (let xs = filter (\<lambda>x. x \<noteq> []) elems in if xs = [] then [] else filepath_Clean (strings_Join xs ''/''))"

text \<open>\<open>filepath.Dir\<close> and \<open>filepath.Ext\<close>.\<close>

definition filepath_Dir :: "string \<Rightarrow> string" where
  "filepath_Dir p = filepath_Clean (rev (dropWhile (\<lambda>c. c \<noteq> CHR ''/'') (rev p)))"

definition filepath_Ext :: "string \<Rightarrow> string" where
  "filepath_Ext p =
     (let t = takeWhile (\<lambda>c. c \<noteq> CHR ''/'' \<and> c \<noteq> CHR ''.'') (rev p) in
      case drop (length t) (rev p) of
        [] \<Rightarrow> []
      | c # _ \<Rightarrow> if c = CHR ''.'' then c # rev t else [])"

definition strings_TrimSuffix :: "string \<Rightarrow> string \<Rightarrow> string" where
  "strings_TrimSuffix s x = (if suffix x s then take (length s - length x) s else s)"

section \<open>The environment\<close>

type_synonym environ = "string \<Rightarrow> string option"

definition os_Getenv :: "environ \<Rightarrow> string \<Rightarrow> string" where
  "os_Getenv env k = (case env k of None \<Rightarrow> [] | Some v \<Rightarrow> v)"

definition EnvOrDefault :: "environ \<Rightarrow> string \<Rightarrow> string \<Rightarrow> string" where
  "EnvOrDefault env buildEnv defaultValue =
     (let val = os_Getenv env buildEnv in
      if val \<noteq> []
      then (case ParseBool val of Inl err \<Rightarrow> defaultValue | Inr boolVal \<Rightarrow> FormatBool boolVal)
      else defaultValue)"

definition BoolEnvOrFalse :: "environ \<Rightarrow> string \<Rightarrow> bool" where
  "BoolEnvOrFalse env buildEnv =
     (let val = os_Getenv env buildEnv in
      if val \<noteq> [] then (case ParseBool val of Inl err \<Rightarrow> False | Inr boolVal \<Rightarrow> boolVal) else False)"

lemma BoolEnvOrFalse_EnvOrDefault:
  "BoolEnvOrFalse env k \<longleftrightarrow> EnvOrDefault env k ''false'' = ''true''"
  by (auto simp: BoolEnvOrFalse_def EnvOrDefault_def FormatBool_def Let_def split: sum.splits)

section \<open>Versions\<close>

definition DefaultBeatVersion :: string where
  "DefaultBeatVersion = ''8.10.0''"

definition GetDefaultVersion :: "string \<Rightarrow> string" where
  "GetDefaultVersion qualifier =
     (if qualifier = [] then DefaultBeatVersion else DefaultBeatVersion @ ''-'' @ qualifier)"

text \<open>\<open>BuildTime\<close>, for the parser of RFC 3339 times and the zero time.\<close>

definition BuildTime :: "(string \<Rightarrow> 'time result) \<Rightarrow> 'time \<Rightarrow> string \<Rightarrow> 'time" where
  "BuildTime time_Parse zero buildTime = (case time_Parse buildTime of Inl err \<Rightarrow> zero | Inr t \<Rightarrow> t)"

definition tools_Snapshot :: "string \<Rightarrow> bool" where
  "tools_Snapshot snapshot = (case ParseBool snapshot of Inl err \<Rightarrow> False | Inr val \<Rightarrow> val)"

section \<open>Platforms\<close>

definition ProjectName :: string where
  "ProjectName = ''elastic-agent-shipper''"

definition PlatformFiles :: "string \<Rightarrow> string list option" where
  "PlatformFiles = map_of
     [(''windows'', [''windows-x86_64'', ''windows-x86'']),
      (''linux'', [''linux-arm64'', ''linux-x86_64'', ''linux-x86'']),
      (''darwin'', [''darwin-aarch64'', ''darwin-x86_64'']),
      (''darwin/amd64'', [''darwin-x86_64'']),
      (''darwin/arm64'', [''darwin-aarch64'']),
      (''linux/386'', [''linux-x86'']),
      (''linux/amd64'', [''linux-x86_64'']),
      (''linux/arm64'', [''linux-arm64'']),
      (''windows/386'', [''windows-x86'']),
      (''windows/amd64'', [''windows-x86_64'']),
      (''all'', [''darwin-aarch64'', ''darwin-x86_64'', ''linux-arm64'', ''linux-x86_64'', ''linux-x86'',
        ''windows-x86_64'', ''windows-x86''])]"

text \<open>\<open>CreateDir\<close>, for the answer of \<open>os.MkdirAll\<close>; it panics when the directory cannot be made.\<close>

definition CreateDir :: "(string \<Rightarrow> go_error option) \<Rightarrow> string \<Rightarrow> string outcome" where
  "CreateDir MkdirAll file =
     (let dir = filepath_Dir file in
      if dir \<noteq> ''.''
      then (case MkdirAll dir of
              Some err \<Rightarrow> Panic (''failed to create parent dir for '' @ file @ '': '' @ Error_text err)
            | None \<Rightarrow> Return file)
      else Return file)"

text \<open>A command, and whether its output is shown.\<close>

record command =
  cmd_Path :: string
  cmd_Args :: "string list"
  cmd_Env :: "string list"
  cmd_stdout :: bool

text \<open>\<open>MakeCommand\<close>: the variables \<open>env\<close>, in the order the map yields them, come after those of the
  process; the output is shown in verbose mode only.\<close>

definition MakeCommand ::
    "string list \<Rightarrow> bool \<Rightarrow> (string \<times> string) list \<Rightarrow> string \<Rightarrow> string list \<Rightarrow> command" where
  "MakeCommand os_Environ verbose env cmd args =
     \<lparr>cmd_Path = cmd, cmd_Args = args, cmd_Env = os_Environ @ map (\<lambda>(k, v). k @ ''='' @ v) env,
      cmd_stdout = verbose\<rparr>"

end
