(* ===== verification/Go_Float.thy ===== *)
theory Go_Float
  imports Shipper_Prelude Complex_Main
begin

text \<open>
  The floating point arithmetic the program uses: the conversion of an integer to \<open>float64\<close> and the quotient
  of two such numbers, both rounded to 53 significant bits, to nearest and ties to even. The numbers
  that occur are positive and far from the ends of the format's range, so neither infinities nor
  subnormal numbers arise in them.
\<close>

section \<open>Rounding\<close>

text \<open>Rounding the quotient of two natural numbers to the nearest number, ties to even.\<close>

definition round_half_even :: "nat \<Rightarrow> nat \<Rightarrow> nat" where
  "round_half_even n d =
     (let q = n div d; r = n mod d in if d < 2 * r \<or> d = 2 * r \<and> odd q then q + 1 else q)"

text \<open>The value of \<open>float64(n)\<close> for a 64-bit number: it is rounded to 53 significant bits.\<close>

function excess_bits :: "nat \<Rightarrow> nat" where
  "excess_bits n = (if n < 2 ^ 53 then 0 else Suc (excess_bits (n div 2)))"
  by pat_completeness auto
termination
  by (relation "measure (\<lambda>n. n)") auto

declare excess_bits.simps [simp del]

definition float64_of_uint64 :: "u64 \<Rightarrow> nat" where
  "float64_of_uint64 w =
     (let s = excess_bits (unat w) in round_half_even (unat w) (2 ^ s) * 2 ^ s)"

text \<open>How often a number has to be doubled to reach another.\<close>

function doublings :: "nat \<Rightarrow> nat \<Rightarrow> nat" where
  "doublings b m = (if m \<le> b \<or> b = 0 then 0 else Suc (doublings (2 * b) m))"
  by pat_completeness auto
termination
  by (relation "measure (\<lambda>(b, m). m - b)") auto

declare doublings.simps [simp del]

text \<open>The quotient of two floats with positive natural values: scaled by a power of two such that it has 53
  bits before the point, rounded there, and scaled back.\<close>

definition float64_quotient :: "nat \<Rightarrow> nat \<Rightarrow> rat" where
  "float64_quotient a b =
     (let up = doublings a (2 ^ 52 * b); down = doublings (2 ^ 53 * b) (a + 1)
      in of_nat (round_half_even (a * 2 ^ up) (b * 2 ^ down)) * 2 ^ down / 2 ^ up)"

section \<open>Properties\<close>

lemma round_half_even_ge: "n div d \<le> round_half_even n d"
  by (simp add: round_half_even_def Let_def)

lemma round_half_even_exact: "0 < d \<Longrightarrow> round_half_even (c * d) d = c"
  by (simp add: round_half_even_def)

lemma round_half_even_le: "0 < d \<Longrightarrow> n < c * d \<Longrightarrow> round_half_even n d \<le> c"
  by (simp add: round_half_even_def Let_def Suc_le_eq less_mult_imp_div_less less_imp_le)

lemma float64_small: "unat w < 2 ^ 53 \<Longrightarrow> float64_of_uint64 w = unat w"
  by (simp add: float64_of_uint64_def excess_bits.simps round_half_even_def)

lemma doublings_bound:
  "k < doublings b m \<Longrightarrow> b * 2 ^ k < m"
proof (induction b m arbitrary: k rule: doublings.induct)
  case (1 b m)
  from 1(2) have nb: "\<not> (m \<le> b \<or> b = 0)" by (subst (asm) doublings.simps) (auto split: if_splits)
  show ?case
  proof (cases k)
    case 0
    with nb show ?thesis by simp
  next
    case (Suc k')
    with 1(2) nb have "k' < doublings (2 * b) m" by (subst (asm) doublings.simps) simp
    from 1(1) [OF nb this] Suc show ?thesis by (simp add: ac_simps)
  qed
qed

lemma doublings_reached:
  "0 < b \<Longrightarrow> doublings b m \<le> k \<Longrightarrow> m \<le> b * 2 ^ k"
proof (induction b m arbitrary: k rule: doublings.induct)
  case (1 b m)
  show ?case
  proof (cases "m \<le> b")
    case True
    have "b * 1 \<le> b * 2 ^ k" by (intro mult_le_mono2) simp
    with True show ?thesis by linarith
  next
    case False
    with 1(2) have nb: "\<not> (m \<le> b \<or> b = 0)" by simp
    with 1(3) obtain k' where k: "k = Suc k'" "doublings (2 * b) m \<le> k'"
      by (subst (asm) doublings.simps) (auto dest: Suc_le_D)
    from 1(1) [OF nb _ k(2)] nb k(1) show ?thesis by (simp add: ac_simps)
  qed
qed

lemma doublings_zero: "m \<le> b \<Longrightarrow> doublings b m = 0"
  by (simp add: doublings.simps)

text \<open>The scaled quotient has 53 bits before the point.\<close>

lemma quotient_normal:
  fixes a b :: nat
  assumes "0 < a" "0 < b"
  defines "u \<equiv> doublings a (2 ^ 52 * b)" and "d \<equiv> doublings (2 ^ 53 * b) (a + 1)"
  shows "2 ^ 52 * (b * 2 ^ d) \<le> a * 2 ^ u" "a * 2 ^ u < 2 ^ 53 * (b * 2 ^ d)"
proof -
  have up: "2 ^ 52 * b \<le> a * 2 ^ u" unfolding u_def by (rule doublings_reached [OF assms(1) order_refl])
  have down: "a < 2 ^ 53 * b * 2 ^ d"
    using doublings_reached [of "2 ^ 53 * b" "a + 1" d] assms(2) unfolding d_def by simp
  show "2 ^ 52 * (b * 2 ^ d) \<le> a * 2 ^ u"
  proof (cases d)
    case (Suc e)
    then have "2 ^ 53 * b * 2 ^ e < a + 1" unfolding d_def by (intro doublings_bound) simp
    moreover have "u = 0" using Suc doublings_zero [of "a + 1" "2 ^ 53 * b"] unfolding u_def d_def
      by (intro doublings_zero) (cases "a + 1 \<le> 2 ^ 53 * b"; simp)
    ultimately show ?thesis using Suc by simp
  qed (use up in simp)
  show "a * 2 ^ u < 2 ^ 53 * (b * 2 ^ d)"
  proof (cases u)
    case 0
    with down show ?thesis by (simp add: ac_simps)
  next
    case (Suc v)
    then have "a * 2 ^ v < 2 ^ 52 * b" unfolding u_def by (intro doublings_bound) simp
    then have "a * 2 ^ u < 2 ^ 53 * b" using Suc by simp
    moreover have "2 ^ 53 * b \<le> 2 ^ 53 * (b * 2 ^ d)" by simp
    ultimately show ?thesis by (rule less_le_trans)
  qed
qed

text \<open>Rounding does not carry a quotient over a power of two.\<close>

lemma float64_quotient_between:
  fixes a b :: nat
  assumes "0 < a" "0 < b"
  shows "2 ^ k * b \<le> a \<Longrightarrow> 2 ^ k \<le> float64_quotient a b"
    and "a \<le> 2 ^ k * b \<Longrightarrow> float64_quotient a b \<le> 2 ^ k"
proof -
  define u where "u = doublings a (2 ^ 52 * b)"
  define d where "d = doublings (2 ^ 53 * b) (a + 1)"
  define s where "s = round_half_even (a * 2 ^ u) (b * 2 ^ d)"
  note normal = quotient_normal [OF assms, folded u_def d_def]
  have q: "float64_quotient a b = of_nat (s * 2 ^ d) / of_nat (2 ^ u)"
    by (simp add: float64_quotient_def Let_def s_def u_def d_def)
  have pos: "0 < b * 2 ^ d" using assms by simp
  have "2 ^ 52 \<le> a * 2 ^ u div (b * 2 ^ d)" using normal(1) pos by (simp add: less_eq_div_iff_mult_less_eq)
  then have s: "2 ^ 52 \<le> s" "s \<le> 2 ^ 53"
    unfolding s_def using round_half_even_ge [of "a * 2 ^ u" "b * 2 ^ d"] round_half_even_le [OF pos normal(2)] by simp_all
  show "2 ^ k \<le> float64_quotient a b" if "2 ^ k * b \<le> a"
  proof -
    have "2 ^ k * b * 2 ^ u < 2 ^ 53 * (b * 2 ^ d)" using that normal(2) by (meson mult_le_mono1 order_le_less_trans)
    then have "b * 2 ^ (k + u) < b * 2 ^ (53 + d)" by (simp add: power_add ac_simps)
    then have "k + u < 53 + d" using assms(2) by (simp add: power_strict_increasing_iff)
    then have "(2 :: nat) ^ (k + u) \<le> 2 ^ (52 + d)" by (intro power_increasing) simp_all
    also have "\<dots> \<le> s * 2 ^ d" using s(1) by (simp add: power_add)
    finally have "of_nat (2 ^ (k + u)) \<le> (of_nat (s * 2 ^ d) :: rat)" by (simp only: of_nat_le_iff)
    then show ?thesis by (simp add: q power_add field_simps)
  qed
  show "float64_quotient a b \<le> 2 ^ k" if "a \<le> 2 ^ k * b"
  proof -
    have "2 ^ 52 * (b * 2 ^ d) \<le> 2 ^ k * b * 2 ^ u" using that normal(1) by (meson mult_le_mono1 order_trans)
    then have "b * 2 ^ (52 + d) \<le> b * 2 ^ (k + u)" by (simp add: power_add ac_simps)
    then have le: "52 + d \<le> k + u" using assms(2) by (simp add: power_increasing_iff)
    have "s * 2 ^ d \<le> 2 ^ (k + u)"
    proof (cases "k + u = 52 + d")
      case True
      have "a * 2 ^ u \<le> 2 ^ k * b * 2 ^ u" using that by simp
      also have "\<dots> = b * 2 ^ (k + u)" by (simp add: power_add ac_simps)
      finally have "a * 2 ^ u = 2 ^ 52 * (b * 2 ^ d)" using normal(1) unfolding True by (simp add: power_add ac_simps)
      then have "s = 2 ^ 52" unfolding s_def using round_half_even_exact [OF pos] by simp
      with True show ?thesis by (simp add: power_add)
    next
      case False
      with le have "(2 :: nat) ^ (53 + d) \<le> 2 ^ (k + u)" by (intro power_increasing) simp_all
      moreover have "s * 2 ^ d \<le> 2 ^ (53 + d)" using s(2) by (simp add: power_add)
      ultimately show ?thesis by linarith
    qed
    then have "(of_nat (s * 2 ^ d) :: rat) \<le> of_nat (2 ^ (k + u))" by (simp only: of_nat_le_iff)
    then show ?thesis by (simp add: q power_add field_simps)
  qed
qed

end
