(* ===== verification/Queue_Monitor.thy ===== *)
theory Queue_Monitor
  imports Shipper_Queue Build_Env Go_Float
begin

text \<open>
  \<^verbatim>\<open>src/monitoring/queuemon.go\<close>: the queue monitor. It reads the queue's metrics on demand, decides
  whether the queue is full and counts the readings that found it full. The comparison of the fill
  level of a queue measured in bytes is done in 64-bit floats and is modelled with their rounding.
  The log reporter, the HTTP server and JSON encoding are libraries.
\<close>

section \<open>Floating point\<close>

text \<open>\<open>a / b > 0.9\<close> for floats with natural values. A quotient in the interval from one half to one is
  rounded to a multiple of \<open>2 ^ (- 53)\<close>, and the constant is \<open>8106479329266893\<close> such units; a quotient
  of at least one exceeds the constant, one below one half does not, before and after rounding.\<close>

definition float64_level_exceeds :: "nat \<Rightarrow> nat \<Rightarrow> bool" where
  "float64_level_exceeds a b \<longleftrightarrow>
     b \<le> a \<or> b \<le> 2 * a \<and> 8106479329266893 < round_half_even (a * 2 ^ 53) b"

section \<open>Limits\<close>

definition getLimits :: "beats_metrics \<Rightarrow> (u64 \<times> u64 \<times> bool) result" where
  "getLimits raw =
     (case (ByteCount raw, ByteLimit raw) of
        (Some count, Some limit) \<Rightarrow>
          if limit = 0 then Inr (count, limit, False)
          else Inr (count, limit,
                    float64_level_exceeds (float64_of_uint64 count) (float64_of_uint64 limit))
      | _ \<Rightarrow>
          (case (EventCount raw, EventLimit raw) of
             (Some count, Some limit) \<Rightarrow> Inr (count, limit, limit \<le> count)
           | _ \<Rightarrow> Inl (NewError ''could not find valid byte or event metrics in queue'')))"

lemma round_half_even_exceeds:
  assumes "0 < d" and "odd c"
  shows "c < round_half_even n d \<longleftrightarrow> (2 * c + 1) * d \<le> 2 * n"
proof -
  define q r where "q = n div d" and "r = n mod d"
  have n: "n = q * d + r" and r: "r < d" using assms(1) by (simp_all add: q_def r_def)
  have rhe: "round_half_even n d = (if d < 2 * r \<or> d = 2 * r \<and> odd q then q + 1 else q)"
    by (simp add: round_half_even_def Let_def q_def r_def)
  consider "q < c" | "q = c" | "c < q" by linarith
  then show ?thesis
  proof cases
    case 1
    then have "(q + 1) * d \<le> c * d" by (intro mult_le_mono1) simp
    with n r have "2 * n < 2 * (c * d)" by simp
    with 1 rhe show ?thesis by auto
  next
    case 2
    with n r rhe assms(2) show ?thesis by auto
  next
    case 3
    then have "(c + 1) * d \<le> q * d" by (intro mult_le_mono1) simp
    with n have "(2 * c + 1) * d \<le> 2 * n" by simp
    with 3 rhe show ?thesis by auto
  qed
qed

lemma excess_bits_normal: "2 ^ 53 \<le> n \<Longrightarrow> 2 ^ 52 \<le> n div 2 ^ excess_bits n \<and> 0 < excess_bits n"
proof (induction n rule: excess_bits.induct)
  case (1 n)
  then have e: "excess_bits n = Suc (excess_bits (n div 2))" by (subst excess_bits.simps) simp
  have d: "n div 2 ^ excess_bits n = n div 2 div 2 ^ excess_bits (n div 2)"
    by (simp add: e div_mult2_eq)
  show ?case
  proof (cases "2 ^ 53 \<le> n div 2")
    case True
    with 1 d e show ?thesis by auto
  next
    case False
    then have "excess_bits (n div 2) = 0" by (simp add: excess_bits.simps)
    with 1(2) d e show ?thesis by auto
  qed
qed

lemma float64_large: "2 ^ 53 \<le> unat w \<Longrightarrow> 2 ^ 53 \<le> float64_of_uint64 w"
proof -
  assume "2 ^ 53 \<le> unat w"
  from excess_bits_normal [OF this] obtain e where e: "excess_bits (unat w) = Suc e"
    and le: "2 ^ 52 \<le> unat w div 2 ^ excess_bits (unat w)" using gr0_implies_Suc by blast
  have "2 ^ 52 \<le> round_half_even (unat w) (2 ^ excess_bits (unat w))"
    using le round_half_even_ge order_trans by blast
  then have "2 ^ 52 * 2 ^ 1 \<le> round_half_even (unat w) (2 ^ excess_bits (unat w)) * 2 ^ excess_bits (unat w)"
    using e by (intro mult_le_mono) simp_all
  then show ?thesis by (simp add: float64_of_uint64_def Let_def)
qed

lemma float64_level_exceeds_exact:
  assumes "0 < b" and "b \<le> 2 ^ 50" and "a < 2 ^ 53"
  shows "float64_level_exceeds a b \<longleftrightarrow> 9 * b < 10 * a"
proof -
  have "8106479329266893 < round_half_even (a * 2 ^ 53) b \<longleftrightarrow>
      (2 * 8106479329266893 + 1) * b \<le> 2 * (a * 2 ^ 53)"
    using assms(1) by (intro round_half_even_exceeds) simp_all
  then show ?thesis using assms by (auto simp: float64_level_exceeds_def)
qed

text \<open>C34: a queue measured in bytes is reported full exactly when more than nine tenths of its limit
  are used, for every count and every limit up to \<open>2 ^ 50\<close> bytes: the floating point division and
  comparison are exact there, and at exactly nine tenths the queue is not full.\<close>

theorem byte_queue_full_above_ninety_percent:
  assumes "ByteCount raw = Some count" "ByteLimit raw = Some limit"
    and "limit \<noteq> 0" "unat limit \<le> 2 ^ 50"
  shows "getLimits raw = Inr (count, limit, 9 * unat limit < 10 * unat count)"
proof -
  have l: "0 < unat limit" "float64_of_uint64 limit = unat limit"
    using assms(3,4) float64_small [of limit] by (simp_all add: unat_gt_0)
  have "float64_level_exceeds (float64_of_uint64 count) (unat limit) \<longleftrightarrow> 9 * unat limit < 10 * unat count"
  proof (cases "unat count < 2 ^ 53")
    case True
    then show ?thesis
      using float64_level_exceeds_exact [of "unat limit" "unat count"] l(1) assms(4) float64_small by simp
  next
    case False
    with float64_large [of count] assms(4) l(1) show ?thesis by (simp add: float64_level_exceeds_def)
  qed
  with assms l show ?thesis by (simp add: getLimits_def)
qed

theorem byte_queue_full_above_ninety_percent_witness:
  "getLimits \<lparr>EventCount = None, ByteCount = Some 91, ByteLimit = Some 100, EventLimit = None,
      UnackedConsumedEvents = None, OldestEntryID = 0\<rparr> = Inr (91, 100, True)"
  using byte_queue_full_above_ninety_percent [of "\<lparr>EventCount = None, ByteCount = Some 91,
      ByteLimit = Some 100, EventLimit = None, UnackedConsumedEvents = None, OldestEntryID = 0\<rparr>" 91 100]
  by simp

section \<open>The monitor\<close>

record queue_data =
  CurrentLevel :: u64
  MaxLevel :: u64
  IsFull :: bool
  LimitReachedCount :: u64
  UnackedRead :: "u64 option"

record ('r, 'h) queue_monitor =
  logReporter :: 'r
  httpHandler :: "('h \<times> string list) option"
  queueLimitCount :: u64

text \<open>The libraries: the log reporter, the HTTP server and the unpacking of the expvar switch.\<close>

record ('x, 'r, 'h) monitor_lib =
  MakeReporter :: "'x option \<Rightarrow> 'r result"
  http_Enabled :: "'x option \<Rightarrow> bool"
  NewWithDefaultRoutes :: "'x option \<Rightarrow> 'h result"
  Unpack_expvar :: "'x option \<Rightarrow> bool result"

text \<open>The HTTP handler is kept with the routes added to it.\<close>

definition NewFromConfig ::
    "('x, 'r, 'h) monitor_lib \<Rightarrow> 'x option \<Rightarrow> 'x option \<Rightarrow> (('r, 'h) queue_monitor) result" where
  "NewFromConfig lib httpCfg logCfg =
     (case MakeReporter lib logCfg of
        Inl err \<Rightarrow> Inl (Wrapped ''error making log reporter: '' err)
      | Inr reporter \<Rightarrow>
          if http_Enabled lib httpCfg
          then (case NewWithDefaultRoutes lib httpCfg of
                  Inl err \<Rightarrow> Inl (Wrapped ''error creating API for registry reporter: '' err)
                | Inr apiSrv \<Rightarrow>
                    (case Unpack_expvar lib httpCfg of
                       Inl err \<Rightarrow> Inl (Wrapped ''error unpacking expvar config: '' err)
                     | Inr expvar \<Rightarrow>
                         Inr \<lparr>logReporter = reporter,
                              httpHandler = Some (apiSrv, ''/shipper'' # (if expvar then [''/debug/vars''] else [])),
                              queueLimitCount = 0\<rparr>))
          else Inr \<lparr>logReporter = reporter, httpHandler = None, queueLimitCount = 0\<rparr>)"

definition getQueueMetrics ::
    "('r, 'h) queue_monitor \<Rightarrow> beats_metrics result \<Rightarrow> ('r, 'h) queue_monitor \<times> queue_data result" where
  "getQueueMetrics mon reading =
     (case reading of
        Inl err \<Rightarrow> (mon, Inl (Wrapped ''error fetching queue Metrics: '' err))
      | Inr raw \<Rightarrow>
          (case getLimits raw of
             Inl err \<Rightarrow> (mon, Inl (Wrapped ''could not get queue metrics limits: '' err))
           | Inr (count, limit, queueIsFull) \<Rightarrow>
               (let mon' = (if queueIsFull then mon\<lparr>queueLimitCount := queueLimitCount mon + 1\<rparr> else mon)
                in (mon', Inr \<lparr>CurrentLevel = count, MaxLevel = limit, IsFull = queueIsFull,
                               LimitReachedCount = queueLimitCount mon',
                               UnackedRead = UnackedConsumedEvents raw\<rparr>))))"

text \<open>What the monitoring callback reports to its visitor, in order; \<open>int64\<close> of a \<open>uint64\<close> keeps the
  bits.\<close>

datatype report = ReportInt string i64 | ReportBool string bool

definition reportQueueMetrics ::
    "('r, 'h) queue_monitor \<Rightarrow> beats_metrics result \<Rightarrow> ('r, 'h) queue_monitor \<times> report list" where
  "reportQueueMetrics mon reading =
     (case getQueueMetrics mon reading of
        (mon', Inl err) \<Rightarrow> (mon', [])
      | (mon', Inr metrics) \<Rightarrow>
          (mon', [ReportInt ''current_level'' (CurrentLevel metrics), ReportInt ''max_level'' (MaxLevel metrics),
                  ReportBool ''is_full'' (IsFull metrics),
                  ReportInt ''limit_reached_count'' (LimitReachedCount metrics)] @
                 (case UnackedRead metrics of None \<Rightarrow> [] | Some n \<Rightarrow> [ReportInt ''unacked_read'' n])))"

text \<open>The diagnostics hook, for the JSON encoders of metrics and of a map of strings; no bytes are
  returned when not even the error can be encoded.\<close>

definition diagCallbackError :: "((string \<times> string) list \<Rightarrow> string result) \<Rightarrow> go_error \<Rightarrow> string" where
  "diagCallbackError marshal_map origErr =
     (case marshal_map [(''error fetching queue metrics'', Error_text origErr)] of
        Inl err \<Rightarrow> [] | Inr jsonErr \<Rightarrow> jsonErr)"

definition DiagnosticsCallback ::
    "(queue_data \<Rightarrow> string result) \<Rightarrow> ((string \<times> string) list \<Rightarrow> string result) \<Rightarrow>
     ('r, 'h) queue_monitor \<Rightarrow> beats_metrics result \<Rightarrow> ('r, 'h) queue_monitor \<times> string" where
  "DiagnosticsCallback marshal marshal_map mon reading =
     (case getQueueMetrics mon reading of
        (mon', Inl err) \<Rightarrow> (mon', diagCallbackError marshal_map err)
      | (mon', Inr metrics) \<Rightarrow>
          (mon', case marshal metrics of Inl err \<Rightarrow> diagCallbackError marshal_map err | Inr json \<Rightarrow> json))"

datatype ('r, 'h) monitor_effect = StopHTTP 'h | StopReporter 'r

definition monitor_End :: "('r, 'h) queue_monitor \<Rightarrow> ('r, 'h) monitor_effect list" where
  "monitor_End mon =
     (case httpHandler mon of None \<Rightarrow> [] | Some (h, _) \<Rightarrow> [StopHTTP h]) @ [StopReporter (logReporter mon)]"

text \<open>\<open>setupRegisterInfo\<close>: the static metrics, as the paths below a namespace with their values, in the order
  they are registered. What \<open>report.SetupMetrics\<close> and \<open>report.SetupInfoUserMetrics\<close> register and the text
  of the build time come from the library; an error of the former is only logged.\<close>

definition setupRegisterInfo ::
    "string \<Rightarrow> string \<Rightarrow> string \<Rightarrow> string \<Rightarrow> string \<Rightarrow> (string list \<times> string) list" where
  "setupRegisterInfo qualifier ephemeral_id GOARCH commit build_time =
     (let name = ''shipper'';
          version = GetDefaultVersion qualifier
      in [([''info'', ''version''], version), ([''info'', ''name''], name), ([''info'', ''ephemeral_id''], ephemeral_id),
          ([''info'', ''binary_arch''], GOARCH), ([''info'', ''build_commit''], commit),
          ([''info'', ''build_time''], build_time),
          ([''state'', ''service'', ''version''], version), ([''state'', ''service'', ''name''], name),
          ([''state'', ''beat'', ''name''], name)])"

text \<open>No metric is registered twice, and both namespaces
  agree on name and version.\<close>

lemma setupRegisterInfo_consistent:
  "distinct (map fst (setupRegisterInfo q eid arch commit bt))"
  "map_of (setupRegisterInfo q eid arch commit bt) [''info'', ''version''] =
     map_of (setupRegisterInfo q eid arch commit bt) [''state'', ''service'', ''version'']"
  "map_of (setupRegisterInfo q eid arch commit bt) [''info'', ''name''] =
     map_of (setupRegisterInfo q eid arch commit bt) [''state'', ''service'', ''name'']"
  by (simp_all add: setupRegisterInfo_def Let_def)

text \<open>The readings a monitor makes, by whichever of its callbacks.\<close>

fun poll_all ::
    "('r, 'h) queue_monitor \<Rightarrow> beats_metrics result list \<Rightarrow> ('r, 'h) queue_monitor \<times> queue_data result list" where
  "poll_all mon [] = (mon, [])"
| "poll_all mon (m # ms) =
     (case getQueueMetrics mon m of
        (mon', d) \<Rightarrow> (case poll_all mon' ms of (mon'', ds) \<Rightarrow> (mon'', d # ds)))"

definition found_full :: "beats_metrics result \<Rightarrow> bool" where
  "found_full m = (case m of Inl _ \<Rightarrow> False
     | Inr raw \<Rightarrow> (case getLimits raw of Inl _ \<Rightarrow> False | Inr (_, _, full) \<Rightarrow> full))"

lemma getQueueMetrics_count:
  "queueLimitCount (fst (getQueueMetrics mon m)) =
     queueLimitCount mon + (if found_full m then 1 else 0)"
  "snd (getQueueMetrics mon m) = Inr d \<Longrightarrow>
     LimitReachedCount d = queueLimitCount (fst (getQueueMetrics mon m)) \<and> IsFull d = found_full m"
  by (auto simp: getQueueMetrics_def found_full_def Let_def split: sum.splits prod.splits if_splits)

text \<open>Over any sequence of readings the monitor's counter grows by the number of readings that
  found the queue full (modulo \<open>2 ^ 64\<close>), failed readings leave it alone, and every reading that
  succeeds reports the counter as it is after it.\<close>

theorem limit_count_counts_full_readings:
  "queueLimitCount (fst (poll_all mon ms)) = queueLimitCount mon + word_of_nat (count_if found_full ms) \<and>
   length (snd (poll_all mon ms)) = length ms \<and>
   (\<forall>i d. i < length ms \<and> snd (poll_all mon ms) ! i = Inr d \<longrightarrow> IsFull d = found_full (ms ! i) \<and>
      LimitReachedCount d = queueLimitCount mon + word_of_nat (count_if found_full (take (Suc i) ms)))"
proof (induction ms arbitrary: mon)
  case (Cons m ms)
  obtain mon' d where g: "getQueueMetrics mon m = (mon', d)" by force
  obtain mon'' ds where p: "poll_all mon' ms = (mon'', ds)" by force
  have c: "queueLimitCount mon' = queueLimitCount mon + (if found_full m then 1 else 0)"
    using getQueueMetrics_count(1) [of mon m] g by simp
  have h: "IsFull d' = found_full m \<and> LimitReachedCount d' = queueLimitCount mon'" if "d = Inr d'" for d'
    using getQueueMetrics_count(2) [of mon m d'] g that by simp
  from Cons.IH [of mon'] p c h show ?case
    by (simp add: g nth_Cons split: nat.split)
qed simp

theorem limit_count_counts_full_readings_witness:
  "queueLimitCount (fst (poll_all \<lparr>logReporter = (), httpHandler = (None :: (unit \<times> string list) option),
      queueLimitCount = 5\<rparr>
     [Inl (NewError ''closed''), Inr \<lparr>EventCount = Some 8, ByteCount = None, ByteLimit = None,
        EventLimit = Some 8, UnackedConsumedEvents = None, OldestEntryID = 0\<rparr>])) = 6"
  using limit_count_counts_full_readings [of "\<lparr>logReporter = (), httpHandler = (None :: (unit \<times> string list) option),
      queueLimitCount = 5\<rparr>"
     "[Inl (NewError ''closed''), Inr \<lparr>EventCount = Some 8, ByteCount = None, ByteLimit = None,
        EventLimit = Some 8, UnackedConsumedEvents = None, OldestEntryID = 0\<rparr>]"]
  by (simp add: found_full_def getLimits_def)

end
