(* ===== verification/ES_Config.thy ===== *)
theory ES_Config
  imports Shipper_Prelude
begin

text \<open>
  \<^verbatim>\<open>src/output/elasticsearch/config.go\<close>: the configuration of the Elasticsearch output, its
  defaults, and its conversion to the configuration of the go-elasticsearch client. Durations and
  Go's \<open>int\<close> are 64-bit words read as two's complement; the doubling in \<open>delayTime\<close> wraps around.
  The number of CPUs is a parameter. The closed form of \<open>delayTime\<close> is its specification.
\<close>

section \<open>Configuration\<close>

record es_backoff =
  Backoff_Init :: duration
  Backoff_Max :: duration

datatype tls_verification = VerifyFull | VerifyNone | VerifyCertificate | VerifyStrict

record es_config =
  es_Enabled :: bool
  es_Hosts :: "string list"
  es_Username :: string
  es_Password :: string
  es_Backoff :: es_backoff
  es_MaxRetries :: i64
  es_RetryOnHTTPStatus :: "int list"
  es_TransportTLS :: "tls_verification option"
  es_NumWorkers :: i64
  es_BatchSize :: i64
  es_FlushTimeout :: duration
  es_DegradedTimeout :: duration

text \<open>The loop of \<open>delayTime\<close>, with the number of iterations left.\<close>

fun delay_loop :: "es_backoff \<Rightarrow> nat \<Rightarrow> duration \<Rightarrow> duration" where
  "delay_loop b 0 result = result"
| "delay_loop b (Suc n) result =
     (if sint (Backoff_Max b) \<le> sint (result * 2) then Backoff_Max b
      else delay_loop b n (result * 2))"

definition delayTime :: "es_backoff \<Rightarrow> i64 \<Rightarrow> duration" where
  "delayTime b attempt = delay_loop b (nat (sint attempt)) (Backoff_Init b)"

definition es_Validate :: "es_config \<Rightarrow> go_error option" where
  "es_Validate c = None"

text \<open>\<open>addDefaults\<close>: one conditional assignment after the other.\<close>

definition default_Init :: "es_config \<Rightarrow> es_config" where
  "default_Init c = (if Backoff_Init (es_Backoff c) = 0 then c\<lparr>es_Backoff := (es_Backoff c)\<lparr>Backoff_Init := seconds 1\<rparr>\<rparr> else c)"

definition default_Max :: "es_config \<Rightarrow> es_config" where
  "default_Max c = (if Backoff_Max (es_Backoff c) = 0 then c\<lparr>es_Backoff := (es_Backoff c)\<lparr>Backoff_Max := seconds 60\<rparr>\<rparr> else c)"

definition default_RetryOnHTTPStatus :: "es_config \<Rightarrow> es_config" where
  "default_RetryOnHTTPStatus c = (if es_RetryOnHTTPStatus c = [] then c\<lparr>es_RetryOnHTTPStatus := [502, 503, 504]\<rparr> else c)"

definition default_MaxRetries :: "es_config \<Rightarrow> es_config" where
  "default_MaxRetries c = (if es_MaxRetries c = 0 then c\<lparr>es_MaxRetries := 3\<rparr> else c)"

definition default_NumWorkers :: "i64 \<Rightarrow> es_config \<Rightarrow> es_config" where
  "default_NumWorkers NumCPU c = (if es_NumWorkers c = 0 then c\<lparr>es_NumWorkers := NumCPU\<rparr> else c)"

definition default_BatchSize :: "es_config \<Rightarrow> es_config" where
  "default_BatchSize c = (if es_BatchSize c = 0 then c\<lparr>es_BatchSize := 5 * push_bit 20 1\<rparr> else c)"

definition default_FlushTimeout :: "es_config \<Rightarrow> es_config" where
  "default_FlushTimeout c = (if es_FlushTimeout c = 0 then c\<lparr>es_FlushTimeout := seconds 30\<rparr> else c)"

definition addDefaults :: "i64 \<Rightarrow> es_config \<Rightarrow> es_config" where
  "addDefaults NumCPU c =
     default_FlushTimeout (default_BatchSize (default_NumWorkers NumCPU (default_MaxRetries
       (default_RetryOnHTTPStatus (default_Max (default_Init c))))))"

text \<open>The fields of \<open>elasticsearch.Config\<close> that the shipper sets.\<close>

record es_client_config =
  ecc_EnableMetrics :: bool
  ecc_Addresses :: "string list"
  ecc_Username :: string
  ecc_Password :: string
  ecc_RetryBackoff :: "i64 \<Rightarrow> duration"
  ecc_MaxRetries :: i64
  ecc_RetryOnStatus :: "int list"
  ecc_InsecureSkipVerify :: bool

definition MaxInt :: i64 where
  "MaxInt = 2 ^ 63 - 1"

definition esConfig :: "i64 \<Rightarrow> es_config \<Rightarrow> es_client_config" where
  "esConfig NumCPU c0 =
     (let c = addDefaults NumCPU c0;
          insecure = (es_TransportTLS c = Some VerifyNone);
          c = (if es_MaxRetries c = -1 then c\<lparr>es_MaxRetries := MaxInt\<rparr> else c)
      in \<lparr>ecc_EnableMetrics = True, ecc_Addresses = es_Hosts c, ecc_Username = es_Username c,
          ecc_Password = es_Password c, ecc_RetryBackoff = delayTime (es_Backoff c),
          ecc_MaxRetries = es_MaxRetries c, ecc_RetryOnStatus = es_RetryOnHTTPStatus c,
          ecc_InsecureSkipVerify = insecure\<rparr>)"

section \<open>The backoff\<close>

lemma delay_loop_closed_form:
  assumes "0 \<le> sint r" and "sint r \<le> sint (Backoff_Max b)" and "sint (Backoff_Max b) < 2 ^ 62"
  shows "sint (delay_loop b n r) = min (sint r * 2 ^ n) (sint (Backoff_Max b))"
  using assms
proof (induction n arbitrary: r)
  case 0
  then show ?case by simp
next
  case (Suc n)
  have dbl: "sint (r * 2) = 2 * sint r"
    using Suc.prems by (intro sint_double_small) auto
  show ?case
  proof (cases "sint (Backoff_Max b) \<le> sint (r * 2)")
    case True
    have "2 * sint r * 1 \<le> 2 * sint r * 2 ^ n"
      using Suc.prems by (intro mult_left_mono) auto
    with True dbl show ?thesis by simp
  next
    case False
    with Suc.prems dbl have "sint (delay_loop b n (r * 2)) = min (2 * sint r * 2 ^ n) (sint (Backoff_Max b))"
      using Suc.IH [of "r * 2"] by simp
    with False show ?thesis by (simp add: mult.assoc mult.left_commute)
  qed
qed

text \<open>C32: \<open>delayTime\<close> is truncated exponential backoff: with a non-negative initial delay that is
  at most the maximum delay, and a maximum below \<open>2^62\<close> nanoseconds, the delay of an attempt is
  the initial delay doubled once per attempt and cut off at the maximum.\<close>

theorem delayTime_truncated_exponential:
  assumes "0 \<le> sint (Backoff_Init b)" and "sint (Backoff_Init b) \<le> sint (Backoff_Max b)"
    and "sint (Backoff_Max b) < 2 ^ 62"
  shows "sint (delayTime b attempt) =
    min (sint (Backoff_Init b) * 2 ^ nat (sint attempt)) (sint (Backoff_Max b))"
  using assms by (simp add: delayTime_def delay_loop_closed_form)

theorem delayTime_truncated_exponential_witness:
  "sint (delayTime \<lparr>Backoff_Init = 100, Backoff_Max = 1000\<rparr> 3) = 800 \<and>
   sint (delayTime \<lparr>Backoff_Init = 100, Backoff_Max = 1000\<rparr> 4) = 1000"
  using delayTime_truncated_exponential [of "\<lparr>Backoff_Init = 100, Backoff_Max = 1000\<rparr>" 3]
    delayTime_truncated_exponential [of "\<lparr>Backoff_Init = 100, Backoff_Max = 1000\<rparr>" 4]
  by simp

section \<open>The client configuration\<close>

lemmas default_defs = default_Init_def default_Max_def default_RetryOnHTTPStatus_def 
  default_MaxRetries_def default_NumWorkers_def default_BatchSize_def default_FlushTimeout_def

lemma default_frames [simp]:
  "es_MaxRetries (default_Init c) = es_MaxRetries c" "es_RetryOnHTTPStatus (default_Init c) = es_RetryOnHTTPStatus c"
  "es_TransportTLS (default_Init c) = es_TransportTLS c" "es_Hosts (default_Init c) = es_Hosts c"
  "es_MaxRetries (default_Max c) = es_MaxRetries c" "es_RetryOnHTTPStatus (default_Max c) = es_RetryOnHTTPStatus c"
  "es_TransportTLS (default_Max c) = es_TransportTLS c" "es_Hosts (default_Max c) = es_Hosts c"
  "es_MaxRetries (default_RetryOnHTTPStatus c) = es_MaxRetries c" "es_TransportTLS (default_RetryOnHTTPStatus c) = es_TransportTLS c"
  "es_Hosts (default_RetryOnHTTPStatus c) = es_Hosts c" "es_Backoff (default_RetryOnHTTPStatus c) = es_Backoff c"
  "es_RetryOnHTTPStatus (default_MaxRetries c) = es_RetryOnHTTPStatus c" "es_TransportTLS (default_MaxRetries c) = es_TransportTLS c"
  "es_Hosts (default_MaxRetries c) = es_Hosts c" "es_Backoff (default_MaxRetries c) = es_Backoff c"
  "es_MaxRetries (default_NumWorkers N c) = es_MaxRetries c" "es_RetryOnHTTPStatus (default_NumWorkers N c) = es_RetryOnHTTPStatus c"
  "es_TransportTLS (default_NumWorkers N c) = es_TransportTLS c" "es_Hosts (default_NumWorkers N c) = es_Hosts c"
  "es_Backoff (default_NumWorkers N c) = es_Backoff c" "es_MaxRetries (default_BatchSize c) = es_MaxRetries c"
  "es_RetryOnHTTPStatus (default_BatchSize c) = es_RetryOnHTTPStatus c" "es_TransportTLS (default_BatchSize c) = es_TransportTLS c"
  "es_Hosts (default_BatchSize c) = es_Hosts c" "es_Backoff (default_BatchSize c) = es_Backoff c"
  "es_MaxRetries (default_FlushTimeout c) = es_MaxRetries c" "es_RetryOnHTTPStatus (default_FlushTimeout c) = es_RetryOnHTTPStatus c"
  "es_TransportTLS (default_FlushTimeout c) = es_TransportTLS c" "es_Hosts (default_FlushTimeout c) = es_Hosts c"
  "es_Backoff (default_FlushTimeout c) = es_Backoff c"
  by (simp_all add: default_defs)

lemma addDefaults_fields:
  "es_MaxRetries (addDefaults N c) = (if es_MaxRetries c = 0 then 3 else es_MaxRetries c)"
  "es_RetryOnHTTPStatus (addDefaults N c) =
     (if es_RetryOnHTTPStatus c = [] then [502, 503, 504] else es_RetryOnHTTPStatus c)"
  "Backoff_Init (es_Backoff (addDefaults N c)) =
     (if Backoff_Init (es_Backoff c) = 0 then seconds 1 else Backoff_Init (es_Backoff c))"
  "Backoff_Max (es_Backoff (addDefaults N c)) =
     (if Backoff_Max (es_Backoff c) = 0 then seconds 60 else Backoff_Max (es_Backoff c))"
  "es_TransportTLS (addDefaults N c) = es_TransportTLS c" "es_Hosts (addDefaults N c) = es_Hosts c"
  by (simp_all add: addDefaults_def) (simp_all add: default_defs)

text \<open>The configuration handed to the Elasticsearch client always retries: the number of
  retries is never zero (0 becomes 3 and -1 the largest integer, any other number is kept), the
  list of status codes to retry on is never empty, certificates are accepted unverified only for
  the verification mode \<open>none\<close>, and with no backoff configured the n-th retry waits \<open>2^n\<close> seconds
  up to one minute.\<close>

theorem esConfig_always_retries:
  "ecc_MaxRetries (esConfig N c) =
     (if es_MaxRetries c = 0 then 3 else if es_MaxRetries c = -1 then MaxInt else es_MaxRetries c) \<and>
   ecc_MaxRetries (esConfig N c) \<noteq> 0 \<and>
   ecc_RetryOnStatus (esConfig N c) \<noteq> [] \<and>
   (ecc_InsecureSkipVerify (esConfig N c) \<longleftrightarrow> es_TransportTLS c = Some VerifyNone) \<and>
   sint (ecc_RetryBackoff (esConfig N (c\<lparr>es_Backoff := \<lparr>Backoff_Init = 0, Backoff_Max = 0\<rparr>\<rparr>)) n) =
     min (1000000000 * 2 ^ nat (sint n)) 60000000000"
proof -
  let ?c = "c\<lparr>es_Backoff := \<lparr>Backoff_Init = 0, Backoff_Max = 0\<rparr>\<rparr>"
  have "es_Backoff (addDefaults N ?c) = \<lparr>Backoff_Init = seconds 1, Backoff_Max = seconds 60\<rparr>"
    using addDefaults_fields(3,4) [of N ?c] by (cases "es_Backoff (addDefaults N ?c)") simp
  then have "ecc_RetryBackoff (esConfig N ?c) =
      delayTime \<lparr>Backoff_Init = seconds 1, Backoff_Max = seconds 60\<rparr>"
    by (simp add: esConfig_def Let_def)
  then have "sint (ecc_RetryBackoff (esConfig N ?c) n) = min (1000000000 * 2 ^ nat (sint n)) 60000000000"
    using delay_loop_closed_form
      [of "seconds 1" "\<lparr>Backoff_Init = seconds 1, Backoff_Max = seconds 60\<rparr>" "nat (sint n)"]
    by (simp add: delayTime_def)
  moreover have "ecc_MaxRetries (esConfig N c) =
     (if es_MaxRetries c = 0 then 3 else if es_MaxRetries c = -1 then MaxInt else es_MaxRetries c)"
    by (simp add: esConfig_def Let_def addDefaults_fields)
  ultimately show ?thesis
    by (simp add: esConfig_def Let_def addDefaults_fields MaxInt_def)
qed

end
