(* ===== verification/Kafka_Partition.thy ===== *)
theory Kafka_Partition
  imports Shipper_Prelude "HOL-Library.Signed_Division"
begin

text \<open>
  \<^verbatim>\<open>src/output/kafka/partition.go\<close>: the choice of a Kafka partition for a message. A partitioner is
  a closure with state (how many events of the current group were sent, and the group's
  partition); each call gets the next value of its random generator as an input \<open>r\<close>, since any
  value may come. Partition numbers are 32-bit words read as two's complement. Calls that Go
  refuses at run time (\<open>Intn\<close> of a number that is not positive, a remainder by zero) panic. The
  FNV-1a hash is the one of Go's \<open>hash/fnv\<close>. Looking a field up in an event (\<open>mapstr.M\<close>) and
  formatting a float are parameters.

  The contract of a partitioner is the locale \<open>partitioner\<close>; the message partitioner is proved
  correct from it, and every strategy interprets it.
\<close>

section \<open>Messages\<close>

record ('d, 'ts) message =
  km_topic :: string
  km_key :: "string option"
  km_value :: string
  km_ts :: "'ts option"
  km_hash :: u32
  km_partition :: i32
  km_data :: 'd

section \<open>Hashing\<close>

definition fnv_offset32 :: u32 where
  "fnv_offset32 = 2166136261"

definition fnv_prime32 :: u32 where
  "fnv_prime32 = 16777619"

text \<open>\<open>Write\<close> of the 32-bit FNV-1a hash: the state is the hash so far.\<close>

definition fnv_Write :: "u32 \<Rightarrow> string \<Rightarrow> u32" where
  "fnv_Write = foldl (\<lambda>h c. (h XOR of_char c) * fnv_prime32)"

text \<open>The dynamic types a field value can have, as \<open>hashFieldValue\<close> distinguishes them: a value
  with a \<open>Hash32\<close> method, a string, bytes, a value with a \<open>String\<close> method, a fixed-size integer of
  so many bytes, a native \<open>int\<close> or \<open>uint\<close>, a float, or anything else (with its fixed-size binary
  form if it has one).\<close>

datatype 'f field_value =
    VHashable "u32 \<Rightarrow> u32 result"
  | VString string
  | VBytes string
  | VStringer string
  | VFixedInt nat int
  | VNativeInt int
  | VFloat32 'f
  | VFloat64 'f
  | VOther "string option"

text \<open>\<open>binary.Write\<close> in little-endian order of an integer of \<open>n\<close> bytes; it refuses types without
  a fixed size, \<open>int\<close> and \<open>uint\<close> among them.\<close>

fun little_endian :: "nat \<Rightarrow> int \<Rightarrow> string" where
  "little_endian 0 v = []"
| "little_endian (Suc n) v = char_of (nat (v mod 256)) # little_endian n (v div 256)"

definition hashFieldValue ::
    "('d \<Rightarrow> string \<Rightarrow> ('f field_value) result) \<Rightarrow> ('f \<Rightarrow> string) \<Rightarrow> u32 \<Rightarrow> 'd \<Rightarrow> string \<Rightarrow> u32 result" where
  "hashFieldValue GetValue FormatFloat h event field =
     (case GetValue event field of
        Inl err \<Rightarrow> Inl err
      | Inr v \<Rightarrow>
          (case v of
             VHashable hash32 \<Rightarrow> hash32 h
           | VString s \<Rightarrow> Inr (fnv_Write h s)
           | VBytes s \<Rightarrow> Inr (fnv_Write h s)
           | VStringer s \<Rightarrow> Inr (fnv_Write h s)
           | VFixedInt n i \<Rightarrow> Inr (fnv_Write h (little_endian n i))
           | VNativeInt i \<Rightarrow> Inl (NewError ''binary.Write: some values are not fixed-sized'')
           | VFloat32 f \<Rightarrow> Inr (fnv_Write h (FormatFloat f))
           | VFloat64 f \<Rightarrow> Inr (fnv_Write h (FormatFloat f))
           | VOther (Some bytes) \<Rightarrow> Inr (fnv_Write h bytes)
           | VOther None \<Rightarrow> Inl (NewError (''can not hash key '' @ quoted field @ '' of unknown type''))))"

text \<open>The loop over the fields: it stops at the first error.\<close>

fun hash_fields ::
    "('d \<Rightarrow> string \<Rightarrow> ('f field_value) result) \<Rightarrow> ('f \<Rightarrow> string) \<Rightarrow> u32 \<Rightarrow> 'd \<Rightarrow> string list \<Rightarrow> u32 result" where
  "hash_fields GetValue FormatFloat h event [] = Inr h"
| "hash_fields GetValue FormatFloat h event (f # fs) =
     (case hashFieldValue GetValue FormatFloat h event f of
        Inl err \<Rightarrow> Inl err
      | Inr h' \<Rightarrow> hash_fields GetValue FormatFloat h' event fs)"

definition hash2Partition :: "u32 \<Rightarrow> i32 \<Rightarrow> i32 outcome" where
  "hash2Partition hash numPartitions =
     (let p = hash AND 0x7FFFFFFF in
      if numPartitions = 0 then Panic ''integer divide by zero''
      else Return (word_of_int (sint p smod sint numPartitions)))"

text \<open>\<open>generator.Intn(int(n))\<close>, for the random number \<open>r\<close>.\<close>

definition Intn :: "nat \<Rightarrow> i32 \<Rightarrow> i32 outcome" where
  "Intn r n = (if sint n \<le> 0 then Panic ''invalid argument to Intn''
               else Return (word_of_nat (r mod nat (sint n))))"

section \<open>The partitioners\<close>

text \<open>The state of a partitioner closure; a call returns the new state, the message (whose cached
  hash a call may set), and the partition or an error.\<close>

type_synonym group_state = "nat \<times> i32"
type_synonym ('d, 'ts) partitioner_result =
  "(group_state \<times> ('d, 'ts) message \<times> i32 result) outcome"

text \<open>A call whose partition comes from a computation that may panic.\<close>

fun with_partition ::
    "group_state \<Rightarrow> ('d, 'ts) message \<Rightarrow> i32 outcome \<Rightarrow> ('d, 'ts) partitioner_result" where
  "with_partition st m (Panic e) = Panic e"
| "with_partition st m (Return p) = Return (st, m, Inr p)"

definition random_partitioner ::
    "nat \<Rightarrow> group_state \<Rightarrow> nat \<Rightarrow> ('d, 'ts) message \<Rightarrow> i32 \<Rightarrow> ('d, 'ts) partitioner_result" where
  "random_partitioner N st r m numPartitions =
     (case st of (count, part) \<Rightarrow>
        if N = count
        then (case Intn r numPartitions of
                Panic e \<Rightarrow> Panic e
              | Return p \<Rightarrow> Return ((1, p), m, Inr p))
        else Return ((count + 1, part), m, Inr part))"

definition round_robin_partitioner ::
    "nat \<Rightarrow> group_state \<Rightarrow> nat \<Rightarrow> ('d, 'ts) message \<Rightarrow> i32 \<Rightarrow> ('d, 'ts) partitioner_result" where
  "round_robin_partitioner N st r m numPartitions =
     (case st of (count, part) \<Rightarrow>
        if N = count
        then (let p = (if sint numPartitions \<le> sint (part + 1) then 0 else part + 1)
              in Return ((1, p), m, Inr p))
        else Return ((count + 1, part), m, Inr part))"

definition hash_partitioner ::
    "group_state \<Rightarrow> nat \<Rightarrow> ('d, 'ts) message \<Rightarrow> i32 \<Rightarrow> ('d, 'ts) partitioner_result" where
  "hash_partitioner st r m numPartitions =
     (case km_key m of
        None \<Rightarrow> with_partition st m (Intn r numPartitions)
      | Some key \<Rightarrow>
          (let m = (if km_hash m = 0 then m\<lparr>km_hash := fnv_Write fnv_offset32 key\<rparr> else m)
           in with_partition st m (hash2Partition (km_hash m) numPartitions)))"

definition fields_hash_partitioner ::
    "('d \<Rightarrow> string \<Rightarrow> ('f field_value) result) \<Rightarrow> ('f \<Rightarrow> string) \<Rightarrow> string list \<Rightarrow> bool \<Rightarrow>
     group_state \<Rightarrow> nat \<Rightarrow> ('d, 'ts) message \<Rightarrow> i32 \<Rightarrow> ('d, 'ts) partitioner_result" where
  "fields_hash_partitioner GetValue FormatFloat flds dropFail st r m numPartitions =
     (if km_hash m = 0
      then (case hash_fields GetValue FormatFloat fnv_offset32 (km_data m) flds of
              Inl err \<Rightarrow>
                if dropFail then Return (st, m, Inl err)
                else with_partition st (m\<lparr>km_hash := word_of_nat r\<rparr>)
                       (hash2Partition (word_of_nat r) numPartitions)
            | Inr h \<Rightarrow>
                with_partition st (m\<lparr>km_hash := h\<rparr>) (hash2Partition h numPartitions))
      else with_partition st m (hash2Partition (km_hash m) numPartitions))"

section \<open>Choosing the strategy\<close>

text \<open>The strategies the constructors build, and the configuration that selects them; unpacking a
  strategy's configuration is the configuration library's work.\<close>

datatype strategy = RandomStrategy nat | RoundRobinStrategy nat | HashStrategy
  | FieldsHashStrategy "string list" bool

record 'c partition_unpackers =
  unpack_group :: "'c \<Rightarrow> nat \<Rightarrow> nat result"
  unpack_hash :: "'c \<Rightarrow> string list \<times> bool \<Rightarrow> (string list \<times> bool) result"
  unpack_reachable :: "'c \<Rightarrow> bool \<Rightarrow> bool result"

definition cfgRandomPartitioner :: "'c partition_unpackers \<Rightarrow> 'c \<Rightarrow> strategy result" where
  "cfgRandomPartitioner u c =
     (case unpack_group u c 1 of Inl e \<Rightarrow> Inl e | Inr n \<Rightarrow> Inr (RandomStrategy n))"

definition cfgRoundRobinPartitioner :: "'c partition_unpackers \<Rightarrow> 'c \<Rightarrow> strategy result" where
  "cfgRoundRobinPartitioner u c =
     (case unpack_group u c 1 of Inl e \<Rightarrow> Inl e | Inr n \<Rightarrow> Inr (RoundRobinStrategy n))"

definition cfgHashPartitioner :: "'c partition_unpackers \<Rightarrow> 'c \<Rightarrow> strategy result" where
  "cfgHashPartitioner u c =
     (case unpack_hash u c ([], True) of
        Inl e \<Rightarrow> Inl e
      | Inr (flds, random) \<Rightarrow>
          Inr (if flds = [] then HashStrategy else FieldsHashStrategy flds (\<not> random)))"

definition initPartitionStrategy ::
    "'c partition_unpackers \<Rightarrow> (string \<times> 'c) list \<Rightarrow> (strategy \<times> bool) result" where
  "initPartitionStrategy u cfg =
     (case cfg of
        [] \<Rightarrow> Inr (HashStrategy, False)
      | (name, config) # [] \<Rightarrow>
          (let mk = (if name = ''random'' then Some cfgRandomPartitioner
                     else if name = ''round_robin'' then Some cfgRoundRobinPartitioner
                     else if name = ''hash'' then Some cfgHashPartitioner
                     else None)
           in case mk of
                None \<Rightarrow> Inl (NewError (''unknown kafka partition mode '' @ name))
              | Some f \<Rightarrow>
                  (case f u config of
                     Inl e \<Rightarrow> Inl e
                   | Inr constr \<Rightarrow>
                       (case unpack_reachable u config False of
                          Inl e \<Rightarrow> Inl e
                        | Inr reachable \<Rightarrow> Inr (constr, reachable))))
      | _ # _ # _ \<Rightarrow> Inl (NewError ''too many partitioners''))"

text \<open>The call of the closure a strategy stands for, and its initial state: the group counter
  starts full, and the round-robin partition starts at a random number \<open>r\<close> of 31 bits.\<close>

definition call_partitioner ::
    "('d \<Rightarrow> string \<Rightarrow> ('f field_value) result) \<Rightarrow> ('f \<Rightarrow> string) \<Rightarrow> strategy \<Rightarrow>
     group_state \<Rightarrow> nat \<Rightarrow> ('d, 'ts) message \<Rightarrow> i32 \<Rightarrow> ('d, 'ts) partitioner_result" where
  "call_partitioner GetValue FormatFloat str =
     (case str of
        RandomStrategy N \<Rightarrow> random_partitioner N
      | RoundRobinStrategy N \<Rightarrow> round_robin_partitioner N
      | HashStrategy \<Rightarrow> hash_partitioner
      | FieldsHashStrategy flds dropFail \<Rightarrow>
          fields_hash_partitioner GetValue FormatFloat flds dropFail)"

fun init_partitioner :: "nat \<Rightarrow> strategy \<Rightarrow> group_state" where
  "init_partitioner r (RandomStrategy N) = (N, 0)"
| "init_partitioner r (RoundRobinStrategy N) = (N, word_of_nat (r mod 2 ^ 31))"
| "init_partitioner r _ = (0, 0)"

section \<open>The message partitioner\<close>

record message_partitioner =
  mp_state :: group_state
  mp_reachable :: bool
  mp_partitions :: i32

definition makePartitioner ::
    "'c partition_unpackers \<Rightarrow> (string \<times> 'c) list \<Rightarrow> nat \<Rightarrow> (strategy \<times> message_partitioner) result" where
  "makePartitioner u cfg r =
     (case initPartitionStrategy u cfg of
        Inl e \<Rightarrow> Inl e
      | Inr (str, reachable) \<Rightarrow>
          Inr (str, \<lparr>mp_state = init_partitioner r str, mp_reachable = reachable, mp_partitions = 0\<rparr>))"

definition RequiresConsistency :: "message_partitioner \<Rightarrow> bool" where
  "RequiresConsistency p \<longleftrightarrow> \<not> mp_reachable p"

definition Partition ::
    "(group_state \<Rightarrow> nat \<Rightarrow> ('d, 'ts) message \<Rightarrow> i32 \<Rightarrow> ('d, 'ts) partitioner_result) \<Rightarrow>
     message_partitioner \<Rightarrow> nat \<Rightarrow> ('d, 'ts) message \<Rightarrow> i32 \<Rightarrow>
     (message_partitioner \<times> ('d, 'ts) message \<times> i32) outcome" where
  "Partition call p r msg numPartitions =
     (if numPartitions = mp_partitions p \<and>
         0 \<le> sint (km_partition msg) \<and> sint (km_partition msg) < sint numPartitions
      then Return (p, msg, km_partition msg)
      else (case call (mp_state p) r msg numPartitions of
              Panic e \<Rightarrow> Panic e
            | Return (st, msg', Inl err) \<Rightarrow> Return (p\<lparr>mp_state := st\<rparr>, msg', 0)
            | Return (st, msg', Inr part) \<Rightarrow>
                Return (p\<lparr>mp_state := st, mp_partitions := numPartitions\<rparr>,
                        msg'\<lparr>km_partition := part\<rparr>, part)))"

section \<open>What a partitioner promises\<close>

definition in_range :: "i32 \<Rightarrow> i32 \<Rightarrow> bool" where
  "in_range n p \<longleftrightarrow> 0 \<le> sint p \<and> sint p < sint n"

text \<open>The message partitioner called for a sequence of messages of a topic with a fixed number of
  partitions, with the random numbers drawn.\<close>

fun Partition_run ::
    "(group_state \<Rightarrow> nat \<Rightarrow> ('d, 'ts) message \<Rightarrow> i32 \<Rightarrow> ('d, 'ts) partitioner_result) \<Rightarrow>
     message_partitioner \<Rightarrow> i32 \<Rightarrow> (nat \<times> ('d, 'ts) message) list \<Rightarrow> (i32 list) outcome" where
  "Partition_run call p n [] = Return []"
| "Partition_run call p n ((r, m) # rest) =
     (case Partition call p r m n of
        Panic e \<Rightarrow> Panic e
      | Return (p', m', part) \<Rightarrow>
          (case Partition_run call p' n rest of
             Panic e \<Rightarrow> Panic e
           | Return parts \<Rightarrow> Return (part # parts)))"

locale partitioner =
  fixes call :: "group_state \<Rightarrow> nat \<Rightarrow> ('d, 'ts) message \<Rightarrow> i32 \<Rightarrow> ('d, 'ts) partitioner_result"
    and valid :: "group_state \<Rightarrow> i32 \<Rightarrow> bool"
  assumes call_returns:
    "valid st n \<Longrightarrow> 0 < sint n \<Longrightarrow>
     \<exists>st' m' res. call st r m n = Return (st', m', res) \<and> valid st' n \<and>
                  (\<forall>p. res = Inr p \<longrightarrow> in_range n p)"
begin

lemma Partition_step:
  assumes "valid (mp_state p) n" "0 < sint n"
  shows "\<exists>p' m' part. Partition call p r m n = Return (p', m', part) \<and>
           valid (mp_state p') n \<and> in_range n part"
proof (cases "n = mp_partitions p \<and> in_range n (km_partition m)")
  case True
  then show ?thesis using assms by (auto simp: Partition_def in_range_def)
next
  case False
  obtain st' m' res where c: "call (mp_state p) r m n = Return (st', m', res)" "valid st' n"
      "\<forall>q. res = Inr q \<longrightarrow> in_range n q"
    using call_returns [OF assms] by blast
  show ?thesis
  proof (cases res)
    case (Inl e)
    with False c assms(2) show ?thesis by (auto simp: Partition_def in_range_def)
  next
    case (Inr q)
    with False c show ?thesis by (auto simp: Partition_def in_range_def)
  qed
qed

lemma run_in_range:
  "valid (mp_state p) n \<Longrightarrow> 0 < sint n \<Longrightarrow>
   \<exists>parts. Partition_run call p n calls = Return parts \<and> length parts = length calls \<and>
           list_all (in_range n) parts"
proof (induction calls arbitrary: p)
  case (Cons c calls)
  obtain r m where rm: "c = (r, m)" by force
  obtain p' m' part where s: "Partition call p r m n = Return (p', m', part)"
      "valid (mp_state p') n" "in_range n part"
    using Partition_step [OF Cons.prems, of r m] by blast
  from Cons.IH [OF s(2) Cons.prems(2)] show ?case using s rm by auto
qed simp

text \<open>A message that got a partition from the strategy keeps it when it is partitioned again while
  the topic has the same number of partitions.\<close>

lemma Partition_again:
  assumes "valid (mp_state p) n" "0 < sint n"
    and "Partition call p r m n = Return (p', m', part)"
    and "km_partition m' = part" "mp_partitions p' = n"
  shows "Partition call p' r' m' n = Return (p', m', part)"
  using Partition_step [OF assms(1,2), of r m] assms(3-5)
  by (auto simp: Partition_def [of call p'] in_range_def)

end

section \<open>The strategies keep the promise\<close>

lemma sint_i32_upper: "sint (w :: i32) \<le> 2147483647"
  using sint_lt [of w] by simp

lemma sint_word_of_int_i32:
  "- 2147483648 \<le> i \<Longrightarrow> i \<le> 2147483647 \<Longrightarrow> sint (word_of_int i :: i32) = i"
  by (rule sint_of_int_bounded) simp_all

lemma Intn_in_range: "0 < sint n \<Longrightarrow> \<exists>p. Intn r n = Return p \<and> in_range n p"
proof -
  assume n: "0 < sint n"
  define k where "k = int (r mod nat (sint n))"
  have k: "0 \<le> k" "k < sint n" using n by (simp_all add: k_def zmod_int)
  have "word_of_nat (r mod nat (sint n)) = (word_of_int k :: i32)" by (simp add: k_def)
  then show ?thesis
    using k n sint_i32_upper [of n] sint_word_of_int_i32 [of k] by (simp add: Intn_def in_range_def)
qed

lemma masked_nonneg: "0 \<le> sint ((h :: u32) AND 0x7FFFFFFF)"
proof -
  have "\<not> bit (h AND 0x7FFFFFFF) 31" by (simp add: bit_simps)
  then show ?thesis by (simp add: sint_by_top_bit)
qed

lemma hash2Partition_in_range:
  assumes "0 < sint n" shows "\<exists>p. hash2Partition h n = Return p \<and> in_range n p"
proof -
  define k where "k = sint (h AND 0x7FFFFFFF) smod sint n"
  have k: "k = sint (h AND 0x7FFFFFFF) mod sint n"
    using masked_nonneg [of h] assms
    by (cases "sint (h AND 0x7FFFFFFF) = 0") (simp_all add: k_def signed_modulo_int_def)
  then have "0 \<le> k" "k < sint n" using assms by simp_all
  moreover from assms have "n \<noteq> 0" by auto
  ultimately show ?thesis
    using sint_i32_upper [of n] sint_word_of_int_i32 [of k]
    by (simp add: hash2Partition_def in_range_def flip: k_def)
qed

text \<open>The states in which a strategy serves a topic of \<open>n\<close> partitions: inside a group the group's
  partition is one of the topic; between groups the round-robin successor must not overflow.\<close>

fun strategy_valid :: "strategy \<Rightarrow> group_state \<Rightarrow> i32 \<Rightarrow> bool" where
  "strategy_valid (RandomStrategy N) (count, part) n \<longleftrightarrow> count = N \<or> in_range n part"
| "strategy_valid (RoundRobinStrategy N) (count, part) n \<longleftrightarrow>
     (if count = N then 0 \<le> sint part \<and> sint part < 2147483647 else in_range n part)"
| "strategy_valid _ st n \<longleftrightarrow> True"

lemma random_returns:
  assumes "strategy_valid (RandomStrategy N) st n" "0 < sint n"
  shows "\<exists>st' m' res. random_partitioner N st r m n = Return (st', m', res) \<and>
           strategy_valid (RandomStrategy N) st' n \<and> (\<forall>p. res = Inr p \<longrightarrow> in_range n p)"
  using assms Intn_in_range [OF assms(2), of r]
  by (cases st) (auto simp: random_partitioner_def)

lemma round_robin_next:
  assumes "0 \<le> sint part" "sint part < 2147483647" "0 < sint (n :: i32)"
  shows "in_range n (if sint n \<le> sint (part + 1) then 0 else part + 1)"
proof -
  have "part + 1 = (word_of_int (sint part + 1) :: i32)" by simp
  then have "sint (part + 1) = sint part + 1"
    using assms sint_word_of_int_i32 [of "sint part + 1"] by simp
  then show ?thesis using assms by (simp add: in_range_def)
qed

lemma in_range_bound: "in_range n p \<Longrightarrow> 0 \<le> sint p \<and> sint p < 2147483647"
  using sint_i32_upper [of n] by (simp add: in_range_def)

lemma round_robin_returns:
  assumes "strategy_valid (RoundRobinStrategy N) st n" "0 < sint n"
  shows "\<exists>st' m' res. round_robin_partitioner N st r m n = Return (st', m', res) \<and>
           strategy_valid (RoundRobinStrategy N) st' n \<and> (\<forall>p. res = Inr p \<longrightarrow> in_range n p)"
proof -
  obtain count part where st: "st = (count, part)" by (cases st)
  show ?thesis
  proof (cases "N = count")
    case True
    define q where "q = (if sint n \<le> sint (part + 1) then 0 else part + 1)"
    have q: "in_range n q"
      using round_robin_next [of part n] assms st True by (simp add: q_def)
    have "round_robin_partitioner N st r m n = Return ((1, q), m, Inr q)"
      using st True by (simp add: round_robin_partitioner_def q_def Let_def)
    with q in_range_bound [OF q] show ?thesis by auto
  next
    case False
    with assms st have q: "in_range n part" by auto
    have "round_robin_partitioner N st r m n = Return ((count + 1, part), m, Inr part)"
      using st False by (simp add: round_robin_partitioner_def)
    with q in_range_bound [OF q] show ?thesis by auto
  qed
qed

lemma hash_returns:
  assumes "0 < sint n"
  shows "\<exists>st' m' res. hash_partitioner st r m n = Return (st', m', res) \<and>
           (\<forall>p. res = Inr p \<longrightarrow> in_range n p)"
proof (cases "km_key m")
  case None
  with Intn_in_range [OF assms, of r] show ?thesis by (auto simp: hash_partitioner_def)
next
  case (Some key)
  obtain m' where m': "hash_partitioner st r m n =
      with_partition st m' (hash2Partition (km_hash m') n)"
    using Some by (simp add: hash_partitioner_def Let_def)
  with hash2Partition_in_range [OF assms, of "km_hash m'"] show ?thesis by auto
qed

lemma fields_hash_returns:
  assumes "0 < sint n"
  shows "\<exists>st' m' res. fields_hash_partitioner GetValue FormatFloat flds dropFail st r m n =
           Return (st', m', res) \<and> (\<forall>p. res = Inr p \<longrightarrow> in_range n p)"
proof -
  consider e where "fields_hash_partitioner GetValue FormatFloat flds dropFail st r m n =
      Return (st, m, Inl e)"
    | m' h where "fields_hash_partitioner GetValue FormatFloat flds dropFail st r m n =
        with_partition st m' (hash2Partition h n)"
    unfolding fields_hash_partitioner_def
    by (cases "hash_fields GetValue FormatFloat fnv_offset32 (km_data m) flds";
        cases "km_hash m = 0"; cases dropFail) auto
  then show ?thesis
  proof cases
    case 2
    with hash2Partition_in_range [OF assms, of h] show ?thesis by auto
  qed auto
qed

lemmas strategy_returns = random_returns round_robin_returns hash_returns fields_hash_returns

interpretation strategies: partitioner "call_partitioner GetValue FormatFloat str"
    "strategy_valid str" for GetValue FormatFloat str
proof
  fix st n r m
  assume "strategy_valid str st n" "0 < sint n"
  then show "\<exists>st' m' res. call_partitioner GetValue FormatFloat str st r m n = Return (st', m', res) \<and>
      strategy_valid str st' n \<and> (\<forall>p. res = Inr p \<longrightarrow> in_range n p)"
    unfolding call_partitioner_def
    by (cases str; simp only: strategy.simps strategy_valid.simps simp_thms) (rule strategy_returns; assumption)+
qed

lemma init_partitioner_valid:
  assumes "r mod 2 ^ 31 \<noteq> 2 ^ 31 - 1"
  shows "strategy_valid str (init_partitioner r str) n"
proof (cases str)
  case (RoundRobinStrategy N)
  define k where "k = r mod 2 ^ 31"
  have "k < 2 ^ 31" by (simp add: k_def)
  with assms have k: "int k < 2147483647" by (simp add: k_def)
  then have "sint (word_of_nat k :: i32) = int k" using sint_word_of_int_i32 [of "int k"] by simp
  with k RoundRobinStrategy show ?thesis by (simp add: k_def)
qed simp_all

lemma makePartitioner_state:
  "makePartitioner u cfg r = Inr (str, p) \<Longrightarrow>
   mp_state p = init_partitioner r str \<and> mp_partitions p = 0"
  by (auto simp: makePartitioner_def split: sum.splits)

text \<open>C30: whatever partitioning the configuration selects, and for any messages and random numbers,
  the partitions assigned to messages of a topic with \<open>n > 0\<close> partitions are all partitions of the
  topic (\<open>0\<close> up to \<open>n - 1\<close> as signed 32-bit numbers), and no call panics; the one exception of the
  round-robin start value is excluded by hypothesis.\<close>

theorem partitions_in_range:
  assumes "makePartitioner u cfg r = Inr (str, p)"
    and "r mod 2 ^ 31 \<noteq> 2 ^ 31 - 1" and "0 < sint n"
  shows "\<exists>parts. Partition_run (call_partitioner GetValue FormatFloat str) p n calls = Return parts \<and>
           length parts = length calls \<and> list_all (in_range n) parts"
  using strategies.run_in_range [of str p n] init_partitioner_valid [OF assms(2), of str n]
    makePartitioner_state [OF assms(1)] assms(3) by simp

definition example_unpackers :: "nat partition_unpackers" where
  "example_unpackers = \<lparr>unpack_group = \<lambda>c d. Inr c, unpack_hash = \<lambda>c d. Inr d,
     unpack_reachable = \<lambda>c d. Inr d\<rparr>"

definition example_message :: "(string, unit) message" where
  "example_message = \<lparr>km_topic = ''logs'', km_key = None, km_value = ''v'', km_ts = None, km_hash = 0,
     km_partition = - 1, km_data = ''field''\<rparr>"

theorem partitions_in_range_witness:
  "\<exists>parts. Partition_run (call_partitioner (\<lambda>d f. Inr (VString f)) (\<lambda>x::unit. []) (RoundRobinStrategy 2))
      \<lparr>mp_state = (2, 7), mp_reachable = False, mp_partitions = 0\<rparr> (3 :: i32)
      [(5, example_message), (9, example_message)] = Return parts \<and>
      length parts = length [(5 :: nat, example_message), (9, example_message)] \<and> list_all (in_range 3) parts"
  by (rule partitions_in_range [of example_unpackers "[(''round_robin'', 2)]" 7])
    (simp_all add: makePartitioner_def initPartitionStrategy_def cfgRoundRobinPartitioner_def
      example_unpackers_def)

text \<open>An event that is partitioned again, as on a retry, while its topic has the same number of
  partitions stays on the partition the strategy gave it, whatever random number comes then.\<close>

theorem retried_event_keeps_partition:
  assumes "0 < sint n" "strategy_valid str (mp_state p) n"
    and "call_partitioner GetValue FormatFloat str (mp_state p) r m n = Return (st, m1, Inr part)"
    and "\<not> (n = mp_partitions p \<and> in_range n (km_partition m))"
  shows "\<exists>p' m'. Partition (call_partitioner GetValue FormatFloat str) p r m n = Return (p', m', part) \<and>
           (\<forall>r'. Partition (call_partitioner GetValue FormatFloat str) p' r' m' n =
                    Return (p', m', part))"
proof -
  let ?call = "call_partitioner GetValue FormatFloat str"
  let ?p = "p\<lparr>mp_state := st, mp_partitions := n\<rparr>" and ?m = "m1\<lparr>km_partition := part\<rparr>"
  have P: "Partition ?call p r m n = Return (?p, ?m, part)"
    using assms(3,4) by (auto simp: Partition_def in_range_def)
  then have "Partition ?call ?p r' ?m n = Return (?p, ?m, part)" for r'
    by (rule strategies.Partition_again [OF assms(2,1)]) simp_all
  with P show ?thesis by blast
qed

theorem retried_event_keeps_partition_witness:
  "\<exists>p' m'. Partition (call_partitioner (\<lambda>d f. Inr (VString d)) (\<lambda>x::unit. []) (RandomStrategy 1))
       \<lparr>mp_state = (1, 0), mp_reachable = False, mp_partitions = 0\<rparr> 5 example_message 4 =
         Return (p', m', 1) \<and>
     (\<forall>r'. Partition (call_partitioner (\<lambda>d f. Inr (VString d)) (\<lambda>x::unit. []) (RandomStrategy 1))
        p' r' m' 4 = Return (p', m', 1))"
  by (rule retried_event_keeps_partition [where st = "(1, 1)" and ?m1.0 = example_message])
    (simp_all add: call_partitioner_def random_partitioner_def Intn_def example_message_def)

text \<open>The round-robin start value is not reduced to the topic's partitions before it is
  incremented, so when the generator draws the largest 31-bit number the increment overflows and
  the first group of messages gets the partition \<open>- 2147483648\<close>, which no topic has.\<close>

theorem round_robin_start_overflows:
  assumes "0 < sint n"
  shows "\<exists>p' m'. Partition (call_partitioner GetValue FormatFloat (RoundRobinStrategy N))
      \<lparr>mp_state = init_partitioner (2 ^ 31 - 1) (RoundRobinStrategy N), mp_reachable = False,
       mp_partitions = 0\<rparr> r m n = Return (p', m', - (2 ^ 31)) \<and>
      \<not> in_range n (- (2 ^ 31)) \<and> \<not> in_range n (km_partition m')"
proof -
  from assms have "n \<noteq> 0" by auto
  with assms show ?thesis
    by (simp add: Partition_def call_partitioner_def round_robin_partitioner_def in_range_def)
qed

theorem round_robin_start_overflows_witness:
  "\<exists>p' m'. Partition (call_partitioner (\<lambda>d f. Inr (VString d)) (\<lambda>x::unit. []) (RoundRobinStrategy 1))
      \<lparr>mp_state = init_partitioner (2 ^ 31 - 1) (RoundRobinStrategy 1), mp_reachable = False,
       mp_partitions = 0\<rparr> 0 example_message 3 = Return (p', m', - (2 ^ 31)) \<and>
      \<not> in_range 3 (- (2 ^ 31)) \<and> \<not> in_range 3 (km_partition m')"
  by (rule round_robin_start_overflows) simp

end
