(* ===== verification/Kafka_Config.thy ===== *)
theory Kafka_Config
  imports Kafka_Partition Go_Float
begin

text \<open>
  \<^verbatim>\<open>src/output/kafka/config.go\<close>: the configuration of the Kafka output, its validation, its
  translation to a configuration of the Sarama client, and the backoff between retries. Values
  that the code only hands from one library to another (TLS settings, key format, codec, SASL
  settings, versions) have the opaque type \<open>'x\<close>; the library functions the code calls are a record
  of functions. The number of doublings in the backoff is computed with floats and is modelled with their
  rounding; of the logarithm only the precision is assumed that it stays between powers of two.
\<close>

section \<open>The configuration\<close>

record backoff_config =
  bo_Init :: duration
  bo_Max :: duration

record kafka_header =
  hd_Key :: string
  hd_Value :: string

record meta_config =
  mc_Retry_Max :: i64
  mc_Retry_Backoff :: duration
  mc_RefreshFreq :: duration
  mc_Full :: bool

record kerberos_config =
  krb_EnableFAST :: bool
  krb_AuthType :: i64
  krb_KeyTabPath :: string
  krb_ConfigPath :: string
  krb_ServiceName :: string
  krb_Username :: string
  krb_Password :: string
  krb_Realm :: string

record 'x kafka_config =
  kf_Enabled :: bool
  kf_Topic :: string
  kf_Topics :: "'x list option"
  kf_Hosts :: "string list"
  kf_TLS :: "'x option"
  kf_Kerberos :: "kerberos_config option"
  kf_Timeout :: duration
  kf_Metadata :: meta_config
  kf_Key :: "'x option"
  kf_Partition :: "(string \<times> 'x) list"
  kf_KeepAlive :: duration
  kf_MaxMessageBytes :: "i64 option"
  kf_RequiredACKs :: "i64 option"
  kf_BrokerTimeout :: duration
  kf_Compression :: string
  kf_CompressionLevel :: i64
  kf_Version :: string
  kf_BulkMaxSize :: i64
  kf_BulkFlushFrequency :: duration
  kf_MaxRetries :: i64
  kf_Headers :: "kafka_header list"
  kf_Backoff :: backoff_config
  kf_ClientID :: string
  kf_ChanBufferSize :: i64
  kf_Username :: string
  kf_Password :: string
  kf_Sasl :: "'x option"
  kf_EnableFAST :: bool
  kf_Codec :: "'x option"

datatype compression_codec = CompressionNone | CompressionGZIP | CompressionLZ4 | CompressionSnappy

definition compressionModes :: "string \<Rightarrow> compression_codec option" where
  "compressionModes = map_of
     [(''none'', CompressionNone), (''no'', CompressionNone), (''off'', CompressionNone),
      (''gzip'', CompressionGZIP), (''lz4'', CompressionLZ4), (''snappy'', CompressionSnappy)]"

definition kafka_DefaultConfig :: "'x kafka_config" where
  "kafka_DefaultConfig = \<lparr>
     kf_Enabled = False, kf_Topic = [], kf_Topics = None, kf_Hosts = [], kf_TLS = None,
     kf_Kerberos = None, kf_Timeout = seconds 30,
     kf_Metadata = \<lparr>mc_Retry_Max = 3, mc_Retry_Backoff = milliseconds 250,
                    mc_RefreshFreq = seconds 600, mc_Full = False\<rparr>,
     kf_Key = None, kf_Partition = [], kf_KeepAlive = 0, kf_MaxMessageBytes = None,
     kf_RequiredACKs = None, kf_BrokerTimeout = seconds 10, kf_Compression = ''gzip'',
     kf_CompressionLevel = 4, kf_Version = ''1.0.0'', kf_BulkMaxSize = 2048,
     kf_BulkFlushFrequency = 0, kf_MaxRetries = 3, kf_Headers = [],
     kf_Backoff = \<lparr>bo_Init = seconds 1, bo_Max = seconds 60\<rparr>,
     kf_ClientID = ''elastic-agent'', kf_ChanBufferSize = 256, kf_Username = [], kf_Password = [],
     kf_Sasl = None, kf_EnableFAST = False, kf_Codec = None\<rparr>"

text \<open>\<open>Version.Validate\<close> is a library function.\<close>

definition kafka_Validate :: "(string \<Rightarrow> go_error option) \<Rightarrow> 'x kafka_config \<Rightarrow> go_error option" where
  "kafka_Validate Version_Validate c =
     (if kf_Enabled c
      then if kf_Hosts c = [] then Some (NewError (''missing required field '' @ quoted ''hosts''))
      else if kf_Topic c = [] \<and> kf_Topics c = None
        then Some (NewError (''setting '' @ quoted ''topic'' @ '' and/or '' @ quoted ''topics'' @ '' is required''))
      else if compressionModes (strings_ToLower (kf_Compression c)) = None
        then Some (NewError (''compression mode '' @ quoted (kf_Compression c) @ '' unknown''))
      else case Version_Validate (kf_Version c) of
          Some err \<Rightarrow> Some err
        | None \<Rightarrow>
            if kf_Username c \<noteq> [] \<and> kf_Password c = []
            then Some (NewError ''password must be set when username is configured'')
            else None
      else None)"

section \<open>The retry backoff\<close>

text \<open>What is left to the platform: the value of \<open>math.Log2\<close> for a positive float, and the result of
  converting an infinity or a NaN to \<open>int\<close>, which the language leaves to the implementation.\<close>

record float_lib =
  fl_Log2 :: "rat \<Rightarrow> rat"
  fl_invalid :: int

definition maxBackoffRetries :: "float_lib \<Rightarrow> backoff_config \<Rightarrow> int" where
  "maxBackoffRetries fl cfg =
     (let max = sint (bo_Max cfg); init = sint (bo_Init cfg) in
      if 0 < max * init
      then \<lceil>fl_Log2 fl (float64_quotient (float64_of_uint64 (word_of_int \<bar>max\<bar>)) (float64_of_uint64 (word_of_int \<bar>init\<bar>)))\<rceil>
      else fl_invalid fl)"

text \<open>The binary logarithm, exact to the extent that it is not above the logarithm of the next power of two, and below the one of the
  previous power by less than one.\<close>

definition Log2_accurate :: "(rat \<Rightarrow> rat) \<Rightarrow> bool" where
  "Log2_accurate L \<longleftrightarrow> (\<forall>x. 0 < x \<longrightarrow> x \<le> 1 \<longrightarrow> L x \<le> 0) \<and>
     (\<forall>x k. 2 ^ k \<le> x \<longrightarrow> x \<le> 2 ^ Suc k \<longrightarrow> of_nat k < L x + 1 \<and> L x \<le> of_nat (Suc k))"

text \<open>\<open>rand.Int63n\<close>, for the random number \<open>r\<close>.\<close>

definition Int63n :: "nat \<Rightarrow> i64 \<Rightarrow> i64 outcome" where
  "Int63n r n = (if sint n \<le> 0 then Panic ''invalid argument to Int63n''
                 else Return (word_of_int (int (r mod nat (sint n)))))"

definition backoff_base :: "float_lib \<Rightarrow> backoff_config \<Rightarrow> nat \<Rightarrow> duration" where
  "backoff_base fl cfg retries =
     (if int retries < maxBackoffRetries fl cfg then bo_Init cfg * push_bit retries 1 else bo_Max cfg)"

definition makeBackoffFunc :: "float_lib \<Rightarrow> backoff_config \<Rightarrow> nat \<Rightarrow> nat \<Rightarrow> duration outcome" where
  "makeBackoffFunc fl cfg retries r =
     (let limit = word_of_int (sint (backoff_base fl cfg retries) sdiv 2) in
      case Int63n r (limit + 1) of
        Panic e \<Rightarrow> Panic e
      | Return jitter \<Rightarrow> Return (limit + jitter))"

lemma sint_i64_upper: "sint (w :: i64) \<le> 2 ^ 63 - 1"
  using sint_lt [of w] by simp

lemma sint_word_of_int_i64:
  "- (2 ^ 63) \<le> i \<Longrightarrow> i \<le> 2 ^ 63 - 1 \<Longrightarrow> sint (word_of_int i :: i64) = i"
  by (rule sint_of_int_bounded) simp_all

text \<open>The number of doublings computed with floats is the exact one or one less.\<close>

lemma maxBackoffRetries_near:
  assumes "Log2_accurate (fl_Log2 fl)" "0 < sint (bo_Init cfg)" "sint (bo_Init cfg) < 2 ^ 53"
    and "0 < sint (bo_Max cfg)" "sint (bo_Max cfg) < 2 ^ 53"
  defines "n \<equiv> doublings (nat (sint (bo_Init cfg))) (nat (sint (bo_Max cfg)))"
  shows "int n - 1 \<le> maxBackoffRetries fl cfg \<or> n = 0" "maxBackoffRetries fl cfg \<le> int n"
proof -
  let ?i = "nat (sint (bo_Init cfg))" and ?m = "nat (sint (bo_Max cfg))"
  have exact: "float64_of_uint64 w = nat (sint w)" if "0 < sint w" "sint w < 2 ^ 53" for w :: u64
  proof -
    have "uint w = sint w"
      using that uint_word_of_int_eq [of "sint w", where 'a = 64] by (simp add: take_bit_int_eq_self)
    with that show ?thesis by (simp add: float64_small unat_eq_nat_uint)
  qed
  let ?q = "float64_quotient ?m ?i"
  have r: "maxBackoffRetries fl cfg = \<lceil>fl_Log2 fl ?q\<rceil>"
    using assms(2-5) by (simp add: maxBackoffRetries_def Let_def exact)
  have pos: "0 < ?m" "0 < ?i" using assms(2,4) by simp_all
  have near: "int n - 1 \<le> \<lceil>fl_Log2 fl ?q\<rceil> \<and> \<lceil>fl_Log2 fl ?q\<rceil> \<le> int n \<or> n = 0 \<and> \<lceil>fl_Log2 fl ?q\<rceil> \<le> 0"
  proof (cases n)
    case 0
    then have "?m \<le> ?i" using doublings_reached [OF pos(2), of ?m 0] by (simp add: n_def)
    then have "?q \<le> 1" using float64_quotient_between(2) [OF pos, of 0] by simp
    moreover have "0 < ?q"
    proof -
      have "0 < round_half_even (?m * 2 ^ doublings ?m (2 ^ 52 * ?i)) (?i * 2 ^ doublings (2 ^ 53 * ?i) (?m + 1))"
      proof -
        have "?i * 2 ^ doublings (2 ^ 53 * ?i) (?m + 1) \<le> ?m * 2 ^ doublings ?m (2 ^ 52 * ?i)"
          by (rule order_trans [OF _ quotient_normal(1) [OF pos]]) simp
        then have "0 < ?m * 2 ^ doublings ?m (2 ^ 52 * ?i) div (?i * 2 ^ doublings (2 ^ 53 * ?i) (?m + 1))"
          using pos by (simp add: div_greater_zero_iff)
        then show ?thesis using round_half_even_ge order_less_le_trans by blast
      qed
      then show ?thesis by (simp add: float64_quotient_def Let_def)
    qed
    ultimately have "fl_Log2 fl ?q \<le> 0" using assms(1) by (simp add: Log2_accurate_def)
    with 0 show ?thesis by (simp add: ceiling_le_iff)
  next
    case (Suc k)
    have "?i * 2 ^ k < ?m" using Suc by (intro doublings_bound) (simp add: n_def)
    moreover have "?m \<le> ?i * 2 ^ Suc k" using Suc by (intro doublings_reached [OF pos(2)]) (simp add: n_def)
    ultimately have "2 ^ k \<le> ?q" "?q \<le> 2 ^ Suc k"
      by (auto intro!: float64_quotient_between [OF pos] simp: mult.commute [of _ "nat (sint (bo_Init cfg))"] simp del: power_Suc)
    then have "of_nat k < fl_Log2 fl ?q + 1" "fl_Log2 fl ?q \<le> of_nat (Suc k)"
      using assms(1) by (auto simp: Log2_accurate_def)
    then have "int k \<le> \<lceil>fl_Log2 fl ?q\<rceil>" "\<lceil>fl_Log2 fl ?q\<rceil> \<le> int (Suc k)"
      by (simp_all add: ceiling_le_iff le_ceiling_iff)
    with Suc show ?thesis by simp
  qed
  then show "int n - 1 \<le> maxBackoffRetries fl cfg \<or> n = 0" "maxBackoffRetries fl cfg \<le> int n" using r by auto
qed

lemma backoff_base_between:
  assumes "Log2_accurate (fl_Log2 fl)" "0 < sint (bo_Init cfg)" "sint (bo_Init cfg) < 2 ^ 53"
    and "0 < sint (bo_Max cfg)" "sint (bo_Max cfg) < 2 ^ 53"
  shows "min (sint (bo_Init cfg) * 2 ^ retries) (sint (bo_Max cfg)) \<le> sint (backoff_base fl cfg retries) \<and>
    sint (backoff_base fl cfg retries) \<le> min (sint (bo_Init cfg) * 2 ^ Suc retries) (sint (bo_Max cfg))"
proof -
  let ?i = "nat (sint (bo_Init cfg))" and ?m = "nat (sint (bo_Max cfg))"
  note near = maxBackoffRetries_near [OF assms]
  have i: "0 < ?i" using assms(2) by simp
  show ?thesis
  proof (cases "int retries < maxBackoffRetries fl cfg")
    case True
    with near(2) have "retries < doublings ?i ?m" by simp
    then have "?i * 2 ^ retries < ?m" by (rule doublings_bound)
    then have "int (?i * 2 ^ retries) < int ?m" by (rule iffD2 [OF of_nat_less_iff])
    then have lt: "sint (bo_Init cfg) * 2 ^ retries < sint (bo_Max cfg)" using assms by simp
    have "bo_Init cfg * push_bit retries 1 = word_of_int (sint (bo_Init cfg) * 2 ^ retries)"
      by (simp add: push_bit_eq_mult)
    then have "sint (bo_Init cfg * push_bit retries 1) = sint (bo_Init cfg) * 2 ^ retries"
      using lt assms(2) sint_i64_upper [of "bo_Max cfg"]
      by (simp only:) (intro sint_word_of_int_i64, auto intro: order_trans [of _ 0])
    with True lt assms(2) show ?thesis by (simp add: backoff_base_def)
  next
    case False
    with near(1) have "doublings ?i ?m \<le> Suc retries" by auto
    then have "?m \<le> ?i * 2 ^ Suc retries" by (rule doublings_reached [OF i])
    then have "int ?m \<le> int (?i * 2 ^ Suc retries)" by (rule iffD2 [OF of_nat_le_iff])
    then have "sint (bo_Max cfg) \<le> sint (bo_Init cfg) * 2 ^ Suc retries" using assms by simp
    with False show ?thesis by (simp add: backoff_base_def)
  qed
qed

text \<open>C31: the wait before a retry, for settings that are positive and below \<open>2 ^ 53\<close> nanoseconds (104 days): it lies
  in the second half of an interval that is at least the initial backoff doubled with every retry, at most that
  doubled once more, and capped at the maximal backoff; for every number of retries and every random number, with no overflow in
  the multiplication and no panic. The interval may be the next one because the number of
  doublings is computed with floats, and a quotient just above a power of two may be rounded to it.\<close>

theorem backoff_in_second_half:
  assumes "Log2_accurate (fl_Log2 fl)" "0 < sint (bo_Init cfg)" "sint (bo_Init cfg) < 2 ^ 53"
    and "0 < sint (bo_Max cfg)" "sint (bo_Max cfg) < 2 ^ 53"
  shows "\<exists>d dur. makeBackoffFunc fl cfg retries r = Return d \<and> dur div 2 \<le> sint d \<and> sint d \<le> dur \<and>
    min (sint (bo_Init cfg) * 2 ^ retries) (sint (bo_Max cfg)) \<le> dur \<and>
    dur \<le> min (sint (bo_Init cfg) * 2 ^ Suc retries) (sint (bo_Max cfg))"
proof -
  define dur where "dur = sint (backoff_base fl cfg retries)"
  note between = backoff_base_between [OF assms, of retries, folded dur_def]
  have dur: "0 \<le> dur" "dur \<le> 2 ^ 63 - 1"
    using between assms(2,4) sint_i64_upper [of "bo_Max cfg"] by (auto intro: order_trans [rotated])
  define l where "l = dur div 2"
  have l: "0 \<le> l" "l + 1 \<le> 2 ^ 63 - 1" "2 * l \<le> dur" using dur by (auto simp: l_def)
  define j where "j = int (r mod nat (l + 1))"
  have j: "0 \<le> j" "j \<le> l"
    using l(1) pos_mod_bound [of "l + 1" "int r"] by (auto simp: j_def zmod_int)
  have "dur sdiv 2 = l" using dur(1) by (cases "dur = 0") (simp_all add: l_def signed_divide_int_def)
  moreover have s: "sint (word_of_int l + 1 :: i64) = l + 1" "sint (word_of_int (l + j) :: i64) = l + j"
    using l j dur sint_word_of_int_i64 [of "l + 1"] sint_word_of_int_i64 [of "l + j"] by simp_all
  ultimately have "makeBackoffFunc fl cfg retries r = Return (word_of_int (l + j))"
    using l(1) by (simp add: makeBackoffFunc_def Let_def flip: dur_def) (simp add: Int63n_def j_def)
  then show ?thesis using s(2) j l(3) between by (intro exI [of _ "word_of_int (l + j)"] exI [of _ dur]) (simp add: l_def)
qed

text \<open>A logarithm rounded up to a whole number.\<close>

definition example_float_lib :: float_lib where
  "example_float_lib = \<lparr>fl_Log2 = \<lambda>x. of_int \<lceil>log 2 (real_of_rat x)\<rceil>, fl_invalid = - (2 ^ 63)\<rparr>"

lemma log2_at_least:
  assumes "2 ^ k \<le> (x :: rat)"
  shows "int k \<le> \<lceil>log 2 (real_of_rat x)\<rceil>"
proof -
  have "2 ^ k \<le> real_of_rat x" using assms of_rat_less_eq [of "2 ^ k" x, where 'a = real] by (simp add: of_rat_power)
  then have "log 2 (2 ^ k) \<le> log 2 (real_of_rat x)" by (intro log_mono) simp_all
  then have "real k \<le> log 2 (real_of_rat x)" by (simp add: log_nat_power)
  then have "real_of_int (int k) \<le> of_int \<lceil>log 2 (real_of_rat x)\<rceil>" by (simp only: of_int_of_nat_eq) linarith
  then show ?thesis by (simp only: of_int_le_iff)
qed

lemma log2_at_most:
  assumes "0 < x" "x \<le> (2 ^ k :: rat)"
  shows "\<lceil>log 2 (real_of_rat x)\<rceil> \<le> int k"
proof -
  have "real_of_rat x \<le> 2 ^ k" using assms of_rat_less_eq [of x "2 ^ k", where 'a = real] by (simp add: of_rat_power)
  then have "log 2 (real_of_rat x) \<le> log 2 (2 ^ k)" using assms by (intro log_mono) simp_all
  then show ?thesis by (simp add: log_nat_power ceiling_le_iff)
qed

lemma example_Log2_accurate: "Log2_accurate (fl_Log2 example_float_lib)"
proof -
  have whole: "(of_nat k :: rat) < of_int c + 1 \<and> of_int c \<le> (of_nat (Suc k) :: rat)"
    if "int k \<le> c" "c \<le> int (Suc k)" for k c
    using that by linarith
  have "\<lceil>log 2 (real_of_rat x)\<rceil> \<le> 0" if "0 < x" "x \<le> 1" for x
    using log2_at_most [of x 0] that by simp
  moreover have "of_nat k < of_int \<lceil>log 2 (real_of_rat x)\<rceil> + (1 :: rat) \<and>
      of_int \<lceil>log 2 (real_of_rat x)\<rceil> \<le> (of_nat (Suc k) :: rat)"
    if "2 ^ k \<le> x" "x \<le> 2 ^ Suc k" for x k
    using that less_le_trans [of 0 "2 ^ k" x] by (intro whole log2_at_least log2_at_most) simp_all
  ultimately show ?thesis
    by (simp only: Log2_accurate_def example_float_lib_def float_lib.simps of_int_le_0_iff) blast
qed

theorem backoff_in_second_half_witness:
  "\<exists>d dur. makeBackoffFunc example_float_lib \<lparr>bo_Init = seconds 1, bo_Max = seconds 60\<rparr> 3 17 = Return d \<and>
     dur div 2 \<le> sint d \<and> sint d \<le> dur \<and> 8000000000 \<le> dur \<and> dur \<le> 16000000000"
  using backoff_in_second_half [OF example_Log2_accurate, of "\<lparr>bo_Init = seconds 1, bo_Max = seconds 60\<rparr>" 3 17]
  by simp

section \<open>The Sarama configuration\<close>

record gssapi_config =
  gs_AuthType :: i64
  gs_KeyTabPath :: string
  gs_KerberosConfigPath :: string
  gs_ServiceName :: string
  gs_Username :: string
  gs_Password :: string
  gs_Realm :: string
  gs_DisablePAFXFAST :: bool

record 'x sarama_config =
  Net_DialTimeout :: duration
  Net_ReadTimeout :: duration
  Net_WriteTimeout :: duration
  Net_KeepAlive :: duration
  Net_TLS_Enable :: bool
  Net_TLS_Config :: "'x option"
  SASL_Enable :: bool
  SASL_Mechanism :: string
  SASL_User :: string
  SASL_Password :: string
  SASL_GSSAPI :: "gssapi_config option"
  Metadata_Retry_Max :: i64
  Metadata_Retry_Backoff :: duration
  Metadata_RefreshFrequency :: duration
  Metadata_Full :: bool
  Producer_Timeout :: duration
  Producer_CompressionLevel :: i64
  Producer_MaxMessageBytes :: i64
  Producer_RequiredAcks :: "16 word"
  Producer_Compression :: compression_codec
  Return_Successes :: bool
  Return_Errors :: bool
  Producer_Retry_Max :: i64
  Producer_BackoffFunc :: "backoff_config option"
  ChannelBufferSize :: i64
  Flush_MaxMessages :: i64
  Flush_Frequency :: duration
  sc_ClientID :: string
  sc_Version :: 'x
  Producer_Partitioner :: "(strategy \<times> bool) option"

text \<open>The functions of the libraries: Sarama's default configuration and validation, the loading of
  TLS settings (with the building of the client configuration from them), Kerberos' switch, the SASL settings and the Kafka versions.\<close>

record 'x sarama_lib =
  sarama_NewConfig :: "'x sarama_config"
  sarama_Validate :: "'x sarama_config \<Rightarrow> go_error option"
  LoadTLSConfig :: "'x option \<Rightarrow> ('x option) result"
  kerberos_IsEnabled :: "kerberos_config option \<Rightarrow> bool"
  ConfigureSarama :: "'x option \<Rightarrow> 'x sarama_config \<Rightarrow> 'x sarama_config"
  Version_Get :: "string \<Rightarrow> 'x option"
  kf_unpackers :: "'x partition_unpackers"

definition configure_network :: "'x kafka_config \<Rightarrow> 'x sarama_config \<Rightarrow> 'x sarama_config" where
  "configure_network c k = k\<lparr>
     Net_DialTimeout := kf_Timeout c, Net_ReadTimeout := kf_Timeout c,
     Net_WriteTimeout := kf_Timeout c, Net_KeepAlive := kf_KeepAlive c,
     Producer_Timeout := kf_BrokerTimeout c, Producer_CompressionLevel := kf_CompressionLevel c\<rparr>"

definition configure_tls :: "'x option \<Rightarrow> 'x sarama_config \<Rightarrow> 'x sarama_config" where
  "configure_tls tls k =
     (case tls of None \<Rightarrow> k | Some t \<Rightarrow> k\<lparr>Net_TLS_Enable := True, Net_TLS_Config := Some t\<rparr>)"

text \<open>The switch over the authentication; a nil Kerberos configuration that claims to be enabled
  would be dereferenced.\<close>

definition configure_auth ::
    "'x sarama_lib \<Rightarrow> 'x kafka_config \<Rightarrow> 'x sarama_config \<Rightarrow> 'x sarama_config outcome" where
  "configure_auth lib c k =
     (if kerberos_IsEnabled lib (kf_Kerberos c)
      then (case kf_Kerberos c of
              None \<Rightarrow> Panic ''nil pointer dereference''
            | Some krb \<Rightarrow> Return (k\<lparr>
                SASL_Enable := True, SASL_Mechanism := ''GSSAPI'',
                SASL_GSSAPI := Some \<lparr>
                  gs_AuthType = krb_AuthType krb, gs_KeyTabPath = krb_KeyTabPath krb,
                  gs_KerberosConfigPath = krb_ConfigPath krb, gs_ServiceName = krb_ServiceName krb,
                  gs_Username = krb_Username krb, gs_Password = krb_Password krb,
                  gs_Realm = krb_Realm krb,
                  gs_DisablePAFXFAST = (\<not> (krb_EnableFAST krb \<or> kf_EnableFAST c))\<rparr>\<rparr>))
      else if kf_Username c \<noteq> []
      then Return (ConfigureSarama lib (kf_Sasl c)
             (k\<lparr>SASL_Enable := True, SASL_User := kf_Username c, SASL_Password := kf_Password c\<rparr>))
      else Return k)"

definition configure_metadata :: "'x kafka_config \<Rightarrow> 'x sarama_config \<Rightarrow> 'x sarama_config" where
  "configure_metadata c k = k\<lparr>
     Metadata_Retry_Max := mc_Retry_Max (kf_Metadata c),
     Metadata_Retry_Backoff := mc_Retry_Backoff (kf_Metadata c),
     Metadata_RefreshFrequency := mc_RefreshFreq (kf_Metadata c),
     Metadata_Full := mc_Full (kf_Metadata c),
     Producer_MaxMessageBytes :=
       (case kf_MaxMessageBytes c of None \<Rightarrow> Producer_MaxMessageBytes k | Some n \<Rightarrow> n),
     Producer_RequiredAcks :=
       (case kf_RequiredACKs c of None \<Rightarrow> Producer_RequiredAcks k | Some n \<Rightarrow> ucast n)\<rparr>"

definition configure_producer ::
    "'x kafka_config \<Rightarrow> compression_codec \<Rightarrow> 'x sarama_config \<Rightarrow> 'x sarama_config" where
  "configure_producer c mode k = k\<lparr>
     Producer_Compression := mode,
     Return_Successes := True, Return_Errors := True,
     Producer_Retry_Max := (if sint (kf_MaxRetries c) < 0 then 1000 else kf_MaxRetries c),
     Producer_BackoffFunc := Some (kf_Backoff c),
     ChannelBufferSize := kf_ChanBufferSize c,
     Flush_MaxMessages := kf_BulkMaxSize c,
     Flush_Frequency := (if 0 < sint (kf_BulkFlushFrequency c) then kf_BulkFlushFrequency c
                         else Flush_Frequency k),
     sc_ClientID := kf_ClientID c\<rparr>"

definition newSaramaConfig ::
    "'x sarama_lib \<Rightarrow> 'x kafka_config \<Rightarrow> (('x sarama_config) result) outcome" where
  "newSaramaConfig lib c =
     (case initPartitionStrategy (kf_unpackers lib) (kf_Partition c) of
        Inl err \<Rightarrow> Return (Inl err)
      | Inr part \<Rightarrow>
     (case LoadTLSConfig lib (kf_TLS c) of
        Inl err \<Rightarrow> Return (Inl err)
      | Inr tls \<Rightarrow>
     (case configure_auth lib c (configure_tls tls (configure_network c (sarama_NewConfig lib))) of
        Panic e \<Rightarrow> Panic e
      | Return k \<Rightarrow>
     (case compressionModes (strings_ToLower (kf_Compression c)) of
        None \<Rightarrow> Return (Inl (NewError (''unknown compression mode: '' @ quoted (kf_Compression c))))
      | Some mode \<Rightarrow>
     (case Version_Get lib (kf_Version c) of
        None \<Rightarrow> Return (Inl (NewError (''unknown/unsupported kafka version: '' @ kf_Version c)))
      | Some version \<Rightarrow>
          (let k = (configure_producer c mode (configure_metadata c k))
                     \<lparr>sc_Version := version, Producer_Partitioner := Some part\<rparr>
           in case sarama_Validate lib k of
                Some err \<Rightarrow> Return (Inl err)
              | None \<Rightarrow> Return (Inr k)))))))"

lemma configure_auth_returns:
  assumes "\<not> kerberos_IsEnabled lib None"
  shows "\<exists>k'. configure_auth lib c k = Return k'"
  using assms by (cases "kf_Kerberos c") (simp_all add: configure_auth_def)

lemma kafka_Validate_enabled:
  assumes "kafka_Validate V c = None" "kf_Enabled c"
  obtains mode where "compressionModes (strings_ToLower (kf_Compression c)) = Some mode"
    and "V (kf_Version c) = None" and "kf_Hosts c \<noteq> []"
  using assms by (auto simp: kafka_Validate_def split: if_splits option.splits)

lemmas configure_simps = configure_producer_def configure_metadata_def

text \<open>For an enabled configuration that passed validation, a partitioning the libraries accept
  and TLS settings that load, building the Sarama configuration does not panic and can only be
  refused by Sarama's own validation; what it builds reports every success and every error, as the
  client's accounting needs, never has a negative retry limit and carries the configured
  partitioning, compression and backoff.\<close>

theorem newSaramaConfig_validated:
  assumes "kafka_Validate V c = None" "kf_Enabled c"
    and versions: "\<And>v. V v = None \<Longrightarrow> Version_Get lib v \<noteq> None"
    and "\<not> kerberos_IsEnabled lib None"
    and "initPartitionStrategy (kf_unpackers lib) (kf_Partition c) = Inr part"
    and "LoadTLSConfig lib (kf_TLS c) = Inr tls"
  shows "\<exists>k. newSaramaConfig lib c =
      Return (case sarama_Validate lib k of Some err \<Rightarrow> Inl err | None \<Rightarrow> Inr k) \<and>
    Return_Successes k \<and> Return_Errors k \<and> 0 \<le> sint (Producer_Retry_Max k) \<and>
    Producer_Partitioner k = Some part \<and> Producer_BackoffFunc k = Some (kf_Backoff c) \<and>
    compressionModes (strings_ToLower (kf_Compression c)) = Some (Producer_Compression k)"
proof -
  obtain mode where mode: "compressionModes (strings_ToLower (kf_Compression c)) = Some mode"
      and "V (kf_Version c) = None"
    using kafka_Validate_enabled [OF assms(1,2)] by metis
  with versions obtain v where v: "Version_Get lib (kf_Version c) = Some v" by blast
  obtain k where k: "configure_auth lib c (configure_tls tls (configure_network c (sarama_NewConfig lib)))
      = Return k"
    using configure_auth_returns [OF assms(4)] by blast
  let ?k = "(configure_producer c mode (configure_metadata c k))
              \<lparr>sc_Version := v, Producer_Partitioner := Some part\<rparr>"
  have "newSaramaConfig lib c =
      Return (case sarama_Validate lib ?k of Some err \<Rightarrow> Inl err | None \<Rightarrow> Inr ?k)"
    using assms(5,6) mode v k by (simp add: newSaramaConfig_def Let_def split: option.split)
  then show ?thesis
    by (rule exI [of _ ?k, OF conjI]) (simp add: configure_simps mode)
qed

definition example_sarama_lib :: "string sarama_lib" where
  "example_sarama_lib = \<lparr>
     sarama_NewConfig = \<lparr>
       Net_DialTimeout = 0, Net_ReadTimeout = 0, Net_WriteTimeout = 0, Net_KeepAlive = 0,
       Net_TLS_Enable = False, Net_TLS_Config = None, SASL_Enable = False, SASL_Mechanism = [],
       SASL_User = [], SASL_Password = [], SASL_GSSAPI = None, Metadata_Retry_Max = 0,
       Metadata_Retry_Backoff = 0, Metadata_RefreshFrequency = 0, Metadata_Full = True,
       Producer_Timeout = 0, Producer_CompressionLevel = 0, Producer_MaxMessageBytes = 1000000,
       Producer_RequiredAcks = 1, Producer_Compression = CompressionNone,
       Return_Successes = False, Return_Errors = True, Producer_Retry_Max = 3,
       Producer_BackoffFunc = None, ChannelBufferSize = 256, Flush_MaxMessages = 0,
       Flush_Frequency = 0, sc_ClientID = [], sc_Version = ''1.0.0'', Producer_Partitioner = None\<rparr>,
     sarama_Validate = \<lambda>k. None, LoadTLSConfig = Inr, kerberos_IsEnabled = \<lambda>k. k \<noteq> None,
     ConfigureSarama = \<lambda>s k. k, Version_Get = \<lambda>v. if v = ''9'' then None else Some v,
     kf_unpackers = \<lparr>unpack_group = \<lambda>c d. Inr d, unpack_hash = \<lambda>c d. Inr d,
                     unpack_reachable = \<lambda>c d. Inr d\<rparr>\<rparr>"

definition example_kafka_config :: "string kafka_config" where
  "example_kafka_config =
     kafka_DefaultConfig\<lparr>kf_Enabled := True, kf_Topic := ''logs'', kf_Hosts := [''h'']\<rparr>"

lemma ToLower_gzip: "compressionModes (strings_ToLower ''gzip'') = Some CompressionGZIP"
  by code_simp

theorem newSaramaConfig_validated_witness:
  "\<exists>k. newSaramaConfig example_sarama_lib example_kafka_config = Return (Inr k) \<and>
    Return_Successes k \<and> Return_Errors k \<and> Producer_Partitioner k = Some (HashStrategy, False)"
proof -
  let ?V = "\<lambda>v. if v = ''9'' then Some (NewError ''version'') else None"
  have "kafka_Validate ?V example_kafka_config = None"
    by (simp add: kafka_Validate_def example_kafka_config_def kafka_DefaultConfig_def ToLower_gzip)
  moreover have "kf_Enabled example_kafka_config" "kf_Partition example_kafka_config = []"
    by (simp_all add: example_kafka_config_def kafka_DefaultConfig_def)
  moreover have "?V v = None \<Longrightarrow> Version_Get example_sarama_lib v \<noteq> None"
      "\<not> kerberos_IsEnabled example_sarama_lib None"
      "initPartitionStrategy (kf_unpackers example_sarama_lib) [] = Inr (HashStrategy, False)"
      "LoadTLSConfig example_sarama_lib t = Inr t" "sarama_Validate example_sarama_lib k = None"
    for v t k
    by (simp_all add: example_sarama_lib_def initPartitionStrategy_def split: if_splits)
  ultimately show ?thesis
    using newSaramaConfig_validated [of ?V example_kafka_config example_sarama_lib
        "(HashStrategy, False)"] by fastforce
qed

end
