(* ===== verification/Console_Output.thy ===== *)
theory Console_Output
  imports Shipper_Queue
begin

text \<open>
  \<^verbatim>\<open>src/output/console.go\<close>: the console output prints every event of a batch and acknowledges the
  batch in one call; \<open>console_run\<close> says that it prints all events of all batches, one line each and
  in order, and completes every batch once. The formatting of an event is a parameter. The loop runs over the batches
  that \<open>Get\<close> returns before the queue is closed.
\<close>

definition console_send :: "('e option \<Rightarrow> string) \<Rightarrow> 'e option \<Rightarrow> string" where
  "console_send fmt e = fmt e @ [CHR 0x0A]"

definition console_batch ::
    "('e option \<Rightarrow> string) \<Rightarrow> ('e, 'c) wrapped_batch \<Rightarrow> string list \<times> 'c done_effect list" where
  "console_batch fmt w =
     (let events = WrappedBatch_Events w
      in (map (console_send fmt) events, snd (WrappedBatch_Done w (word_of_nat (length events)))))"

fun console_loop ::
    "('e option \<Rightarrow> string) \<Rightarrow> ('e, 'c) wrapped_batch list \<Rightarrow> string list \<times> 'c done_effect list list" where
  "console_loop fmt [] = ([], [])"
| "console_loop fmt (w # ws) =
     (case console_batch fmt w of
        (out, eff) \<Rightarrow> (case console_loop fmt ws of (outs, effs) \<Rightarrow> (out @ outs, eff # effs)))"

text \<open>The output as an object: its wait group, which counts the goroutine that runs the loop. \<open>Wait\<close> returns
  exactly when the count is zero.\<close>

record console_output =
  co_wg :: int

definition NewConsole :: console_output where
  "NewConsole = \<lparr>co_wg = 0\<rparr>"

definition console_Start :: "console_output \<Rightarrow> console_output \<times> go_error option" where
  "console_Start out = (out\<lparr>co_wg := co_wg out + 1\<rparr>, None)"

lemma console_Start_ok [simp]: "snd (console_Start out) = None"
  by (simp add: console_Start_def)

definition console_Wait :: "console_output \<Rightarrow> bool" where
  "console_Wait out \<longleftrightarrow> co_wg out = 0"

text \<open>A single acknowledgement of the whole batch, the form the console and Logstash outputs use.\<close>

definition single_ack :: "'s \<Rightarrow> 'e list \<Rightarrow> u64 list" where
  "single_ack s es = [word_of_nat (length es)]"

lemma acks_exactly_single:
  assumes "0 < n" and "n < 2 ^ 64"
  shows "acks_exactly n [word_of_nat n]"
proof -
  have n: "unat (word_of_nat n :: u64) = n"
    using assms(2) by (rule unat_of_nat_u64)
  moreover from n assms(1) have "(word_of_nat n :: u64) \<noteq> 0"
    by (metis less_irrefl unat_0)
  ultimately show ?thesis
    by (simp add: acks_exactly_def)
qed

interpretation single: acknowledging_output single_ack "\<lambda>_ _. True"
proof
  fix s :: 's and es :: "'e list"
  assume "es \<noteq> []" and "length es < 2 ^ 63"
  then show "acks_exactly (length es) (single_ack s es)"
    unfolding single_ack_def by (intro acks_exactly_single) auto
qed

lemma single_ack_completes:
  assumes "fresh_batch w es"
  shows "snd (WrappedBatch_Done w (word_of_nat (length (WrappedBatch_Events w)))) = completion w"
proof -
  have "snd (done_run w (single_ack () es)) = completion w"
    using assms by (intro single.fresh_batch_completed) auto
  then show ?thesis
    using assms by (auto simp: single_ack_def WrappedBatch_Events_entries fresh_batch_def split: prod.splits)
qed

lemma console_run:
  assumes "list_all2 fresh_batch ws ess"
  shows "console_loop fmt ws =
    (map (\<lambda>e. fmt (Some e) @ [CHR 0x0A]) (concat ess), map completion ws)"
  using assms
proof (induction rule: list_all2_induct)
  case (Cons w ws es ess)
  then have "console_batch fmt w = (map (\<lambda>e. fmt (Some e) @ [CHR 0x0A]) es, completion w)"
    using single_ack_completes [of w es]
    by (simp add: console_batch_def console_send_def WrappedBatch_Events_entries fresh_batch_def)
  with Cons show ?case by simp
qed simp

end
