(* ===== verification/Logstash_Output.thy ===== *)
theory Logstash_Output
  imports Console_Output
begin

text \<open>
  \<^verbatim>\<open>src/output/logstash\<close>: the configuration, the client that publishes a batch to the first host
  that takes it, and the output loop. The connection and the lumberjack client are third-party:
  a connection is an opaque state \<open>'c\<close> with the operations of the record \<open>conn_ops\<close>. Whether the
  ticker of a host has fired when \<open>Publish\<close> looks is an input.
\<close>

section \<open>Configuration\<close>

record logstash_config =
  lc_Enabled :: bool
  lc_Hosts :: "string list"
  lc_Timeout :: duration
  lc_TTL :: duration
  lc_CompressionLevel :: int
  lc_MaxRetries :: int

definition logstash_DefaultConfig :: logstash_config where
  "logstash_DefaultConfig =
     \<lparr>lc_Enabled = False, lc_Hosts = [], lc_Timeout = seconds 30, lc_TTL = 0,
      lc_CompressionLevel = 3, lc_MaxRetries = 3\<rparr>"

definition logstash_readConfig ::
    "(logstash_config \<Rightarrow> logstash_config result) \<Rightarrow> logstash_config result" where
  "logstash_readConfig Unpack = Unpack logstash_DefaultConfig"

section \<open>The client\<close>

record ('c, 'e) conn_ops =
  conn_Close :: "'c \<Rightarrow> 'c \<times> go_error option"
  conn_Connect :: "'c \<Rightarrow> 'c \<times> go_error option"
  conn_IsConnected :: "'c \<Rightarrow> bool"
  client_Send :: "'c \<Rightarrow> 'e list \<Rightarrow> 'c \<times> nat result"

record 'c sync_client =
  sc_conn :: 'c
  sc_ttl :: duration
  sc_ticker :: bool

definition defaultPort :: nat where
  "defaultPort = 5044"

definition newSyncClient ::
    "(logstash_config \<Rightarrow> 't result) \<Rightarrow> ('t \<Rightarrow> duration \<Rightarrow> string \<Rightarrow> nat \<Rightarrow> 'n result) \<Rightarrow>
     ('n \<Rightarrow> duration \<Rightarrow> int \<Rightarrow> 'c result) \<Rightarrow> string \<Rightarrow> logstash_config \<Rightarrow> ('c sync_client) result" where
  "newSyncClient LoadTLSConfig NewClient NewSyncClientWithConn host c =
     (case LoadTLSConfig c of
        Inl e \<Rightarrow> Inl (Wrapped ''error loading tls configuration: '' e)
      | Inr tls \<Rightarrow>
          (case NewClient tls (lc_Timeout c) host defaultPort of
             Inl e \<Rightarrow> Inl (Wrapped ''error creating connection to logstash host: '' e)
           | Inr conn \<Rightarrow>
               (case NewSyncClientWithConn conn (lc_Timeout c) (lc_CompressionLevel c) of
                  Inl e \<Rightarrow> Inl (Wrapped ''error creating logstash client, skipping: '' e)
                | Inr client \<Rightarrow>
                    Inr \<lparr>sc_conn = client, sc_ttl = lc_TTL c, sc_ticker = (0 < sint (lc_TTL c))\<rparr>)))"

definition Reconnect ::
    "('c, 'e) conn_ops \<Rightarrow> 'c sync_client \<Rightarrow> 'c sync_client \<times> go_error option" where
  "Reconnect ops sc =
     (case conn_Close ops (sc_conn sc) of
        (c, Some e) \<Rightarrow>
          (sc\<lparr>sc_conn := c\<rparr>, Some (Wrapped ''error closing connection to logstash host: '' e))
      | (c, None) \<Rightarrow>
          (case conn_Connect ops c of (c', err) \<Rightarrow> (sc\<lparr>sc_conn := c'\<rparr>, err)))"

record 'c logstash_client =
  ls_hosts :: "'c sync_client list"
  ls_current :: nat

definition NewLogstashClient ::
    "(string \<Rightarrow> logstash_config \<Rightarrow> ('c sync_client) result) \<Rightarrow> logstash_config \<Rightarrow>
     ('c logstash_client) result" where
  "NewLogstashClient mk c =
     (let hosts = concat (map (\<lambda>h. case mk h c of Inl _ \<Rightarrow> [] | Inr sc \<Rightarrow> [sc]) (lc_Hosts c)) in
      if hosts = [] then Inl (NewError ''no logstash hosts configured'')
      else Inr \<lparr>ls_hosts = hosts, ls_current = 0\<rparr>)"

text \<open>The body of the loop in \<open>Publish\<close> for one host: \<open>None\<close> is a \<open>continue\<close>.\<close>

definition connect_if_needed ::
    "('c, 'e) conn_ops \<Rightarrow> 'c sync_client \<Rightarrow> 'c sync_client \<times> go_error option" where
  "connect_if_needed ops sc =
     (if \<not> conn_IsConnected ops (sc_conn sc)
      then (case conn_Connect ops (sc_conn sc) of (c, err) \<Rightarrow> (sc\<lparr>sc_conn := c\<rparr>, err))
      else (sc, None))"

definition try_host ::
    "('c, 'e) conn_ops \<Rightarrow> bool \<Rightarrow> 'e list \<Rightarrow> 'c sync_client \<Rightarrow> 'c sync_client \<times> u64 option" where
  "try_host ops fired events sc =
     (case (if sc_ticker sc \<and> fired then Reconnect ops sc else (sc, None)) of
        (sc1, Some _) \<Rightarrow> (sc1, None)
      | (sc1, None) \<Rightarrow>
          (case connect_if_needed ops sc1 of
             (sc2, Some _) \<Rightarrow> (sc2, None)
           | (sc2, None) \<Rightarrow>
               (case client_Send ops (sc_conn sc2) events of
                  (c, Inl _) \<Rightarrow> (sc2\<lparr>sc_conn := c\<rparr>, None)
                | (c, Inr n) \<Rightarrow> (sc2\<lparr>sc_conn := c\<rparr>, Some (word_of_nat n)))))"

text \<open>The loop, with the number of iterations left and the index \<open>j\<close> of the host to try.\<close>

fun publish_loop ::
    "('c, 'e) conn_ops \<Rightarrow> (nat \<Rightarrow> bool) \<Rightarrow> 'e list \<Rightarrow> nat \<Rightarrow> nat \<Rightarrow> 'c logstash_client \<Rightarrow>
     'c logstash_client \<times> u64 result" where
  "publish_loop ops fired events 0 j lc = (lc, Inl (NewError ''couldn't publish to any host''))"
| "publish_loop ops fired events (Suc n) j lc =
     (case try_host ops (fired j) events (ls_hosts lc ! j) of
        (sc, Some k) \<Rightarrow> (lc\<lparr>ls_current := j, ls_hosts := (ls_hosts lc)[j := sc]\<rparr>, Inr k)
      | (sc, None) \<Rightarrow>
          publish_loop ops fired events n ((j + 1) mod length (ls_hosts lc))
            (lc\<lparr>ls_current := j, ls_hosts := (ls_hosts lc)[j := sc]\<rparr>))"

definition logstash_Publish ::
    "('c, 'e) conn_ops \<Rightarrow> (nat \<Rightarrow> bool) \<Rightarrow> 'e list \<Rightarrow> 'c logstash_client \<Rightarrow>
     'c logstash_client \<times> u64 result" where
  "logstash_Publish ops fired events lc =
     publish_loop ops fired events (length (ls_hosts lc)) (ls_current lc) lc"

section \<open>The output loop\<close>

record 'c logstash_output =
  lo_config :: logstash_config
  lo_client :: "'c logstash_client option"
  lo_wg :: int

definition NewLogstash :: "logstash_config \<Rightarrow> 'c logstash_output" where
  "NewLogstash config = \<lparr>lo_config = config, lo_client = None, lo_wg = 0\<rparr>"

text \<open>\<open>Start\<close> up to the moment the goroutine runs the loop, and \<open>Wait\<close>, which returns exactly when the
  count of the wait group is zero.\<close>

definition logstash_Start ::
    "(string \<Rightarrow> logstash_config \<Rightarrow> ('c sync_client) result) \<Rightarrow> 'c logstash_output \<Rightarrow>
     'c logstash_output \<times> go_error option" where
  "logstash_Start mk ls =
     (case NewLogstashClient mk (lo_config ls) of
        Inl err \<Rightarrow> (ls, Some (Wrapped ''error creating logstash client: '' err))
      | Inr client \<Rightarrow> (ls\<lparr>lo_client := Some client, lo_wg := lo_wg ls + 1\<rparr>, None))"

definition logstash_Wait :: "'c logstash_output \<Rightarrow> bool" where
  "logstash_Wait ls \<longleftrightarrow> lo_wg ls = 0"

definition logstash_batch ::
    "('c, 'e option) conn_ops \<Rightarrow> (nat \<Rightarrow> bool) \<Rightarrow> 'c logstash_client \<Rightarrow> ('e, unit) wrapped_batch \<Rightarrow>
     'c logstash_client \<times> unit done_effect list" where
  "logstash_batch ops fired lc w =
     (let w = w\<lparr>CompletionCallback := Some ()\<rparr>;
          events = WrappedBatch_Events w;
          remaining = word_of_nat (length events)
      in case logstash_Publish ops fired events lc of
           (lc', Inl err) \<Rightarrow> (lc', snd (WrappedBatch_Done w remaining))
         | (lc', Inr completed) \<Rightarrow>
             if completed \<noteq> remaining then (lc', snd (WrappedBatch_Done w remaining))
             else (lc', snd (WrappedBatch_Done w remaining)))"

fun logstash_loop ::
    "('c, 'e option) conn_ops \<Rightarrow> (nat \<Rightarrow> nat \<Rightarrow> bool) \<Rightarrow> int \<Rightarrow> 'c logstash_client \<Rightarrow>
     ('e, unit) wrapped_batch list \<Rightarrow> int \<times> nat list" where
  "logstash_loop ops fired wg lc [] = (wg - 1, [])"
| "logstash_loop ops fired wg lc (w # ws) =
     (case logstash_batch ops (fired 0) lc w of
        (lc', eff) \<Rightarrow>
          (case logstash_loop ops (\<lambda>n. fired (Suc n))
                  (wg + 1 - int (count_if (\<lambda>e. e = RunCallback ()) eff)) lc' ws of
             (wg', ids) \<Rightarrow> (wg', [i. BatchDone i \<leftarrow> eff] @ ids)))"

section \<open>Properties of the client\<close>

definition wf_client :: "'c logstash_client \<Rightarrow> bool" where
  "wf_client lc \<longleftrightarrow> ls_current lc < length (ls_hosts lc)"

lemma NewLogstashClient_wf: "NewLogstashClient mk c = Inr lc \<Longrightarrow> wf_client lc"
  by (auto simp: NewLogstashClient_def wf_client_def Let_def simp del: concat_eq_Nil_conv split: if_splits)

text \<open>The specification: the hosts in cyclic order from the current one, and the first of them
  that takes the events.\<close>

definition host_order :: "'c logstash_client \<Rightarrow> nat list" where
  "host_order lc = map (\<lambda>k. (ls_current lc + k) mod length (ls_hosts lc)) [0..<length (ls_hosts lc)]"

definition takes ::
    "('c, 'e) conn_ops \<Rightarrow> (nat \<Rightarrow> bool) \<Rightarrow> 'e list \<Rightarrow> 'c logstash_client \<Rightarrow> nat \<Rightarrow> u64 option" where
  "takes ops fired events lc j = snd (try_host ops (fired j) events (ls_hosts lc ! j))"

lemma publish_loop_wf:
  assumes "j < length (ls_hosts lc)" and "publish_loop ops fired events n j lc = (lc', r)"
    and "0 < n"
  shows "length (ls_hosts lc') = length (ls_hosts lc) \<and> wf_client lc'"
  using assms
proof (induction n arbitrary: j lc)
  case (Suc n)
  show ?case
  proof (cases "try_host ops (fired j) events (ls_hosts lc ! j)")
    case (Pair sc res)
    let ?lc = "lc\<lparr>ls_current := j, ls_hosts := (ls_hosts lc)[j := sc]\<rparr>"
    show ?thesis
    proof (cases res)
      case (Some k)
      with Suc Pair show ?thesis by (auto simp: wf_client_def)
    next
      case None
      with Suc.prems Pair have run:
          "publish_loop ops fired events n ((j + 1) mod length (ls_hosts lc)) ?lc = (lc', r)"
        by simp
      show ?thesis
      proof (cases n)
        case 0
        with run Suc.prems show ?thesis by (auto simp: wf_client_def)
      next
        case Succ: (Suc m)
        have "(j + 1) mod length (ls_hosts lc) < length (ls_hosts lc)"
          using Suc.prems(1) by (intro mod_less_divisor) linarith
        with Succ show ?thesis
          using Suc.IH [OF _ run] by auto
      qed
    qed
  qed
qed simp

abbreviation cyclic :: "nat \<Rightarrow> nat \<Rightarrow> nat \<Rightarrow> nat list" where
  "cyclic N j n \<equiv> map (\<lambda>k. (j + k) mod N) [0..<n]"

lemma cyclic_Suc:
  assumes "j < N"
  shows "cyclic N j (Suc n) = j # cyclic N ((j + 1) mod N) n"
proof -
  have "cyclic N j (Suc n) = (j + 0) mod N # map (\<lambda>k. (j + Suc k) mod N) [0..<n]"
    by (simp only: upt_rec [of 0 "Suc n"] map_Suc_upt [symmetric] zero_less_Suc if_True list.map map_map o_def)
  also have "(\<lambda>k. (j + Suc k) mod N) = (\<lambda>k. ((j + 1) mod N + k) mod N)"
    by (simp add: mod_add_left_eq)
  finally show ?thesis using assms by simp
qed

lemma cyclic_avoids:
  assumes "j < N" and "n < N"
  shows "j \<notin> set (cyclic N ((j + 1) mod N) n)"
proof
  assume "j \<in> set (cyclic N ((j + 1) mod N) n)"
  then obtain k where "k < n" and k: "j = (j + Suc k) mod N"
    by (auto simp: mod_add_left_eq)
  show False
  proof (cases "j + Suc k < N")
    case True
    with k show False by simp
  next
    case False
    with \<open>k < n\<close> assms have "(j + Suc k) mod N = j + Suc k - N"
      by (simp add: le_mod_geq)
    with k \<open>k < n\<close> assms False show False by simp
  qed
qed

text \<open>The first host in a list that takes the events, with what it returns.\<close>

definition first_taker :: "('h \<Rightarrow> 'r option) \<Rightarrow> 'h list \<Rightarrow> ('h \<times> 'r) option" where
  "first_taker f hs = (case filter (\<lambda>h. f h \<noteq> None) hs of [] \<Rightarrow> None | h # _ \<Rightarrow> Some (h, the (f h)))"

lemma first_taker_Cons:
  "first_taker f (h # hs) = (case f h of None \<Rightarrow> first_taker f hs | Some r \<Rightarrow> Some (h, r))"
  by (auto simp: first_taker_def split: option.splits)

lemma first_taker_cong:
  assumes "\<And>h. h \<in> set hs \<Longrightarrow> f h = g h"
  shows "first_taker f hs = first_taker g hs"
  using assms by (induction hs) (auto simp: first_taker_Cons first_taker_def split: option.splits)

lemma takes_other_hosts:
  assumes "j \<notin> set hs"
  shows "first_taker (takes ops fired events (lc\<lparr>ls_current := j, ls_hosts := (ls_hosts lc)[j := sc]\<rparr>)) hs =
    first_taker (takes ops fired events lc) hs"
proof (intro first_taker_cong)
  fix h assume "h \<in> set hs"
  with assms have "h \<noteq> j" by blast
  then show "takes ops fired events (lc\<lparr>ls_current := j, ls_hosts := (ls_hosts lc)[j := sc]\<rparr>) h =
      takes ops fired events lc h"
    by (simp add: takes_def)
qed

lemma publish_loop_first:
  assumes "j < length (ls_hosts lc)" and "n \<le> length (ls_hosts lc)"
  shows "case publish_loop ops fired events n j lc of
    (lc', r) \<Rightarrow>
      (case first_taker (takes ops fired events lc) (cyclic (length (ls_hosts lc)) j n) of
         Some (h, k) \<Rightarrow> r = Inr k \<and> ls_current lc' = h
       | None \<Rightarrow> r = Inl (NewError ''couldn't publish to any host''))"
  using assms
proof (induction n arbitrary: j lc)
  case 0
  then show ?case by (simp add: first_taker_def)
next
  case (Suc n)
  obtain sc res where t: "try_host ops (fired j) events (ls_hosts lc ! j) = (sc, res)"
    by fastforce
  let ?N = "length (ls_hosts lc)"
  let ?j = "(j + 1) mod ?N"
  let ?lc = "lc\<lparr>ls_current := j, ls_hosts := (ls_hosts lc)[j := sc]\<rparr>"
  have cyc: "cyclic ?N j (Suc n) = j # cyclic ?N ?j n"
    using Suc.prems(1) by (rule cyclic_Suc)
  have res: "takes ops fired events lc j = res"
    by (simp add: takes_def t)
  show ?case
  proof (cases res)
    case (Some k)
    then show ?thesis
      unfolding cyc by (simp add: t res first_taker_Cons)
  next
    case None
    have notin: "j \<notin> set (cyclic ?N ?j n)"
      using Suc.prems by (intro cyclic_avoids) simp_all
    note same = takes_other_hosts [OF notin, of ops fired events lc sc]
    have "?j < length (ls_hosts ?lc)"
      using Suc.prems(1) by (simp del: length_0_conv) (intro mod_less_divisor, linarith)
    moreover have "n \<le> length (ls_hosts ?lc)"
      using Suc.prems by simp
    ultimately show ?thesis
      unfolding cyc using same Suc.IH [of ?j ?lc] by (simp add: t res None first_taker_Cons)
  qed
qed

text \<open>C21: \<open>Publish\<close> sends a batch to the first host, in cyclic order from the current one, that
  can be connected and takes it, and makes that host the current one; it fails exactly if no host
  takes the batch, and each host is tried at most once. The client stays well-formed: the
  current index stays within the hosts, whose number does not change.\<close>

theorem logstash_Publish_first_host:
  assumes "wf_client lc"
  shows "case logstash_Publish ops fired events lc of
    (lc', r) \<Rightarrow> wf_client lc' \<and> length (ls_hosts lc') = length (ls_hosts lc) \<and>
      (case first_taker (takes ops fired events lc) (host_order lc) of
         Some (h, k) \<Rightarrow> r = Inr k \<and> ls_current lc' = h
       | None \<Rightarrow> r = Inl (NewError ''couldn't publish to any host''))"
proof -
  obtain lc' r where run: "logstash_Publish ops fired events lc = (lc', r)"
    by fastforce
  have "0 < length (ls_hosts lc)"
    using assms unfolding wf_client_def by linarith
  with assms run show ?thesis
    using publish_loop_wf [of "ls_current lc" lc ops fired events "length (ls_hosts lc)" lc' r]
      publish_loop_first [of "ls_current lc" lc "length (ls_hosts lc)" ops fired events]
    by (simp add: logstash_Publish_def wf_client_def host_order_def)
qed

definition sample_ops :: "(nat, 'e) conn_ops" where
  "sample_ops =
     \<lparr>conn_Close = (\<lambda>c. (c, None)), conn_Connect = (\<lambda>c. (c, None)), conn_IsConnected = (\<lambda>c. True),
      client_Send = (\<lambda>c es. (c, if c = 0 then Inl (NewError ''refused'') else Inr (length es)))\<rparr>"

definition sample_client :: "nat logstash_client" where
  "sample_client =
     \<lparr>ls_hosts = map (\<lambda>c. \<lparr>sc_conn = c, sc_ttl = 0, sc_ticker = False\<rparr>) [1, 0, 0], ls_current = 1\<rparr>"

theorem logstash_Publish_first_host_witness:
  "snd (logstash_Publish sample_ops (\<lambda>_. False) [''a'', ''b''] sample_client) = Inr 2"
  using logstash_Publish_first_host [of sample_client sample_ops "\<lambda>_. False" "[''a'', ''b'']"]
  by (simp add: sample_client_def sample_ops_def wf_client_def host_order_def first_taker_def takes_def
      try_host_def connect_if_needed_def upt_rec split: prod.splits)

section \<open>Properties of the output loop\<close>

lemma logstash_batch_completes:
  assumes "fresh_batch w es"
  shows "snd (logstash_batch ops fired lc w) = completion (w\<lparr>CompletionCallback := Some ()\<rparr>)"
proof -
  have "fresh_batch (w\<lparr>CompletionCallback := Some ()\<rparr>) es"
    using assms by (simp add: fresh_batch_def)
  then show ?thesis
    using single_ack_completes [of "w\<lparr>CompletionCallback := Some ()\<rparr>" es]
    by (auto simp: logstash_batch_def Let_def split: prod.splits sum.splits)
qed

lemma logstash_loop_run:
  assumes "list_all2 fresh_batch ws ess"
  shows "logstash_loop ops fired wg lc ws = (wg - 1, map (\<lambda>w. batch_id (wb_batch w)) ws)"
  using assms
proof (induction arbitrary: wg lc fired rule: list_all2_induct)
  case (Cons w ws es ess)
  obtain lc' eff where b: "logstash_batch ops (fired 0) lc w = (lc', eff)"
    by fastforce
  with Cons.hyps have "eff = [BatchDone (batch_id (wb_batch w)), RunCallback ()]"
    using logstash_batch_completes [of w es ops "fired 0" lc] by (simp add: completion_def)
  with b show ?case by (simp add: Cons.IH)
qed simp

text \<open>C20: the Logstash output acknowledges every batch to the queue exactly once, in order, whether
  or not a host took it (a batch that no host takes is dropped), and releases its wait group
  completely, so \<open>Wait\<close> returns once the queue is closed.\<close>

theorem logstash_acknowledges_every_batch:
  assumes "list_all2 fresh_batch ws ess"
  shows "logstash_loop ops fired 1 lc ws = (0, map (\<lambda>w. batch_id (wb_batch w)) ws)"
  by (simp add: logstash_loop_run [OF assms])

theorem logstash_acknowledges_every_batch_witness:
  "logstash_loop sample_ops (\<lambda>_ _. False) 1 sample_client
     [\<lparr>wb_batch = \<lparr>batch_id = 5, batch_entries = [Some ''a'', Some ''b'']\<rparr>, doneCount = 0,
       CompletionCallback = None\<rparr>] = (0, [5])"
  using logstash_acknowledges_every_batch
    [of "[\<lparr>wb_batch = \<lparr>batch_id = 5, batch_entries = [Some ''a'', Some ''b'']\<rparr>, doneCount = 0,
       CompletionCallback = None\<rparr>]" "[[''a'', ''b'']]" sample_ops "\<lambda>_ _. False" sample_client]
  by (simp add: fresh_batch_def)

text \<open>A started output gets through any batches, sent or not, and \<open>Wait\<close> then returns.\<close>

lemma logstash_Wait_returns:
  assumes "logstash_Start mk (NewLogstash c) = (ls, None)" and "list_all2 fresh_batch ws ess"
  shows "\<exists>lc. lo_client ls = Some lc \<and> wf_client lc \<and> logstash_Wait (ls\<lparr>lo_wg := fst (logstash_loop ops fired (lo_wg ls) lc ws)\<rparr>)"
proof -
  from assms(1) obtain lc where lc: "NewLogstashClient mk c = Inr lc"
      and ls: "ls = \<lparr>lo_config = c, lo_client = Some lc, lo_wg = 1\<rparr>"
    by (auto simp: logstash_Start_def NewLogstash_def split: sum.splits)
  from logstash_loop_run [OF assms(2), of ops fired 1 lc] NewLogstashClient_wf [OF lc] ls show ?thesis
    by (simp add: logstash_Wait_def)
qed

end
