(* ===== verification/Shipper_Config.thy ===== *)
theory Shipper_Config
  imports Queue_Config ES_Config Kafka_Config Logstash_Output
begin

text \<open>
  \<^verbatim>\<open>src/config/config.go\<close> and the configuration of \<^verbatim>\<open>src/output/output.go\<close>: the root configuration of
  the shipper, read from a file in unmanaged mode or taken from the output unit in managed mode.
  Parsing and unpacking into these records is the configuration library's work: functions of a
  record \<open>config_lib\<close>, over parsed configurations \<open>'raw\<close>. The global logger's level is a state the
  conversion of a unit's configuration updates.
\<close>

section \<open>The configuration\<close>

record shipper_tls =
  tls_CAs :: "string list"
  tls_Cert :: string
  tls_Key :: string

record shipper_connection_config =
  cc_Server :: string
  cc_TLS :: shipper_tls

record 'x output_config =
  oc_Console :: "bool option"
  oc_Elasticsearch :: "es_config option"
  oc_Kafka :: "'x kafka_config option"
  oc_Logstash :: "logstash_config option"

record 'x shipper_config =
  sh_Queue :: queue_config
  sh_Output :: "'x output_config"
  sh_StrictMode :: bool
  sh_Server :: shipper_connection_config

record 'x root_config =
  rt_Type :: string
  rt_Shipper :: "'x shipper_config"
  rt_LogMetrics :: "'x option"
  rt_HTTP :: "'x option"
  rt_Monitoring :: bool

definition output_DefaultConfig :: "'x output_config" where
  "output_DefaultConfig = \<lparr>oc_Console = None, oc_Elasticsearch = None,
     oc_Kafka = Some kafka_DefaultConfig, oc_Logstash = Some logstash_DefaultConfig\<rparr>"

definition esKey :: string where "esKey = ''elasticsearch''"
definition consoleKey :: string where "consoleKey = ''console''"
definition kafaKey :: string where "kafaKey = ''kafka''"

text \<open>The zero value of the output configuration has no output.\<close>

definition root_DefaultConfig :: "'x root_config" where
  "root_DefaultConfig = \<lparr>rt_Type = esKey,
     rt_Shipper = \<lparr>sh_Queue = queue_DefaultConfig,
       sh_Output = \<lparr>oc_Console = None, oc_Elasticsearch = None, oc_Kafka = None, oc_Logstash = None\<rparr>,
       sh_StrictMode = False,
       sh_Server = \<lparr>cc_Server = [], cc_TLS = \<lparr>tls_CAs = [], tls_Cert = [], tls_Key = []\<rparr>\<rparr>\<rparr>,
     rt_LogMetrics = None, rt_HTTP = None, rt_Monitoring = True\<rparr>"

section \<open>Log levels\<close>

datatype unit_log_level = UnitLogLevelError | UnitLogLevelWarn | UnitLogLevelInfo
  | UnitLogLevelDebug | UnitLogLevelTrace | UnitLogLevelOther int

datatype zap_level = DebugLevel | InfoLevel | WarnLevel | ErrorLevel

fun ZapFromUnitLogLevel :: "unit_log_level \<Rightarrow> zap_level" where
  "ZapFromUnitLogLevel UnitLogLevelInfo = InfoLevel"
| "ZapFromUnitLogLevel UnitLogLevelDebug = DebugLevel"
| "ZapFromUnitLogLevel UnitLogLevelWarn = WarnLevel"
| "ZapFromUnitLogLevel UnitLogLevelError = ErrorLevel"
| "ZapFromUnitLogLevel UnitLogLevelTrace = DebugLevel"
| "ZapFromUnitLogLevel (UnitLogLevelOther _) = InfoLevel"

section \<open>Reading the configuration\<close>

record ('src, 'raw, 'x) config_lib =
  cl_ReadFile :: "string \<Rightarrow> string result"
  cl_NewConfigWithYAML :: "string \<Rightarrow> 'raw result"
  cl_NewConfigFrom :: "'src \<Rightarrow> 'raw result"
  cl_Unpack :: "'raw \<Rightarrow> 'x root_config \<Rightarrow> ('x root_config) result"
  cl_Unpack_es :: "'raw \<Rightarrow> es_config option \<Rightarrow> (es_config option) result"
  cl_Unpack_kafka :: "'raw \<Rightarrow> 'x kafka_config option \<Rightarrow> ('x kafka_config option) result"
  cl_Unpack_console :: "'raw \<Rightarrow> bool option \<Rightarrow> (bool option) result"
  cl_Unpack_conn :: "'raw \<Rightarrow> shipper_connection_config \<Rightarrow> shipper_connection_config result"
  cl_Overwrites :: "'x root_config \<Rightarrow> ('x root_config) result"

definition ErrConfigIsNotSet :: go_error where
  "ErrConfigIsNotSet = Sentinel ''config file is not set''"

definition readConfig ::
    "('x root_config \<Rightarrow> ('x root_config) result) \<Rightarrow> ('x root_config) result" where
  "readConfig unpacker =
     (case unpacker root_DefaultConfig of
        Inl err \<Rightarrow> Inl (Wrapped ''error unpacking shipper config: '' err)
      | Inr config \<Rightarrow> Inr config)"

definition ReadConfigFromFile ::
    "('src, 'raw, 'x) config_lib \<Rightarrow> string \<Rightarrow> ('x root_config) result" where
  "ReadConfigFromFile lib configFilePath =
     (if configFilePath = [] then Inl ErrConfigIsNotSet
      else case cl_ReadFile lib configFilePath of
        Inl err \<Rightarrow> Inl (Wrapped (''error reading input file '' @ configFilePath @ '': '') err)
      | Inr contents \<Rightarrow>
          (case cl_NewConfigWithYAML lib contents of
             Inl err \<Rightarrow> Inl (Wrapped ''error reading config from yaml: '' err)
           | Inr raw \<Rightarrow> readConfig (cl_Unpack lib raw)))"

abbreviation set_output ::
    "('x output_config \<Rightarrow> 'x output_config) \<Rightarrow> 'x root_config \<Rightarrow> 'x root_config" where
  "set_output f cfg \<equiv> cfg\<lparr>rt_Shipper := (rt_Shipper cfg)\<lparr>sh_Output := f (sh_Output (rt_Shipper cfg))\<rparr>\<rparr>"

text \<open>The switch over the output type: the section of that type is unpacked from the root.\<close>

definition unpack_output ::
    "('src, 'raw, 'x) config_lib \<Rightarrow> 'raw \<Rightarrow> 'x root_config \<Rightarrow> ('x root_config) result" where
  "unpack_output lib cfg c =
     (let out = sh_Output (rt_Shipper c) in
      if rt_Type c = esKey
      then (case cl_Unpack_es lib cfg (oc_Elasticsearch out) of
              Inl err \<Rightarrow> Inl (Wrapped ''error reading elasticsearch output: '' err)
            | Inr es \<Rightarrow> Inr (set_output (\<lambda>o'. o'\<lparr>oc_Elasticsearch := es\<rparr>) c))
      else if rt_Type c = kafaKey
      then (case cl_Unpack_kafka lib cfg (oc_Kafka out) of
              Inl err \<Rightarrow> Inl (Wrapped ''error reading elasticsearch output: '' err)
            | Inr k \<Rightarrow> Inr (set_output (\<lambda>o'. o'\<lparr>oc_Kafka := k\<rparr>) c))
      else if rt_Type c = consoleKey
      then (case cl_Unpack_console lib cfg (oc_Console out) of
              Inl err \<Rightarrow> Inl (Wrapped ''error reading console output: '' err)
            | Inr con \<Rightarrow> Inr (set_output (\<lambda>o'. o'\<lparr>oc_Console := con\<rparr>) c))
      else Inl (NewError (''error, could not find output for output key '' @ quoted (rt_Type c))))"

definition ShipperConfigFromUnitConfig ::
    "('src, 'raw, 'x) config_lib \<Rightarrow> zap_level \<Rightarrow> unit_log_level \<Rightarrow> 'src \<Rightarrow>
     zap_level \<times> ('x root_config) result" where
  "ShipperConfigFromUnitConfig lib logp_level level source =
     (let zapLevel = ZapFromUnitLogLevel level;
          logp_level = (if logp_level \<noteq> zapLevel then zapLevel else logp_level)
      in (logp_level,
          case cl_NewConfigFrom lib source of
            Inl err \<Rightarrow> Inl (Wrapped ''error reading in raw map config: '' err)
          | Inr cfg \<Rightarrow>
              (case cl_Unpack lib cfg root_DefaultConfig of
                 Inl err \<Rightarrow> Inl (Wrapped ''error unpacking shipper config: '' err)
               | Inr cfgObject \<Rightarrow>
                   (case unpack_output lib cfg cfgObject of
                      Inl err \<Rightarrow> Inl err
                    | Inr cfgObject' \<Rightarrow>
                        (case cl_Overwrites lib cfgObject' of
                           Inl err \<Rightarrow> Inl (Wrapped ''error unpacking CLI overwrites: '' err)
                         | Inr c \<Rightarrow> Inr c)))))"

section \<open>Properties\<close>

text \<open>Configurations that differ at most in the section of their type.\<close>

definition same_but_section :: "'x root_config \<Rightarrow> 'x root_config \<Rightarrow> bool" where
  "same_but_section c c' \<longleftrightarrow>
     (\<exists>out. c' = c\<lparr>rt_Shipper := (rt_Shipper c)\<lparr>sh_Output := out\<rparr>\<rparr> \<and>
        (let out0 = sh_Output (rt_Shipper c) in
         out = (if rt_Type c = esKey then out0\<lparr>oc_Elasticsearch := oc_Elasticsearch out\<rparr>
                else if rt_Type c = kafaKey then out0\<lparr>oc_Kafka := oc_Kafka out\<rparr>
                else out0\<lparr>oc_Console := oc_Console out\<rparr>)))"

lemma same_but_sectionI:
  "(rt_Type c = esKey \<longrightarrow> f (sh_Output (rt_Shipper c)) = (sh_Output (rt_Shipper c))\<lparr>oc_Elasticsearch := es\<rparr>) \<Longrightarrow>
   (rt_Type c \<noteq> esKey \<longrightarrow> rt_Type c = kafaKey \<longrightarrow>
      f (sh_Output (rt_Shipper c)) = (sh_Output (rt_Shipper c))\<lparr>oc_Kafka := k\<rparr>) \<Longrightarrow>
   (rt_Type c \<noteq> esKey \<longrightarrow> rt_Type c \<noteq> kafaKey \<longrightarrow>
      f (sh_Output (rt_Shipper c)) = (sh_Output (rt_Shipper c))\<lparr>oc_Console := con\<rparr>) \<Longrightarrow>
   same_but_section c (set_output f c)"
  unfolding same_but_section_def
  by (rule exI [of _ "f (sh_Output (rt_Shipper c))"]) (auto simp: Let_def)

lemma unpack_output_Inr:
  assumes "unpack_output lib raw c0 = Inr c1"
  shows "rt_Type c0 \<in> {esKey, kafaKey, consoleKey} \<and> same_but_section c0 c1"
proof -
  consider (es) es where "rt_Type c0 = esKey" "c1 = set_output (\<lambda>o'. o'\<lparr>oc_Elasticsearch := es\<rparr>) c0"
    | (kafka) k where "rt_Type c0 \<noteq> esKey" "rt_Type c0 = kafaKey"
        "c1 = set_output (\<lambda>o'. o'\<lparr>oc_Kafka := k\<rparr>) c0"
    | (console) con where "rt_Type c0 \<noteq> esKey" "rt_Type c0 \<noteq> kafaKey" "rt_Type c0 = consoleKey"
        "c1 = set_output (\<lambda>o'. o'\<lparr>oc_Console := con\<rparr>) c0"
    using assms unfolding unpack_output_def Let_def by (auto split: if_splits sum.splits)
  then show ?thesis
    by cases (simp_all add: same_but_sectionI)
qed

lemma ShipperConfigFromUnitConfig_Inr:
  assumes "snd (ShipperConfigFromUnitConfig lib lvl level source) = Inr c"
  obtains raw c0 c1 where "cl_NewConfigFrom lib source = Inr raw"
    "cl_Unpack lib raw root_DefaultConfig = Inr c0" "unpack_output lib raw c0 = Inr c1"
    "cl_Overwrites lib c1 = Inr c"
proof -
  note d = assms [unfolded ShipperConfigFromUnitConfig_def Let_def snd_conv]
  obtain raw where raw: "cl_NewConfigFrom lib source = Inr raw"
    using d by (cases "cl_NewConfigFrom lib source") simp_all
  obtain c0 where c0: "cl_Unpack lib raw root_DefaultConfig = Inr c0"
    using d raw by (cases "cl_Unpack lib raw root_DefaultConfig") simp_all
  obtain c1 where c1: "unpack_output lib raw c0 = Inr c1"
    using d raw c0 by (cases "unpack_output lib raw c0") simp_all
  have "cl_Overwrites lib c1 = Inr c"
    using d raw c0 c1 by (cases "cl_Overwrites lib c1") simp_all
  with raw c0 c1 show thesis by (rule that)
qed

text \<open>C38: a unit's configuration sets the logger to the unit's level whatever else it holds; it is
  accepted only for the types elasticsearch, kafka and console (a logstash unit is refused), and
  then the settings passed on are the command line's overwrites applied to the unpacked
  configuration in which only the section of that type was filled in from the root level.\<close>

theorem unit_config_accepted:
  "fst (ShipperConfigFromUnitConfig lib lvl level source) = ZapFromUnitLogLevel level \<and>
   (snd (ShipperConfigFromUnitConfig lib lvl level source) = Inr c \<longrightarrow>
    (\<exists>raw c0 c1. cl_NewConfigFrom lib source = Inr raw \<and> cl_Unpack lib raw root_DefaultConfig = Inr c0 \<and>
      rt_Type c0 \<in> {esKey, kafaKey, consoleKey} \<and> same_but_section c0 c1 \<and> cl_Overwrites lib c1 = Inr c))"
proof (intro conjI impI)
  show "fst (ShipperConfigFromUnitConfig lib lvl level source) = ZapFromUnitLogLevel level"
    by (simp add: ShipperConfigFromUnitConfig_def Let_def)
  assume "snd (ShipperConfigFromUnitConfig lib lvl level source) = Inr c"
  then obtain raw c0 c1 where r: "cl_NewConfigFrom lib source = Inr raw"
      "cl_Unpack lib raw root_DefaultConfig = Inr c0" "unpack_output lib raw c0 = Inr c1"
      "cl_Overwrites lib c1 = Inr c"
    by (rule ShipperConfigFromUnitConfig_Inr)
  show "\<exists>raw c0 c1. cl_NewConfigFrom lib source = Inr raw \<and>
      cl_Unpack lib raw root_DefaultConfig = Inr c0 \<and> rt_Type c0 \<in> {esKey, kafaKey, consoleKey} \<and>
      same_but_section c0 c1 \<and> cl_Overwrites lib c1 = Inr c"
    by (intro exI conjI) (rule r unpack_output_Inr [OF r(3), THEN conjunct1] unpack_output_Inr [OF r(3), THEN conjunct2])+
qed

definition example_config_lib :: "(string, string, string) config_lib" where
  "example_config_lib = \<lparr>cl_ReadFile = \<lambda>p. Inr p, cl_NewConfigWithYAML = Inr, cl_NewConfigFrom = Inr,
     cl_Unpack = \<lambda>raw c. Inr (c\<lparr>rt_Type := raw\<rparr>), cl_Unpack_es = \<lambda>raw. Inr, cl_Unpack_kafka = \<lambda>raw. Inr,
     cl_Unpack_console = \<lambda>raw c. Inr (Some True), cl_Unpack_conn = \<lambda>raw. Inr, cl_Overwrites = Inr\<rparr>"

theorem unit_config_accepted_witness:
  "\<exists>c. snd (ShipperConfigFromUnitConfig example_config_lib InfoLevel UnitLogLevelTrace ''console'') = Inr c \<and>
     (\<exists>c0. rt_Type c0 \<in> {esKey, kafaKey, consoleKey} \<and> same_but_section c0 c)"
proof -
  let ?c = "set_output (\<lambda>o'. o'\<lparr>oc_Console := Some True\<rparr>) (root_DefaultConfig\<lparr>rt_Type := ''console''\<rparr>)"
  have "snd (ShipperConfigFromUnitConfig example_config_lib InfoLevel UnitLogLevelTrace ''console'') = Inr ?c"
    by (simp add: ShipperConfigFromUnitConfig_def Let_def example_config_lib_def unpack_output_def
        esKey_def kafaKey_def consoleKey_def)
  moreover from this unit_config_accepted [of example_config_lib InfoLevel UnitLogLevelTrace "''console''" ?c]
  obtain c0 c1 where "rt_Type c0 \<in> {esKey, kafaKey, consoleKey}" "same_but_section c0 c1"
      "cl_Overwrites example_config_lib c1 = Inr ?c" by blast
  moreover have "cl_Overwrites example_config_lib c1 = Inr c1" by (simp add: example_config_lib_def)
  ultimately show ?thesis by (metis sum.inject(2))
qed

end
