(* ===== verification/ES_Watcher.thy ===== *)
theory ES_Watcher
  imports Shipper_Prelude "HOL-Library.Multiset"
begin

text \<open>
  \<^verbatim>\<open>src/output/elasticsearch/watcher.go\<close>: the health watcher of the Elasticsearch output. Its loop
  is a state machine over the inputs \<open>FailCall\<close> (the output reports a failure), \<open>Tick\<close> (the
  monitoring ticker fires) and \<open>CtxDone\<close>. The failure counter is a 32-bit word; the loop reads it
  twice in one tick, and \<open>Tick m k\<close> says that \<open>k\<close> calls of \<open>Fail\<close> land between the two reads. The
  transport metrics come from the Elasticsearch client and are part of the input; its response
  counters are Go \<open>int\<close>s, taken as integers.
\<close>

section \<open>The watcher\<close>

datatype watch_status = WatchDegraded | WatchRecovered

type_synonym watch_report = "watch_status \<times> string"

text \<open>The transport metrics: a count for each HTTP status code, in the order the iteration over
  the Go map happens to visit them, and the number of transport failures.\<close>

record es_metrics =
  Responses :: "(int \<times> int) list"
  Failures :: int

record es_watcher =
  callbackFailCount :: i32
  failureInterval :: duration
  waitInterval :: duration
  lastTransportFail :: int
  lastResponseFailRange :: int
  lastResponseSuccessfulRange :: int
  didFail :: bool
  lastCBFail :: i32

text \<open>The constructor, and the local variables at the start of \<open>Watch\<close>.\<close>

definition newHealthWatcher :: "duration \<Rightarrow> es_watcher" where
  "newHealthWatcher interval =
     \<lparr>callbackFailCount = 0, failureInterval = interval, waitInterval = seconds 5,
      lastTransportFail = 0, lastResponseFailRange = 0, lastResponseSuccessfulRange = 0,
      didFail = False, lastCBFail = 0\<rparr>"

definition watcher_Fail :: "es_watcher \<Rightarrow> es_watcher" where
  "watcher_Fail w = w\<lparr>callbackFailCount := callbackFailCount w + 1\<rparr>"

fun returnRangeDelta :: "int \<Rightarrow> int \<Rightarrow> (int \<times> int) list \<Rightarrow> int" where
  "returnRangeDelta lo hi [] = 0"
| "returnRangeDelta lo hi ((code, val) # rs) =
     (if lo \<le> code \<and> code \<le> hi then val else 0) + returnRangeDelta lo hi rs"

text \<open>The change in the number of successful responses since the last tick, and the condition
  of the first branch: no success, but a failure of some kind.\<close>

definition respSuccessDelta :: "es_watcher \<Rightarrow> es_metrics \<Rightarrow> int" where
  "respSuccessDelta w m =
     returnRangeDelta 200 299 (Responses m) - lastResponseSuccessfulRange w"

definition only_failures :: "es_watcher \<Rightarrow> es_metrics \<Rightarrow> bool" where
  "only_failures w m =
     (let respFailDelta = returnRangeDelta 400 599 (Responses m) - lastResponseFailRange w;
          transportFailDelta = Failures m - lastTransportFail w;
          cbFails = callbackFailCount w - lastCBFail w
      in respSuccessDelta w m = 0 \<and>
         (0 < sint cbFails \<or> 0 < transportFailDelta \<or> 0 < respFailDelta))"

definition watch_tick ::
    "es_watcher \<Rightarrow> es_metrics result \<Rightarrow> nat \<Rightarrow> es_watcher \<times> watch_report list" where
  "watch_tick w metrics k =
     (case metrics of
        Inl err \<Rightarrow> (w, [])
      | Inr m \<Rightarrow>
          (let failed = (didFail w \<or> only_failures w m);
               recovered = (failed \<and> 0 < respSuccessDelta w m);
               w' = (watcher_Fail ^^ k) w
           in (w'\<lparr>lastTransportFail := Failures m,
                  lastResponseFailRange := returnRangeDelta 400 599 (Responses m),
                  lastResponseSuccessfulRange := returnRangeDelta 200 299 (Responses m),
                  lastCBFail := callbackFailCount w',
                  didFail := failed \<and> \<not> recovered\<rparr>,
               (if only_failures w m then [(WatchDegraded, ''Degraded: no responses from ES'')]
                else []) @
               (if recovered then [(WatchRecovered, ''ES is sending events'')] else []))))"

datatype watch_input = FailCall | Tick "es_metrics result" nat | CtxDone

fun Watch :: "es_watcher \<Rightarrow> watch_input list \<Rightarrow> es_watcher \<times> watch_report list" where
  "Watch w [] = (w, [])"
| "Watch w (CtxDone # is) = (w, [])"
| "Watch w (FailCall # is) = Watch (watcher_Fail w) is"
| "Watch w (Tick m k # is) =
     (case watch_tick w m k of
        (w', rs) \<Rightarrow> (case Watch w' is of (w'', rs') \<Rightarrow> (w'', rs @ rs')))"

section \<open>Properties\<close>

lemma returnRangeDelta_sum:
  "returnRangeDelta lo hi rs =
     sum_list (map snd (filter (\<lambda>(code, val). lo \<le> code \<and> code \<le> hi) rs))"
  by (induction lo hi rs rule: returnRangeDelta.induct) auto

text \<open>Go visits a map in no particular order, which does not matter here.\<close>

lemma returnRangeDelta_order:
  assumes "mset rs = mset rs'"
  shows "returnRangeDelta lo hi rs = returnRangeDelta lo hi rs'"
proof -
  have "sum_list (map snd (filter P rs)) = sum_list (map snd (filter P rs'))"
    for P :: "int \<times> int \<Rightarrow> bool"
    using assms by (metis mset_filter mset_map sum_mset_sum_list)
  then show ?thesis by (simp add: returnRangeDelta_sum)
qed

lemma watcher_Fail_iter:
  "(watcher_Fail ^^ k) w = w\<lparr>callbackFailCount := callbackFailCount w + word_of_nat k\<rparr>"
  by (induction k) (simp_all add: watcher_Fail_def add.assoc add.commute)

text \<open>A report of recovery is only made in the degraded state; \<open>d\<close> says whether the watcher is
  in that state before the first report.\<close>

fun alternates :: "bool \<Rightarrow> watch_status list \<Rightarrow> bool" where
  "alternates d [] = True"
| "alternates d (WatchDegraded # rs) = alternates True rs"
| "alternates d (WatchRecovered # rs) = (d \<and> alternates False rs)"

fun ends_degraded :: "bool \<Rightarrow> watch_status list \<Rightarrow> bool" where
  "ends_degraded d [] = d"
| "ends_degraded d (r # rs) = ends_degraded (r = WatchDegraded) rs"

lemma alternates_append:
  "alternates d (rs @ rs') \<longleftrightarrow> alternates d rs \<and> alternates (ends_degraded d rs) rs'"
  by (induction d rs rule: alternates.induct) auto

lemma ends_degraded_append: "ends_degraded d (rs @ rs') = ends_degraded (ends_degraded d rs) rs'"
  by (induction rs arbitrary: d) auto

lemma only_failures_no_success: "only_failures w m \<Longrightarrow> respSuccessDelta w m = 0"
  by (simp add: only_failures_def Let_def)

lemma watch_tick_alternates:
  assumes "watch_tick w m k = (w', rs)"
  shows "alternates (didFail w) (map fst rs) \<and> didFail w' = ends_degraded (didFail w) (map fst rs)"
proof (cases m)
  case (Inr m')
  with assms show ?thesis
    using only_failures_no_success [of w m']
    by (cases "only_failures w m'"; cases "didFail w"; cases "0 < respSuccessDelta w m'")
      (auto simp: watch_tick_def Let_def)
qed (use assms in \<open>auto simp: watch_tick_def\<close>)

lemma Watch_alternates:
  assumes "Watch w is = (w', rs)"
  shows "alternates (didFail w) (map fst rs) \<and> didFail w' = ends_degraded (didFail w) (map fst rs)"
  using assms
proof (induction w "is" arbitrary: w' rs rule: Watch.induct)
  case (3 w "is")
  then show ?case by (simp add: watcher_Fail_def)
next
  case (4 w m k "is")
  obtain w1 rs1 where t: "watch_tick w m k = (w1, rs1)" by fastforce
  obtain w2 rs2 where r: "Watch w1 is = (w2, rs2)" by fastforce
  have "w' = w2" and "rs = rs1 @ rs2"
    using "4.prems" t r by simp_all
  moreover have "alternates (didFail w1) (map fst rs2) \<and> didFail w2 = ends_degraded (didFail w1) (map fst rs2)"
    using t r by (intro "4.IH") auto
  ultimately show ?case
    using watch_tick_alternates [OF t] by (simp add: alternates_append ends_degraded_append)
qed auto

text \<open>Whatever the ticks, failures and metrics, a new watcher reports a recovery only right
  after it reported a degradation, and its \<open>didFail\<close> flag says at every end of the loop whether
  the last report was a degradation.\<close>

theorem watcher_reports_alternate:
  "case Watch (newHealthWatcher interval) is of
     (w, reports) \<Rightarrow> alternates False (map fst reports) \<and>
       (didFail w \<longleftrightarrow> reports \<noteq> [] \<and> fst (last reports) = WatchDegraded)"
proof -
  obtain w reports where run: "Watch (newHealthWatcher interval) is = (w, reports)"
    by fastforce
  have "didFail (newHealthWatcher interval) = False"
    by (simp add: newHealthWatcher_def)
  moreover have "ends_degraded False rs \<longleftrightarrow> rs \<noteq> [] \<and> last rs = WatchDegraded" for rs
    by (induction rs rule: rev_induct) (simp_all add: ends_degraded_append)
  ultimately show ?thesis
    using Watch_alternates [OF run] by (simp add: run last_map cong: conj_cong)
qed

text \<open>A tick in which no request succeeded since the last one and the output reported between
  1 and \<open>2^31 - 1\<close> failures reports that the output is degraded, and a tick in which a request
  succeeded never does.\<close>

theorem watcher_tick_detects:
  fixes w :: es_watcher and n k :: nat and m :: es_metrics
  defines "w1 \<equiv> (watcher_Fail ^^ n) (w\<lparr>lastCBFail := callbackFailCount w\<rparr>)"
    and "delta \<equiv> returnRangeDelta 200 299 (Responses m) - lastResponseSuccessfulRange w"
  assumes "0 < n" and "n < 2 ^ 31"
  shows "(delta = 0 \<longrightarrow> (WatchDegraded, ''Degraded: no responses from ES'') \<in> set (snd (watch_tick w1 (Inr m) k))) \<and>
    (0 < delta \<longrightarrow> WatchDegraded \<notin> fst ` set (snd (watch_tick w1 (Inr m) k)))"
proof -
  have "sint (word_of_nat n :: i32) = int n"
    using sint_of_int_bounded [where 'a = 32, of "int n"] assms(4) by simp
  then have "0 < sint (callbackFailCount w1 - lastCBFail w1)"
    using assms(3) by (simp add: w1_def watcher_Fail_iter)
  then have "delta = 0 \<Longrightarrow> only_failures w1 m" and "respSuccessDelta w1 m = delta"
    by (simp_all add: only_failures_def respSuccessDelta_def delta_def w1_def watcher_Fail_iter)
  then show ?thesis
    using only_failures_no_success [of w1 m] by (auto simp: watch_tick_def Let_def)
qed

theorem watcher_tick_detects_witness:
  "(WatchDegraded, ''Degraded: no responses from ES'') \<in>
     set (snd (watch_tick ((watcher_Fail ^^ 2) ((newHealthWatcher 30)\<lparr>lastCBFail := 0\<rparr>))
       (Inr \<lparr>Responses = [(500, 3)], Failures = 0\<rparr>) 0))"
  using watcher_tick_detects [of 2 "\<lparr>Responses = [(500, 3)], Failures = 0\<rparr>" "newHealthWatcher 30" 0]
  by (simp add: newHealthWatcher_def)

text \<open>The loop reads the failure counter twice in a tick, and failures reported between the
  two reads are never seen: after such a tick, the next tick with unchanged metrics reports
  nothing, however many failures there were.\<close>

theorem watcher_loses_failures:
  "snd (watch_tick (fst (watch_tick w (Inr m) k)) (Inr m) k') = []"
proof -
  let ?w = "fst (watch_tick w (Inr m) k)"
  have "respSuccessDelta ?w m = 0" and "\<not> only_failures ?w m"
    by (simp_all add: watch_tick_def only_failures_def respSuccessDelta_def Let_def watcher_Fail_iter)
  then show ?thesis
    by (simp add: watch_tick_def [of ?w] Let_def)
qed

end
