(* ===== verification/ES_Output.thy ===== *)
theory ES_Output
  imports Shipper_Queue ES_Config ES_Watcher Messages
begin

text \<open>
  \<^verbatim>\<open>src/output/elasticsearch/output.go\<close> and \<^verbatim>\<open>event.go\<close>: the serialization of an event, the
  processing of a batch, the output loop with its wait group, and \<open>Start\<close>. The Elasticsearch client
  and the bulk indexer are third-party: their constructors are parameters, and so is what becomes
  of an item handed to the indexer (\<open>add_answer\<close>: refused by \<open>Add\<close>, or accepted and later
  concluded by exactly one of the two callbacks). A batch is processed into the list of the
  effects it has; the callbacks of an accepted item are listed right after its \<open>Add\<close>, which
  changes no total.
\<close>

section \<open>Serialization\<close>

text \<open>
  The members an event writes into its JSON object, with a comma between fields. The formatting
  of the timestamp and the encoding of a value are library code.
\<close>

fun marshal_fields :: "('v \<Rightarrow> string result) \<Rightarrow> bool \<Rightarrow> 'v struct_msg \<Rightarrow> string result" where
  "marshal_fields mv beginning [] = Inr ''''"
| "marshal_fields mv beginning ((key, val) # fs) =
     (case mv val of
        Inl e \<Rightarrow> Inl (Wrapped ''error marshaling value in map: '' e)
      | Inr s \<Rightarrow>
          (case marshal_fields mv False fs of
             Inl e \<Rightarrow> Inl e
           | Inr rest \<Rightarrow>
               Inr ((if beginning then '''' else '','') @ ''\"'' @ key @ ''\":'' @ s @ rest)))"

definition MarshalFastJSON ::
    "('t option \<Rightarrow> string) \<Rightarrow> ('v \<Rightarrow> string result) \<Rightarrow> 't option \<Rightarrow> 'v struct_msg option \<Rightarrow>
     string result" where
  "MarshalFastJSON ft mv timestamp flds =
     (let start = ''{'' @ ''\"@timestamp\":'' @ ''\"'' @ ft timestamp @ ''\"'' in
      case flds of
        None \<Rightarrow> Inr (start @ ''}'')
      | Some data \<Rightarrow>
          (case marshal_fields mv True data of
             Inl e \<Rightarrow> Inl e
           | Inr s \<Rightarrow> Inr (start @ '','' @ s @ ''}'')))"

definition serializeEvent ::
    "('t option \<Rightarrow> string) \<Rightarrow> ('v \<Rightarrow> string result) \<Rightarrow> ('t, 'v) event \<Rightarrow> string result" where
  "serializeEvent ft mv e =
     (case MarshalFastJSON ft mv (ev_Timestamp e) (ev_Fields e) of
        Inl err \<Rightarrow> Inl (Wrapped ''error marshalling event to json: '' err)
      | Inr s \<Rightarrow> Inr s)"

section \<open>Processing a batch\<close>

record bulk_item =
  bi_Action :: string
  bi_Index :: string
  bi_Body :: string

datatype add_answer = Refused go_error | Succeeds | Fails

datatype es_effect = HealthFail | CallAdd bulk_item | CallDone u64

definition es_item :: "('v \<Rightarrow> string) \<Rightarrow> ('t, 'v) event \<Rightarrow> string \<Rightarrow> bulk_item" where
  "es_item GetStringValue e serialized =
     \<lparr>bi_Action = (case metadata_field e ''op_type'' of None \<Rightarrow> ''create'' | Some v \<Rightarrow> GetStringValue v),
      bi_Index = (case metadata_field e ''raw_index'' of None \<Rightarrow> '''' | Some v \<Rightarrow> GetStringValue v),
      bi_Body = serialized\<rparr>"

definition es_event_effects ::
    "(('t, 'v) event \<Rightarrow> string result) \<Rightarrow> ('v \<Rightarrow> string) \<Rightarrow> ('t, 'v) event \<Rightarrow> add_answer \<Rightarrow>
     es_effect list" where
  "es_event_effects ser GetStringValue e answer =
     (case ser e of
        Inl err \<Rightarrow> [HealthFail]
      | Inr serialized \<Rightarrow>
          CallAdd (es_item GetStringValue e serialized) #
          (case answer of
             Succeeds \<Rightarrow> [CallDone 1]
           | Fails \<Rightarrow> [HealthFail, CallDone 1]
           | Refused _ \<Rightarrow> [HealthFail, CallDone 1]))"

text \<open>The events of a batch in turn; the i-th one gets the i-th answer of the indexer.\<close>

fun es_batch_effects ::
    "(('t, 'v) event \<Rightarrow> string result) \<Rightarrow> ('v \<Rightarrow> string) \<Rightarrow> (nat \<Rightarrow> add_answer) \<Rightarrow> nat \<Rightarrow>
     ('t, 'v) event option list \<Rightarrow> es_effect list" where
  "es_batch_effects ser gsv answer i [] = []"
| "es_batch_effects ser gsv answer i (p # ps) =
     es_event_effects ser gsv (deref p) (answer i) @ es_batch_effects ser gsv answer (Suc i) ps"

fun done_counts :: "es_effect list \<Rightarrow> u64 list" where
  "done_counts [] = []"
| "done_counts (CallDone n # es) = n # done_counts es"
| "done_counts (_ # es) = done_counts es"

section \<open>The output\<close>

text \<open>
  The output loop: it starts with one count on the wait group, adds one for every batch, which
  the batch's completion callback releases, and releases its own when \<open>Get\<close> fails. The batches
  are those \<open>Get\<close> returned before that; the result is the wait group once the loop has ended and
  every callback has run.
\<close>

definition es_process_batch ::
    "(('t, 'v) event \<Rightarrow> string result) \<Rightarrow> ('v \<Rightarrow> string) \<Rightarrow> (nat \<Rightarrow> add_answer) \<Rightarrow>
     (('t, 'v) event, unit) wrapped_batch \<Rightarrow> unit done_effect list" where
  "es_process_batch ser gsv answer w =
     snd (done_run (w\<lparr>CompletionCallback := Some ()\<rparr>)
       (done_counts (es_batch_effects ser gsv answer 0 (WrappedBatch_Events w))))"

fun es_loop ::
    "(('t, 'v) event \<Rightarrow> string result) \<Rightarrow> ('v \<Rightarrow> string) \<Rightarrow> (nat \<Rightarrow> nat \<Rightarrow> add_answer) \<Rightarrow> int \<Rightarrow>
     (('t, 'v) event, unit) wrapped_batch list \<Rightarrow> int" where
  "es_loop ser gsv answers wg [] = wg - 1"
| "es_loop ser gsv answers wg (w # ws) =
     es_loop ser gsv (\<lambda>n. answers (Suc n))
       (wg + 1 - int (count_if (\<lambda>e. e = RunCallback ()) (es_process_batch ser gsv (answers 0) w))) ws"

record bulk_indexer_config =
  bic_Index :: string
  bic_Timeout :: duration
  bic_NumWorkers :: i64
  bic_FlushBytes :: i64
  bic_FlushInterval :: duration

record ('cl, 'bi) es_output =
  eo_config :: es_config
  eo_client :: "'cl option"
  eo_bulkIndexer :: "'bi option"
  eo_healthWatcher :: "es_watcher option"
  eo_watchCancel :: bool
  eo_wg :: int

definition NewElasticSearch :: "es_config \<Rightarrow> ('cl, 'bi) es_output" where
  "NewElasticSearch c =
     \<lparr>eo_config = (if es_DegradedTimeout c = 0 then c\<lparr>es_DegradedTimeout := seconds 30\<rparr> else c),
      eo_client = None, eo_bulkIndexer = None, eo_healthWatcher = None, eo_watchCancel = False, eo_wg = 0\<rparr>"

definition es_indexer_config :: "es_config \<Rightarrow> bulk_indexer_config" where
  "es_indexer_config c =
     \<lparr>bic_Index = ''elastic-agent-shipper-test'', bic_Timeout = seconds 30,
      bic_NumWorkers = es_NumWorkers c, bic_FlushBytes = es_BatchSize c,
      bic_FlushInterval = es_FlushTimeout c\<rparr>"

text \<open>\<open>Start\<close> up to the moment the output goroutine runs \<open>es_loop\<close>.\<close>

definition es_Start ::
    "i64 \<Rightarrow> (es_client_config \<Rightarrow> 'cl result) \<Rightarrow> ('cl \<Rightarrow> bulk_indexer_config \<Rightarrow> 'bi result) \<Rightarrow>
     ('cl, 'bi) es_output \<Rightarrow> ('cl, 'bi) es_output \<times> go_error option" where
  "es_Start NumCPU NewClient NewBulkIndexer es =
     (case NewClient (esConfig NumCPU (eo_config es)) of
        Inl err \<Rightarrow> (es, Some err)
      | Inr client \<Rightarrow>
          (case NewBulkIndexer client (es_indexer_config (eo_config es)) of
             Inl err \<Rightarrow> (es, Some err)
           | Inr bi \<Rightarrow>
               (es\<lparr>eo_client := Some client, eo_bulkIndexer := Some bi,
                   eo_watchCancel := True,
                   eo_healthWatcher := Some (newHealthWatcher (es_DegradedTimeout (eo_config es))),
                   eo_wg := eo_wg es + 1\<rparr>, None)))"

text \<open>\<open>Wait\<close>: whether it cancels the context of the watcher, and whether it returns, which it does exactly
  when the count of the wait group is zero.\<close>

definition es_Wait :: "('cl, 'bi) es_output \<Rightarrow> bool \<times> bool" where
  "es_Wait es = (eo_watchCancel es, eo_wg es = 0)"

section \<open>Properties of the serialization\<close>


text \<open>The errors of the values that do not encode, in the order in which the fields are visited.\<close>

definition value_errors :: "('v \<Rightarrow> string result) \<Rightarrow> 'v struct_msg \<Rightarrow> go_error list" where
  "value_errors mv data = concat (map (\<lambda>(k, v). case mv v of Inl err \<Rightarrow> [err] | Inr t \<Rightarrow> []) data)"

lemma value_errors_simps [simp]:
  "value_errors mv [] = []"
  "value_errors mv ((k, v) # data) = (case mv v of Inl err \<Rightarrow> err # value_errors mv data | Inr t \<Rightarrow> value_errors mv data)"
  by (simp_all add: value_errors_def split: sum.split)




section \<open>Properties of the batch processing\<close>

lemma done_counts_append: "done_counts (es @ es') = done_counts es @ done_counts es'"
  by (induction es rule: done_counts.induct) auto

lemma done_counts_event:
  "done_counts (es_event_effects ser gsv e answer) = (case ser e of Inl _ \<Rightarrow> [] | Inr _ \<Rightarrow> [1])"
  by (simp add: es_event_effects_def split: sum.splits add_answer.splits)

lemma done_counts_batch:
  "done_counts (es_batch_effects ser gsv answer i (map Some es)) =
     replicate (count_if (\<lambda>e. \<exists>s. ser e = Inr s) es) 1"
  by (induction es arbitrary: i)
    (auto simp: done_counts_append done_counts_event split: sum.splits)

lemma acks_exactly_ones: "0 < n \<Longrightarrow> acks_exactly n (replicate n 1)"
  by (simp add: acks_exactly_def sum_list_replicate)

definition es_dones ::
    "(('t, 'v) event \<Rightarrow> string result) \<times> ('v \<Rightarrow> string) \<times> (nat \<Rightarrow> add_answer) \<Rightarrow>
     ('t, 'v) event list \<Rightarrow> u64 list" where
  "es_dones = (\<lambda>(ser, gsv, answer) es. done_counts (es_batch_effects ser gsv answer 0 (map Some es)))"

definition es_serves ::
    "(('t, 'v) event \<Rightarrow> string result) \<times> ('v \<Rightarrow> string) \<times> (nat \<Rightarrow> add_answer) \<Rightarrow>
     ('t, 'v) event list \<Rightarrow> bool" where
  "es_serves = (\<lambda>(ser, gsv, answer) es. \<forall>e \<in> set es. \<exists>s. ser e = Inr s)"

interpretation es_acks: acknowledging_output es_dones es_serves
proof
  fix s :: "(('t, 'v) event \<Rightarrow> string result) \<times> ('v \<Rightarrow> string) \<times> (nat \<Rightarrow> add_answer)"
    and es :: "('t, 'v) event list"
  assume "es_serves s es" and "es \<noteq> []"
  then show "acks_exactly (length es) (es_dones s es)"
    by (auto simp: es_serves_def es_dones_def done_counts_batch acks_exactly_ones
        cong: filter_cong split: prod.splits)
qed

lemma fresh_batch_callback: "fresh_batch (w\<lparr>CompletionCallback := cb\<rparr>) es = fresh_batch w es"
  by (simp add: fresh_batch_def)

lemma es_process_batch_dones:
  assumes "fresh_batch w es"
  shows "es_process_batch ser gsv answer w =
    snd (done_run (w\<lparr>CompletionCallback := Some ()\<rparr>) (es_dones (ser, gsv, answer) es))"
  using assms by (simp add: es_process_batch_def es_dones_def WrappedBatch_Events_entries fresh_batch_def)

lemma es_process_batch_incomplete:
  assumes "fresh_batch w es" and "\<not> es_serves (ser, gsv, answer) es"
  shows "es_process_batch ser gsv answer w = []"
proof -
  let ?n = "count_if (\<lambda>e. \<exists>s. ser e = Inr s) es"
  from assms(2) obtain e where "e \<in> set es" "\<not> (\<exists>s. ser e = Inr s)"
    by (auto simp: es_serves_def)
  then have "?n < length es"
    by (rule length_filter_less)
  moreover have "doneCount w = 0" and "length es < 2 ^ 63"
    and "batch_Count (wb_batch w) = length es"
    using assms(1) by (simp_all add: fresh_batch_def batch_Count_def)
  ultimately have "snd (done_run (w\<lparr>CompletionCallback := Some ()\<rparr>) (replicate ?n 1)) = []"
    using done_run_below [of "w\<lparr>CompletionCallback := Some ()\<rparr>" "replicate ?n 1"]
    by (simp add: sum_list_replicate)
  then show ?thesis
    using assms(1) by (simp add: es_process_batch_dones es_dones_def done_counts_batch)
qed

lemma es_process_batch_result:
  assumes "fresh_batch w es"
  shows "es_process_batch ser gsv answer w =
    (if es_serves (ser, gsv, answer) es then completion (w\<lparr>CompletionCallback := Some ()\<rparr>) else [])"
proof (cases "es_serves (ser, gsv, answer) es")
  case True
  then have "snd (done_run (w\<lparr>CompletionCallback := Some ()\<rparr>) (es_dones (ser, gsv, answer) es)) =
      completion (w\<lparr>CompletionCallback := Some ()\<rparr>)"
    using assms by (intro es_acks.fresh_batch_completed) (simp_all add: fresh_batch_callback)
  with True assms show ?thesis
    by (simp add: es_process_batch_dones)
qed (simp add: es_process_batch_incomplete [OF assms])

text \<open>The Elasticsearch output completes a batch it got from the queue exactly when every event
  of it could be serialized, whatever the bulk indexer answers: then the batch is acknowledged
  to the queue once and the wait group is released once. If one event of the batch cannot be
  serialized, the batch is never acknowledged.\<close>

theorem es_batch_completes_iff_serializable:
  assumes "fresh_batch w es"
  shows "es_process_batch ser gsv answer w =
    (if \<forall>e \<in> set es. \<exists>s. ser e = Inr s then [BatchDone (batch_id (wb_batch w)), RunCallback ()]
     else [])"
  by (simp add: es_process_batch_result [OF assms] es_serves_def completion_def)

definition sample_batch :: "'e list \<Rightarrow> ('e, unit) wrapped_batch" where
  "sample_batch es =
     \<lparr>wb_batch = \<lparr>batch_id = 1, batch_entries = map Some es\<rparr>, doneCount = 0, CompletionCallback = None\<rparr>"

theorem es_batch_completes_iff_serializable_witness:
  "es_process_batch (serializeEvent (\<lambda>_. ''T'') Inr) (\<lambda>v. v) (\<lambda>_. Fails)
     (sample_batch [nil_event :: (nat, string) event, nil_event]) = [BatchDone 1, RunCallback ()]"
  using es_batch_completes_iff_serializable
    [of "sample_batch [nil_event :: (nat, string) event, nil_event]" "[nil_event, nil_event]"
      "serializeEvent (\<lambda>_. ''T'') Inr" "\<lambda>v. v" "\<lambda>_. Fails"]
  by (simp add: sample_batch_def fresh_batch_def serializeEvent_def MarshalFastJSON_def nil_event_def)

lemma es_loop_count:
  assumes "list_all2 fresh_batch ws ess"
  shows "es_loop ser gsv answers wg ws =
    wg - 1 + int (count_if (\<lambda>es. \<exists>e \<in> set es. \<forall>s. ser e \<noteq> Inr s) ess)"
  using assms
proof (induction arbitrary: wg answers rule: list_all2_induct)
  case (Cons w ws es ess)
  then show ?case
    by (auto simp: es_process_batch_result es_serves_def completion_def)
qed simp

text \<open>An Elasticsearch output that was started and has worked through its batches after the queue was
  closed: when every callback has run, \<open>Wait\<close> cancels the health watcher, and returns exactly if no batch
  had an event that could not be serialized; otherwise it blocks forever.\<close>

theorem es_wait_blocked_by_unserializable:
  assumes "es_Start NumCPU NewClient NewBulkIndexer (NewElasticSearch c) = (out, None)"
    and "list_all2 fresh_batch ws ess"
  shows "es_Wait (out\<lparr>eo_wg := es_loop ser gsv answers (eo_wg out) ws\<rparr>) =
    (True, \<forall>es \<in> set ess. \<forall>e \<in> set es. \<exists>s. ser e = Inr s)"
proof -
  from assms(1) have "eo_watchCancel out" "eo_wg out = 1"
    by (auto simp: es_Start_def NewElasticSearch_def split: sum.splits)
  then show ?thesis
    by (auto simp: es_Wait_def es_loop_count [OF assms(2)] filter_empty_conv)
qed

definition zero_es_config :: es_config where
  "zero_es_config = \<lparr>es_Enabled = True, es_Hosts = [], es_Username = [], es_Password = [],
     es_Backoff = \<lparr>Backoff_Init = 0, Backoff_Max = 0\<rparr>, es_MaxRetries = 0, es_RetryOnHTTPStatus = [],
     es_TransportTLS = None, es_NumWorkers = 0, es_BatchSize = 0, es_FlushTimeout = 0, es_DegradedTimeout = 0\<rparr>"

definition example_es_output :: "(unit, unit) es_output" where
  "example_es_output = fst (es_Start 4 (\<lambda>_. Inr ()) (\<lambda>_ _. Inr ()) (NewElasticSearch zero_es_config))"

theorem es_wait_blocked_by_unserializable_witness:
  "es_Wait (example_es_output\<lparr>eo_wg := es_loop (serializeEvent (\<lambda>_. ''T'') (\<lambda>_ :: string. Inl (NewError ''bad value''))) (\<lambda>v. v)
     (\<lambda>_ _. Succeeds) (eo_wg example_es_output)
     [sample_batch [nil_event :: (nat, string) event],
      sample_batch [nil_event\<lparr>ev_Fields := Some [(''k'', ''v'')]\<rparr>]]\<rparr>) = (True, False)"
proof -
  have started: "es_Start 4 (\<lambda>_. Inr ()) (\<lambda>_ _. Inr ()) (NewElasticSearch zero_es_config) = (example_es_output, None)"
    by (simp add: example_es_output_def es_Start_def)
  have fresh: "list_all2 fresh_batch [sample_batch [nil_event :: (nat, string) event],
      sample_batch [nil_event\<lparr>ev_Fields := Some [(''k'', ''v'')]\<rparr>]]
      [[nil_event], [nil_event\<lparr>ev_Fields := Some [(''k'', ''v'')]\<rparr>]]"
    by (simp add: sample_batch_def fresh_batch_def)
  show ?thesis
    unfolding es_wait_blocked_by_unserializable [OF started fresh]
    by (simp add: serializeEvent_def MarshalFastJSON_def nil_event_def)
qed

text \<open>\<open>Start\<close> reports the error of a client or an indexer that cannot be created and then leaves
  the output as it was; otherwise it starts the watcher with the degraded timeout, which is never
  zero, takes one count of the wait group, and gives the bulk indexer the configured values for
  workers, batch size and flush interval, without the defaults of \<open>addDefaults\<close>.\<close>

theorem es_Start_result:
  "case es_Start NumCPU NewClient NewBulkIndexer (NewElasticSearch c) of
     (out, Some err) \<Rightarrow> out = NewElasticSearch c \<and>
       (NewClient (esConfig NumCPU (eo_config out)) = Inl err \<or>
        (\<exists>cl. NewBulkIndexer cl (es_indexer_config (eo_config out)) = Inl err))
   | (out, None) \<Rightarrow> eo_wg out = 1 \<and>
       (\<exists>cl bi w. eo_client out = Some cl \<and> eo_bulkIndexer out = Some bi \<and>
          NewClient (esConfig NumCPU (eo_config out)) = Inr cl \<and>
          NewBulkIndexer cl \<lparr>bic_Index = ''elastic-agent-shipper-test'', bic_Timeout = seconds 30,
              bic_NumWorkers = es_NumWorkers c, bic_FlushBytes = es_BatchSize c,
              bic_FlushInterval = es_FlushTimeout c\<rparr> = Inr bi \<and>
          eo_healthWatcher out = Some w \<and> failureInterval w \<noteq> 0)"
  by (auto simp: es_Start_def NewElasticSearch_def es_indexer_config_def newHealthWatcher_def
      split: sum.splits)

end
