(* ===== verification/Kafka_Client.thy ===== *)
theory Kafka_Client
  imports Kafka_Config Messages "HOL-Library.Multiset"
begin

text \<open>
  \<^verbatim>\<open>src/output/kafka/client.go\<close>, \<^verbatim>\<open>message.go\<close>, \<^verbatim>\<open>util.go\<close> and \<^verbatim>\<open>kafka.go\<close>: the Kafka client. A call
  of \<open>publishEvents\<close> hands messages to Sarama's asynchronous producer and waits until each event
  was dropped, confirmed or refused; confirmations and refusals come back on two channels, read by
  two workers. What happens during one call is a sequence of steps: an event dropped before
  sending, or an answer of the producer; the sequence is an input, so every interleaving and every
  order of answers is covered. Selecting a topic, encoding, formatting keys and the producer
  itself belong to libraries.
\<close>

section \<open>Events and messages\<close>

record ('ts, 'm) beat_event =
  be_Timestamp :: 'ts
  be_Meta :: 'm
  be_Fields :: 'm

definition beatsEventForProto ::
    "('t option \<Rightarrow> 'ts) \<Rightarrow> ('v struct_msg option \<Rightarrow> 'm) \<Rightarrow> ('t, 'v) event option \<Rightarrow> ('ts, 'm) beat_event" where
  "beatsEventForProto AsTime AsMap e =
     \<lparr>be_Timestamp = AsTime (ev_Timestamp (deref e)), be_Meta = AsMap (ev_Metadata (deref e)),
      be_Fields = AsMap (ev_Fields (deref e))\<rparr>"

text \<open>The client. The selector, the key format and the codec are functions of the libraries;
  \<open>kc_wg\<close> counts the running workers and \<open>kc_done\<close> tells whether the channel \<open>done\<close> is closed.\<close>

record ('x, 'ts, 'm) kafka_client =
  kc_hosts :: "string list"
  kc_topic :: "('ts, 'm) beat_event \<Rightarrow> string result"
  kc_key :: "(('ts, 'm) beat_event \<Rightarrow> string result) option"
  kc_index :: string
  kc_codec :: "string \<Rightarrow> ('ts, 'm) beat_event \<Rightarrow> string result"
  kc_config :: "'x sarama_config"
  kc_done :: bool
  kc_recordHeaders :: "(string \<times> string) list"
  kc_asyncProducer :: bool
  kc_wg :: nat

definition newKafkaClient ::
    "string list \<Rightarrow> string \<Rightarrow> (('ts, 'm) beat_event \<Rightarrow> string result) option \<Rightarrow>
     (('ts, 'm) beat_event \<Rightarrow> string result) \<Rightarrow> kafka_header list \<Rightarrow>
     (string \<Rightarrow> ('ts, 'm) beat_event \<Rightarrow> string result) \<Rightarrow> 'x sarama_config \<Rightarrow> ('x, 'ts, 'm) kafka_client" where
  "newKafkaClient hosts index key topic headers writer cfg =
     \<lparr>kc_hosts = hosts, kc_topic = topic, kc_key = key, kc_index = strings_ToLower index,
      kc_codec = writer, kc_config = cfg, kc_done = False,
      kc_recordHeaders = map (\<lambda>h. (hd_Key h, hd_Value h)) (filter (\<lambda>h. hd_Key h \<noteq> []) headers),
      kc_asyncProducer = False, kc_wg = 0\<rparr>"

text \<open>\<open>NewAsyncProducer\<close> either fails or gives a producer, whose two workers are then started.\<close>

definition Client_Connect ::
    "(string list \<Rightarrow> 'x sarama_config \<Rightarrow> go_error option) \<Rightarrow> ('x, 'ts, 'm) kafka_client \<Rightarrow>
     ('x, 'ts, 'm) kafka_client \<times> go_error option" where
  "Client_Connect NewAsyncProducer c =
     (case NewAsyncProducer (kc_hosts c) (kc_config c) of
        Some err \<Rightarrow> (c, Some err)
      | None \<Rightarrow> (c\<lparr>kc_asyncProducer := True, kc_wg := kc_wg c + 2\<rparr>, None))"

text \<open>\<open>Close\<close>: closing the channel twice panics. Closing the producer ends both workers, for which
  the call waits.\<close>

definition Client_Close :: "('x, 'ts, 'm) kafka_client \<Rightarrow> (('x, 'ts, 'm) kafka_client) outcome" where
  "Client_Close c =
     (if \<not> kc_asyncProducer c then Return c
      else if kc_done c then Panic ''close of closed channel''
      else Return (c\<lparr>kc_done := True, kc_wg := kc_wg c - 2, kc_asyncProducer := False\<rparr>))"

definition Client_String :: "('x, 'ts, 'm) kafka_client \<Rightarrow> string" where
  "Client_String c = ''kafka('' @ strings_Join (kc_hosts c) '','' @ '')''"

definition errNoTopicsSelected :: go_error where
  "errNoTopicsSelected = Sentinel ''no topic could be selected''"

text \<open>The functions of other packages that turn an event into a message.\<close>

record ('x, 't, 'v, 'ts, 'm) event_lib =
  el_AsTime :: "'t option \<Rightarrow> 'ts"
  el_AsMap :: "'v struct_msg option \<Rightarrow> 'm"
  el_IsAtLeast_0_10 :: "'x \<Rightarrow> bool"

definition getEventMessage ::
    "('x, 't, 'v, 'ts, 'm) event_lib \<Rightarrow> ('x, 'ts, 'm) kafka_client \<Rightarrow> ('t, 'v) event option \<Rightarrow>
     ((('t, 'v) event option, 'ts) message) result" where
  "getEventMessage lib c data =
     (let beatsEvent = beatsEventForProto (el_AsTime lib) (el_AsMap lib) data in
      case kc_topic c beatsEvent of
        Inl err \<Rightarrow> Inl (Wrapped ''setting kafka topic failed with '' err)
      | Inr topic \<Rightarrow>
          if topic = [] then Inl errNoTopicsSelected
          else (case kc_codec c (kc_index c) beatsEvent of
                  Inl err \<Rightarrow> Inl err
                | Inr serializedEvent \<Rightarrow>
                    Inr \<lparr>km_topic = topic,
                         km_key = (case kc_key c of
                                     None \<Rightarrow> None
                                   | Some RunBytes \<Rightarrow>
                                       (case RunBytes beatsEvent of Inl _ \<Rightarrow> None | Inr key \<Rightarrow> Some key)),
                         km_value = serializedEvent,
                         km_ts = (if el_IsAtLeast_0_10 lib (sc_Version (kc_config c))
                                  then Some (be_Timestamp beatsEvent) else None),
                         km_hash = 0, km_partition = - 1, km_data = data\<rparr>))"

record ('d, 'ts) producer_message =
  pm_Metadata :: "('d, 'ts) message"
  pm_Topic :: string
  pm_Key :: "string option"
  pm_Value :: string
  pm_Timestamp :: "'ts option"
  pm_Headers :: "(string \<times> string) list"

definition initProducerMessage ::
    "(string \<times> string) list \<Rightarrow> ('d, 'ts) message \<Rightarrow> ('d, 'ts) producer_message" where
  "initProducerMessage headers m =
     \<lparr>pm_Metadata = m, pm_Topic = km_topic m, pm_Key = km_key m, pm_Value = km_value m,
      pm_Timestamp = km_ts m, pm_Headers = headers\<rparr>"

text \<open>What \<open>asyncSend\<close> does with each event: drop it, or put a message on the producer's input.\<close>

datatype ('d, 'ts) send_effect = DropEvent go_error | SendMessage "('d, 'ts) producer_message"

definition send_event ::
    "('x, 't, 'v, 'ts, 'm) event_lib \<Rightarrow> ('x, 'ts, 'm) kafka_client \<Rightarrow> ('t, 'v) event option \<Rightarrow>
     (('t, 'v) event option, 'ts) send_effect" where
  "send_event lib c d =
     (case getEventMessage lib c d of
        Inl err \<Rightarrow> DropEvent err
      | Inr msg \<Rightarrow> SendMessage (initProducerMessage (kc_recordHeaders c) msg))"

definition asyncSend ::
    "('x, 't, 'v, 'ts, 'm) event_lib \<Rightarrow> ('x, 'ts, 'm) kafka_client \<Rightarrow> ('t, 'v) event option list \<Rightarrow>
     (('t, 'v) event option, 'ts) send_effect list" where
  "asyncSend lib c data = map (send_event lib c) data"

text \<open>The logger adapter of \<^verbatim>\<open>log.go\<close>: Sarama's lines are warnings when one of the arguments is a Kafka
  error code other than zero (no error).\<close>

datatype log_arg = KErrorArg int | OtherArg string

datatype log_level = LogWarn | LogInfo

fun kafkaLogger_Log :: "log_arg list \<Rightarrow> log_level" where
  "kafkaLogger_Log [] = LogInfo"
| "kafkaLogger_Log (KErrorArg err # v) = (if err \<noteq> 0 then LogWarn else kafkaLogger_Log v)"
| "kafkaLogger_Log (OtherArg s # v) = kafkaLogger_Log v"

text \<open>The three entry points that Sarama calls: the level, the format and the arguments of the line.\<close>

definition kafkaLogger_Print :: "log_arg list \<Rightarrow> log_level \<times> string \<times> log_arg list" where
  "kafkaLogger_Print v = (kafkaLogger_Log v, ''kafka message: %v'', v)"

definition kafkaLogger_Printf :: "string \<Rightarrow> log_arg list \<Rightarrow> log_level \<times> string \<times> log_arg list" where
  "kafkaLogger_Printf format v = (kafkaLogger_Log v, format, v)"

definition kafkaLogger_Println :: "log_arg list \<Rightarrow> log_level \<times> string \<times> log_arg list" where
  "kafkaLogger_Println v = (kafkaLogger_Log v, ''kafka message: %v'', v)"

section \<open>The accounting of a call\<close>

record 'd msg_ref =
  batchWaiter :: nat
  ref_err :: "go_error option"
  ref_failed :: "'d list"

definition ErrInvalidMessage :: go_error where
  "ErrInvalidMessage = Sentinel ''kafka server: Message contents does not match its CRC''"

definition ErrMessageSizeTooLarge :: go_error where
  "ErrMessageSizeTooLarge = Sentinel ''kafka server: Message was too large''"

definition ErrInvalidMessageSize :: go_error where
  "ErrInvalidMessageSize = Sentinel ''kafka server: The message has a negative size''"

definition ErrBreakerOpen :: go_error where
  "ErrBreakerOpen = Sentinel ''circuit breaker is open''"

definition MsgRef_dec :: "'d msg_ref \<Rightarrow> ('d msg_ref) outcome" where
  "MsgRef_dec r = (if batchWaiter r = 0 then Panic ''sync: negative WaitGroup counter''
                   else Return (r\<lparr>batchWaiter := batchWaiter r - 1\<rparr>))"

definition MsgRef_done :: "'d msg_ref \<Rightarrow> ('d msg_ref) outcome" where
  "MsgRef_done r = MsgRef_dec r"

definition MsgRef_fail :: "'d msg_ref \<Rightarrow> ('d, 'ts) message \<Rightarrow> go_error \<Rightarrow> ('d msg_ref) outcome" where
  "MsgRef_fail r msg err = MsgRef_dec
     (if errors_Is err ErrInvalidMessage then r
      else if errors_Is err ErrMessageSizeTooLarge \<or> errors_Is err ErrInvalidMessageSize then r
      else if errors_Is err ErrBreakerOpen then r\<lparr>ref_failed := ref_failed r @ [km_data msg]\<rparr>
      else r\<lparr>ref_failed := ref_failed r @ [km_data msg],
             ref_err := (if ref_err r = None then Some err else ref_err r)\<rparr>)"

text \<open>The workers: \<open>successWorker\<close> for one confirmed message, \<open>errorWorker\<close> for one refused message,
  with its flag \<open>breakerOpen\<close> and whether it sleeps.\<close>

definition successWorker :: "'d msg_ref \<Rightarrow> ('d, 'ts) message \<Rightarrow> ('d msg_ref) outcome" where
  "successWorker r msg = MsgRef_done r"

definition errorWorker ::
    "bool \<Rightarrow> 'd msg_ref \<Rightarrow> ('d, 'ts) message \<Rightarrow> go_error \<Rightarrow> ('d msg_ref \<times> bool \<times> bool) outcome" where
  "errorWorker breakerOpen r msg err =
     (case MsgRef_fail r msg err of
        Panic e \<Rightarrow> Panic e
      | Return r' \<Rightarrow>
          if errors_Is err ErrBreakerOpen
          then if breakerOpen then Return (r', False, True) else Return (r', True, False)
          else Return (r', breakerOpen, False))"

text \<open>One step of a call: an event dropped by \<open>asyncSend\<close>, or an answer of the producer about a
  message. The state is the reference, the worker's flag and how often the worker slept.\<close>

datatype ('d, 'ts) ref_step = Dropped | Confirmed "('d, 'ts) message"
  | Refused "('d, 'ts) message" go_error

type_synonym 'd client_state = "'d msg_ref \<times> bool \<times> nat"

fun client_step :: "'d client_state \<Rightarrow> ('d, 'ts) ref_step \<Rightarrow> ('d client_state) outcome" where
  "client_step (r, opn, slept) Dropped =
     (case MsgRef_done r of Panic e \<Rightarrow> Panic e | Return r' \<Rightarrow> Return (r', opn, slept))"
| "client_step (r, opn, slept) (Confirmed m) =
     (case successWorker r m of Panic e \<Rightarrow> Panic e | Return r' \<Rightarrow> Return (r', opn, slept))"
| "client_step (r, opn, slept) (Refused m err) =
     (case errorWorker opn r m err of
        Panic e \<Rightarrow> Panic e
      | Return (r', opn', sleeps) \<Rightarrow> Return (r', opn', if sleeps then Suc slept else slept))"

fun client_run :: "'d client_state \<Rightarrow> ('d, 'ts) ref_step list \<Rightarrow> ('d client_state) outcome" where
  "client_run s [] = Return s"
| "client_run s (a # as) =
     (case client_step s a of Panic e \<Rightarrow> Panic e | Return s' \<Rightarrow> client_run s' as)"

text \<open>\<open>publishEvents\<close>, for the steps that happen during the call: \<open>None\<close> when \<open>Wait\<close> does not return,
  otherwise the events to retry, with the flag and the sleeps of the error worker.\<close>

definition publishEvents ::
    "bool \<Rightarrow> 'd list \<Rightarrow> ('d, 'ts) ref_step list \<Rightarrow> (('d list \<times> bool \<times> nat) outcome) option" where
  "publishEvents breakerOpen data steps =
     (if data = [] then Some (Return ([], breakerOpen, 0))
      else case client_run (\<lparr>batchWaiter = length data, ref_err = None, ref_failed = []\<rparr>, breakerOpen, 0) steps of
             Panic e \<Rightarrow> Some (Panic e)
           | Return (r, opn, slept) \<Rightarrow>
               if batchWaiter r = 0 then Some (Return (ref_failed r, opn, slept)) else None)"

text \<open>What Sarama promises of a producer that returns successes and errors: every message put on its
  input is answered once. With what \<open>asyncSend\<close> drops, the steps of a call are then those of the
  events, in some order. A message is recognised by its event, which partitioning does not change.\<close>

fun step_event :: "('d, 'ts) ref_step \<Rightarrow> 'd option" where
  "step_event Dropped = None"
| "step_event (Confirmed m) = Some (km_data m)"
| "step_event (Refused m err) = Some (km_data m)"

fun sent_event :: "('d, 'ts) send_effect \<Rightarrow> 'd option" where
  "sent_event (DropEvent err) = None"
| "sent_event (SendMessage pm) = Some (km_data (pm_Metadata pm))"

definition answers_all :: "('d, 'ts) send_effect list \<Rightarrow> ('d, 'ts) ref_step list \<Rightarrow> bool" where
  "answers_all sends steps \<longleftrightarrow> mset (map step_event steps) = mset (map sent_event sends)"

text \<open>The events a call has to give back: those refused with an error that may pass.\<close>

definition retryable :: "go_error \<Rightarrow> bool" where
  "retryable err \<longleftrightarrow> \<not> errors_Is err ErrInvalidMessage \<and>
     \<not> errors_Is err ErrMessageSizeTooLarge \<and> \<not> errors_Is err ErrInvalidMessageSize"

fun step_retry :: "('d, 'ts) ref_step \<Rightarrow> 'd list" where
  "step_retry (Refused m err) = (if retryable err then [km_data m] else [])"
| "step_retry _ = []"

fun breaker_step :: "('d, 'ts) ref_step \<Rightarrow> bool" where
  "breaker_step (Refused m err) = errors_Is err ErrBreakerOpen"
| "breaker_step _ = False"

section \<open>What a call returns\<close>

lemma client_step_ok:
  assumes "0 < batchWaiter r"
  shows "\<exists>err. client_step (r, opn, slept) a =
    Return (\<lparr>batchWaiter = batchWaiter r - 1, ref_err = err, ref_failed = ref_failed r @ step_retry a\<rparr>,
            opn \<noteq> breaker_step a, if opn \<and> breaker_step a then Suc slept else slept)"
  using assms
  by (cases r; cases a)
    (auto simp: MsgRef_done_def MsgRef_dec_def successWorker_def errorWorker_def MsgRef_fail_def
      retryable_def)

lemma client_run_ok:
  assumes "length steps \<le> batchWaiter r"
  shows "\<exists>err. client_run (r, opn, slept) steps =
    Return (\<lparr>batchWaiter = batchWaiter r - length steps, ref_err = err,
             ref_failed = ref_failed r @ concat (map step_retry steps)\<rparr>,
            odd (of_bool opn + count_if breaker_step steps),
            slept + (of_bool opn + count_if breaker_step steps) div 2)"
  using assms
proof (induction steps arbitrary: r opn slept)
  case Nil
  then show ?case by (cases r) auto
next
  case (Cons a steps)
  let ?opn = "opn \<noteq> breaker_step a" and ?slept = "if opn \<and> breaker_step a then Suc slept else slept"
  from Cons.prems have w: "0 < batchWaiter r" by auto
  obtain err where step: "client_step (r, opn, slept) a =
      Return (\<lparr>batchWaiter = batchWaiter r - 1, ref_err = err, ref_failed = ref_failed r @ step_retry a\<rparr>,
              ?opn, ?slept)"
    using client_step_ok [OF w] by blast
  have n: "length steps \<le> batchWaiter
      \<lparr>batchWaiter = batchWaiter r - 1, ref_err = err, ref_failed = ref_failed r @ step_retry a\<rparr>"
    using Cons.prems by simp
  from Cons.IH [OF n, of ?opn ?slept] step show ?case
    by (cases opn; cases "breaker_step a") auto
qed

definition somes :: "'a option list \<Rightarrow> 'a list" where
  "somes ys = map the (filter (\<lambda>y. y \<noteq> None) ys)"

lemma mset_somes: "mset (somes ys) = image_mset the (filter_mset (\<lambda>y. y \<noteq> None) (mset ys))"
  by (simp add: somes_def mset_filter)

lemma somes_simps [simp]:
  "somes [] = []" "somes (None # ys) = somes ys" "somes (Some y # ys) = y # somes ys"
  by (simp_all add: somes_def)

lemma retry_subset_answered: "mset (concat (map step_retry steps)) \<subseteq># mset (somes (map step_event steps))"
proof (induction steps)
  case (Cons a steps)
  then show ?case
    by (cases a) (auto intro: subset_mset.order_trans)
qed simp

lemma sent_subset_events: "mset (somes (map sent_event (asyncSend lib c data))) \<subseteq># mset data"
proof (induction data)
  case (Cons d data)
  have "sent_event (send_event lib c d) = None \<or> sent_event (send_event lib c d) = Some d"
    by (auto simp: send_event_def getEventMessage_def initProducerMessage_def Let_def
        split: sum.splits if_splits)
  with Cons show ?case
    by (auto simp: asyncSend_def intro: subset_mset.order_trans)
qed (simp add: asyncSend_def)

lemma answers_all_length:
  "answers_all (asyncSend lib c data) steps \<Longrightarrow> length steps = length data"
  unfolding answers_all_def asyncSend_def by (metis length_map size_mset)

lemma retry_subset_events:
  assumes "answers_all (asyncSend lib c data) steps"
  shows "mset (concat (map step_retry steps)) \<subseteq># mset data"
proof -
  have "mset (somes (map step_event steps)) = mset (somes (map sent_event (asyncSend lib c data)))"
    using assms by (simp only: mset_somes answers_all_def)
  then show ?thesis
    using subset_mset.order_trans [OF retry_subset_answered [of steps]] sent_subset_events [of lib c data]
    by simp
qed

lemma publishEvents_result:
  assumes "answers_all (asyncSend lib c data) steps"
  shows "publishEvents opn data steps =
    Some (Return (concat (map step_retry steps),
      odd (of_bool opn + count_if breaker_step steps), (of_bool opn + count_if breaker_step steps) div 2))"
proof (cases "data = []")
  case True
  with assms answers_all_length have "steps = []" by fastforce
  with True show ?thesis by (simp add: publishEvents_def)
next
  case False
  have len: "length steps = length data" by (rule answers_all_length [OF assms])
  let ?r = "\<lparr>batchWaiter = length data, ref_err = None, ref_failed = []\<rparr>"
  have "length steps \<le> batchWaiter ?r" using len by simp
  from client_run_ok [OF this, of opn 0] len False show ?thesis
    by (auto simp: publishEvents_def)
qed

text \<open>C19: when the producer answers every message it was given, in whatever order and interleaved
  with the events dropped before sending, \<open>publishEvents\<close> returns: its wait group reaches zero with
  the last answer and never goes below, and the events it gives back for a retry are exactly those
  refused with an error other than an invalid or too large message, each an event of the batch and
  at most as often as it occurs there. An event that cannot be turned into a message is not
  retried.\<close>

theorem publishEvents_returns_retryable:
  assumes "answers_all (asyncSend lib c data) steps"
  shows "\<exists>opn' slept. publishEvents opn data steps =
      Some (Return (concat (map step_retry steps), opn', slept)) \<and>
    mset (concat (map step_retry steps)) \<subseteq># mset data"
  using publishEvents_result [OF assms, of opn] retry_subset_events [OF assms] by blast

definition example_event_lib :: "(string, unit, unit, nat, nat) event_lib" where
  "example_event_lib = \<lparr>el_AsTime = \<lambda>t. 0, el_AsMap = (\<lambda>m. case m of None \<Rightarrow> 0 | Some kvs \<Rightarrow> length kvs),
     el_IsAtLeast_0_10 = \<lambda>v. True\<rparr>"

definition example_kafka_client :: "(string, nat, nat) kafka_client" where
  "example_kafka_client = newKafkaClient [''h''] ''Kafka'' None (\<lambda>e. Inr ''logs'') []
     (\<lambda>i e. if be_Fields e = 0 then Inl (NewError ''empty'') else Inr i) (sarama_NewConfig example_sarama_lib)"

definition example_event :: "nat \<Rightarrow> (unit, unit) event" where
  "example_event n = nil_event\<lparr>ev_Fields := Some (replicate n ([], ()))\<rparr>"

definition example_sent :: "nat \<Rightarrow> ((unit, unit) event option, nat) message" where
  "example_sent n = \<lparr>km_topic = ''logs'', km_key = None, km_value = ''kafka'', km_ts = Some 0, km_hash = 0,
     km_partition = - 1, km_data = Some (example_event n)\<rparr>"

lemma example_answers:
  "answers_all (asyncSend example_event_lib example_kafka_client
      [Some (example_event 0), Some (example_event 1), Some (example_event 2)])
    [Refused (example_sent 2) ErrBreakerOpen, Dropped, Confirmed (example_sent 1)]"
  by (simp add: answers_all_def asyncSend_def send_event_def getEventMessage_def example_event_lib_def
      example_kafka_client_def newKafkaClient_def example_event_def beatsEventForProto_def Let_def
      initProducerMessage_def example_sent_def)

theorem publishEvents_returns_retryable_witness:
  "\<exists>opn' slept. publishEvents False [Some (example_event 0), Some (example_event 1), Some (example_event 2)]
      [Refused (example_sent 2) ErrBreakerOpen, Dropped, Confirmed (example_sent 1)] =
    Some (Return ([Some (example_event 2)], opn', slept))"
  using publishEvents_returns_retryable [OF example_answers, of False]
  by (simp add: retryable_def ErrBreakerOpen_def ErrInvalidMessage_def ErrMessageSizeTooLarge_def
      ErrInvalidMessageSize_def example_sent_def)

text \<open>The error worker sleeps once for every two circuit breaker errors, counting those of
  earlier calls: with the flag clear, a call with \<open>n\<close> such errors sleeps \<open>n div 2\<close> times and leaves the
  flag set exactly when \<open>n\<close> is odd; other answers do not change this.\<close>

theorem errorWorker_sleeps_every_other:
  assumes "answers_all (asyncSend lib c data) steps"
  shows "publishEvents False data steps =
    Some (Return (concat (map step_retry steps), odd (count_if breaker_step steps),
                  count_if breaker_step steps div 2))"
  using publishEvents_result [OF assms, of False] by simp

theorem errorWorker_sleeps_every_other_witness:
  "publishEvents False [Some (example_event 0), Some (example_event 1), Some (example_event 2)]
      [Refused (example_sent 2) ErrBreakerOpen, Dropped, Confirmed (example_sent 1)] =
    Some (Return ([Some (example_event 2)], True, 0))"
  using errorWorker_sleeps_every_other [OF example_answers]
  by (simp add: retryable_def ErrBreakerOpen_def ErrInvalidMessage_def ErrMessageSizeTooLarge_def
      ErrInvalidMessageSize_def example_sent_def)

end
