(* ===== verification/Kafka_Output.thy ===== *)
theory Kafka_Output
  imports Kafka_Client Shipper_Queue
begin

text \<open>
  \<^verbatim>\<open>src/output/kafka/kafka.go\<close> and \<^verbatim>\<open>src/output/kafka/output.go\<close>: building the client, starting the
  output, and the output loop, which sends a batch again and again until no event of it is left to
  retry. The steps of the \<open>publishEvents\<close> calls of a batch come as a list, one schedule for each
  call; the loop has not ended when they run out. The output is shown to meet the contract
  \<open>acknowledging_output\<close> for every batch whose loop ends.
\<close>

section \<open>Building the client\<close>

record ('x, 'ts, 'm) kafka_lib =
  kl_sarama :: "'x sarama_lib"
  kl_BuildSelector :: "string \<Rightarrow> 'x list option \<Rightarrow> (('ts, 'm) beat_event \<Rightarrow> string result) result"
  kl_CreateEncoder :: "'x option \<Rightarrow> (string \<Rightarrow> ('ts, 'm) beat_event \<Rightarrow> string result) result"
  kl_RunBytes :: "'x \<Rightarrow> ('ts, 'm) beat_event \<Rightarrow> string result"

definition buildTopicSelector ::
    "('x, 'ts, 'm) kafka_lib \<Rightarrow> 'x kafka_config \<Rightarrow> (('ts, 'm) beat_event \<Rightarrow> string result) result" where
  "buildTopicSelector lib config = kl_BuildSelector lib (kf_Topic config) (kf_Topics config)"

text \<open>The client is a pointer: nil, with no error, when the topic selector or the Sarama
  configuration cannot be built.\<close>

definition makeKafka ::
    "('x, 'ts, 'm) kafka_lib \<Rightarrow> 'x kafka_config \<Rightarrow> (('x, 'ts, 'm) kafka_client option \<times> go_error option) outcome" where
  "makeKafka lib config =
     (case buildTopicSelector lib config of
        Inl err \<Rightarrow> Return (None, None)
      | Inr topic \<Rightarrow>
          (case newSaramaConfig (kl_sarama lib) config of
             Panic e \<Rightarrow> Panic e
           | Return (Inl err) \<Rightarrow> Return (None, None)
           | Return (Inr libCfg) \<Rightarrow>
               (case kl_CreateEncoder lib (kf_Codec config) of
                  Inl err \<Rightarrow> Return (None, Some err)
                | Inr codec \<Rightarrow>
                    Return (Some (newKafkaClient (kf_Hosts config) ''kafka''
                              (map_option (kl_RunBytes lib) (kf_Key config)) topic
                              (kf_Headers config) codec libCfg), None))))"

record 'x kafka_output =
  ko_config :: "'x kafka_config"
  ko_wg :: int

definition NewKafka :: "'x kafka_config \<Rightarrow> 'x kafka_output" where
  "NewKafka config = \<lparr>ko_config = config, ko_wg = 0\<rparr>"

definition kafka_Wait :: "'x kafka_output \<Rightarrow> bool" where
  "kafka_Wait out \<longleftrightarrow> ko_wg out = 0"

text \<open>\<open>Start\<close> up to the start of the loop: the connected client, or an error. On an error of
  \<open>makeKafka\<close> the client is nil, and logging through it dereferences it; a nil client without an
  error is dereferenced by \<open>Connect\<close>.\<close>

definition kafka_Start ::
    "('x, 'ts, 'm) kafka_lib \<Rightarrow> (string list \<Rightarrow> 'x sarama_config \<Rightarrow> go_error option) \<Rightarrow> 'x kafka_output \<Rightarrow>
     ('x kafka_output \<times> (('x, 'ts, 'm) kafka_client) result) outcome" where
  "kafka_Start lib NewAsyncProducer out =
     (case makeKafka lib (ko_config out) of
        Panic e \<Rightarrow> Panic e
      | Return (None, _) \<Rightarrow> Panic ''nil pointer dereference''
      | Return (Some client, Some err) \<Rightarrow> Return (out, Inl err)
      | Return (Some client, None) \<Rightarrow>
          (case Client_Connect NewAsyncProducer client of
             (client', Some err) \<Rightarrow> Return (out, Inl err)
           | (client', None) \<Rightarrow> Return (out\<lparr>ko_wg := ko_wg out + 1\<rparr>, Inr client')))"

section \<open>The output loop\<close>

text \<open>The inner loop: the counts passed to \<open>Done\<close>, the value of \<open>remaining\<close> at its end and the
  worker's flag; \<open>None\<close> when it has not ended after the given calls of \<open>publishEvents\<close>.\<close>

fun send_loop ::
    "bool \<Rightarrow> 'd list \<Rightarrow> u64 \<Rightarrow> ('d, 'ts) ref_step list list \<Rightarrow> ((u64 list \<times> u64 \<times> bool) outcome) option" where
  "send_loop opn [] remaining scheds = Some (Return ([], remaining, opn))"
| "send_loop opn events remaining [] = None"
| "send_loop opn events remaining (steps # scheds) =
     (case publishEvents opn events steps of
        None \<Rightarrow> None
      | Some (Panic e) \<Rightarrow> Some (Panic e)
      | Some (Return (events', opn', slept)) \<Rightarrow>
          (let completed = remaining - word_of_nat (length events')
           in case send_loop opn' events' (word_of_nat (length events')) scheds of
                None \<Rightarrow> None
              | Some (Panic e) \<Rightarrow> Some (Panic e)
              | Some (Return (counts, rem, opn'')) \<Rightarrow> Some (Return (completed # counts, rem, opn''))))"

text \<open>A batch: the inner loop, then the final \<open>Done\<close> for what remains.\<close>

definition kafka_counts ::
    "bool \<Rightarrow> 'd list \<Rightarrow> ('d, 'ts) ref_step list list \<Rightarrow> ((u64 list \<times> bool) outcome) option" where
  "kafka_counts opn events scheds =
     (case send_loop opn events (word_of_nat (length events)) scheds of
        None \<Rightarrow> None
      | Some (Panic e) \<Rightarrow> Some (Panic e)
      | Some (Return (counts, remaining, opn')) \<Rightarrow>
          Some (Return (if 0 < remaining then counts @ [remaining] else counts, opn')))"

definition kafka_batch ::
    "bool \<Rightarrow> ('e, 'c) wrapped_batch \<Rightarrow> ('e option, 'ts) ref_step list list \<Rightarrow>
     (('c done_effect list \<times> bool) outcome) option" where
  "kafka_batch opn w scheds =
     (case kafka_counts opn (WrappedBatch_Events w) scheds of
        None \<Rightarrow> None
      | Some (Panic e) \<Rightarrow> Some (Panic e)
      | Some (Return (counts, opn')) \<Rightarrow> Some (Return (snd (done_run w counts), opn')))"

text \<open>The loop over the batches \<open>Get\<close> returns before the queue is closed.\<close>

fun kafka_loop ::
    "bool \<Rightarrow> (('e, 'c) wrapped_batch \<times> ('e option, 'ts) ref_step list list) list \<Rightarrow>
     (('c done_effect list list) outcome) option" where
  "kafka_loop opn [] = Some (Return [])"
| "kafka_loop opn ((w, scheds) # rest) =
     (case kafka_batch opn w scheds of
        None \<Rightarrow> None
      | Some (Panic e) \<Rightarrow> Some (Panic e)
      | Some (Return (eff, opn')) \<Rightarrow>
          (case kafka_loop opn' rest of
             None \<Rightarrow> None
           | Some (Panic e) \<Rightarrow> Some (Panic e)
           | Some (Return effs) \<Rightarrow> Some (Return (eff # effs))))"

section \<open>Acknowledgements of a batch\<close>

text \<open>The producer answers every message of every call, and with the last call nothing is left to
  retry.\<close>

fun settles ::
    "('x, 't, 'v, 'ts, 'm) event_lib \<Rightarrow> ('x, 'ts, 'm) kafka_client \<Rightarrow> ('t, 'v) event option list \<Rightarrow>
     (('t, 'v) event option, 'ts) ref_step list list \<Rightarrow> bool" where
  "settles lib c events [] \<longleftrightarrow> events = []"
| "settles lib c events (steps # scheds) \<longleftrightarrow>
     events \<noteq> [] \<and> answers_all (asyncSend lib c events) steps \<and>
     settles lib c (concat (map step_retry steps)) scheds"

lemma retry_length:
  assumes "answers_all (asyncSend lib c events) steps"
  shows "length (concat (map step_retry steps)) \<le> length events"
  using size_mset_mono [OF retry_subset_events [OF assms]] by (simp del: mset_concat)

lemma unat_diff_lengths:
  assumes "m \<le> n" and "n < 2 ^ 64"
  shows "unat (word_of_nat n - word_of_nat m :: u64) = n - m"
proof -
  have "word_of_nat n - word_of_nat m = (word_of_nat (n - m) :: u64)" using assms(1) by simp
  then show ?thesis using assms by (simp only:) (intro unat_of_nat_u64, simp)
qed

lemma send_loop_settles:
  assumes "settles lib c events scheds" and "length events < 2 ^ 64"
  shows "\<exists>counts opn'. send_loop opn events (word_of_nat (length events)) scheds =
      Some (Return (counts, 0, opn')) \<and>
    acked counts = length events \<and> (events \<noteq> [] \<longrightarrow> counts \<noteq> [] \<and> last counts \<noteq> 0)"
  using assms
proof (induction scheds arbitrary: events opn)
  case Nil
  then show ?case by simp
next
  case (Cons steps scheds)
  let ?events = "concat (map step_retry steps)"
  let ?completed = "word_of_nat (length events) - word_of_nat (length ?events) :: u64"
  from Cons.prems have ne: "events \<noteq> []" and ans: "answers_all (asyncSend lib c events) steps"
    and rest: "settles lib c ?events scheds" by auto
  have le: "length ?events \<le> length events" by (rule retry_length [OF ans])
  obtain opn1 slept where pub: "publishEvents opn events steps = Some (Return (?events, opn1, slept))"
    using publishEvents_result [OF ans] by blast
  obtain counts opn' where loop: "send_loop opn1 ?events (word_of_nat (length ?events)) scheds =
      Some (Return (counts, 0, opn'))"
    and sum: "acked counts = length ?events"
    and last: "?events \<noteq> [] \<longrightarrow> counts \<noteq> [] \<and> last counts \<noteq> 0"
    using Cons.IH [OF rest, of opn1] le Cons.prems(2) by fastforce
  have n: "unat ?completed = length events - length ?events"
    using le Cons.prems(2) by (rule unat_diff_lengths)
  have run: "send_loop opn events (word_of_nat (length events)) (steps # scheds) =
      Some (Return (?completed # counts, 0, opn'))"
    using ne pub loop by (cases events) (simp_all add: Let_def)
  show ?case
  proof (intro exI conjI impI)
    show "send_loop opn events (word_of_nat (length events)) (steps # scheds) =
      Some (Return (?completed # counts, 0, opn'))" by (rule run)
    show "acked (?completed # counts) = length events" using n sum le by simp
    show "?completed # counts \<noteq> []" by simp
    show "last (?completed # counts) \<noteq> 0"
    proof (cases "?events = []")
      case True
      from loop have "counts = []" by (simp only: True) simp
      moreover from n ne have "0 < unat ?completed" by (simp only: True) simp
      ultimately show ?thesis by (simp only: last_ConsL) (rule notI, simp)
    qed (use last in simp)
  qed
qed

lemma kafka_counts_settles:
  assumes "settles lib c events scheds" and "events \<noteq> []" and "length events < 2 ^ 64"
  shows "\<exists>counts opn'. kafka_counts opn events scheds = Some (Return (counts, opn')) \<and>
    acks_exactly (length events) counts"
  using send_loop_settles [OF assms(1,3), of opn] assms(2)
  by (auto simp: kafka_counts_def acks_exactly_def)

definition kafka_dones ::
    "bool \<times> (('t, 'v) event option, 'ts) ref_step list list \<Rightarrow> ('t, 'v) event list \<Rightarrow> u64 list" where
  "kafka_dones s es =
     (case kafka_counts (fst s) (map Some es) (snd s) of
        Some (Return (counts, _)) \<Rightarrow> counts
      | _ \<Rightarrow> [])"

interpretation kafka_acks: acknowledging_output kafka_dones
    "\<lambda>s es. settles lib c (map Some es) (snd s)"
  for lib :: "('x, 't, 'v, 'ts, 'm) event_lib" and c
proof
  fix s :: "bool \<times> (('t, 'v) event option, 'ts) ref_step list list" and es :: "('t, 'v) event list"
  assume "settles lib c (map Some es) (snd s)" "es \<noteq> []" "length es < 2 ^ 63"
  then show "acks_exactly (length es) (kafka_dones s es)"
    using kafka_counts_settles [of lib c "map Some es" "snd s" "fst s"]
    by (auto simp: kafka_dones_def)
qed

lemma kafka_batch_completes:
  assumes "fresh_batch w es" and "settles lib c (map Some es) scheds"
  shows "\<exists>opn'. kafka_batch opn w scheds = Some (Return (completion w, opn'))"
proof -
  have ev: "WrappedBatch_Events w = map Some es" "es \<noteq> []" "length es < 2 ^ 64"
    using assms(1) by (auto simp: fresh_batch_def WrappedBatch_Events_entries)
  obtain counts opn' where k: "kafka_counts opn (map Some es) scheds = Some (Return (counts, opn'))"
    using kafka_counts_settles [OF assms(2), of opn] ev by auto
  have "snd (done_run w (kafka_dones (opn, scheds) es)) = completion w"
    using assms by (intro kafka_acks.fresh_batch_completed [of lib c]) auto
  then show ?thesis using k ev(1) by (simp add: kafka_batch_def kafka_dones_def)
qed

text \<open>C18: if the producer answers every message and each batch reaches a call after which nothing is
  left to retry, the Kafka output loop gets through all batches, and completes every batch exactly
  once however its events were spread over the calls: the batch's \<open>Done\<close> and its callback run once,
  when the last event is settled.\<close>

theorem kafka_completes_every_batch:
  assumes "list_all2 (\<lambda>(w, scheds) es. fresh_batch w es \<and> settles lib c (map Some es) scheds) jobs ess"
  shows "kafka_loop opn jobs = Some (Return (map (completion \<circ> fst) jobs))"
  using assms
proof (induction arbitrary: opn rule: list_all2_induct)
  case (Cons job jobs es ess)
  obtain w scheds where job: "job = (w, scheds)" by force
  with Cons obtain opn' where "kafka_batch opn w scheds = Some (Return (completion w, opn'))"
    using kafka_batch_completes [of w es lib c scheds opn] by auto
  with Cons.IH job show ?case by simp
qed simp

theorem kafka_completes_every_batch_witness:
  "kafka_loop False
     [(\<lparr>wb_batch = \<lparr>batch_id = 5, batch_entries = [Some (example_event 1), Some (example_event 2)]\<rparr>,
        doneCount = 0, CompletionCallback = Some ()\<rparr>,
       [[Confirmed (example_sent 1), Refused (example_sent 2) ErrBreakerOpen],
        [Confirmed (example_sent 2)]])] =
   Some (Return [[BatchDone 5, RunCallback ()]])"
proof -
  let ?w = "\<lparr>wb_batch = \<lparr>batch_id = 5, batch_entries = [Some (example_event 1), Some (example_event 2)]\<rparr>,
        doneCount = 0, CompletionCallback = Some ()\<rparr>"
  let ?scheds = "[[Confirmed (example_sent 1), Refused (example_sent 2) ErrBreakerOpen],
        [Confirmed (example_sent 2)]]"
  have "fresh_batch ?w [example_event 1, example_event 2]" by (simp add: fresh_batch_def)
  moreover have "settles example_event_lib example_kafka_client
      (map Some [example_event 1, example_event 2]) ?scheds"
    by (simp add: answers_all_def asyncSend_def send_event_def getEventMessage_def example_event_lib_def
      example_kafka_client_def newKafkaClient_def example_event_def beatsEventForProto_def Let_def
      initProducerMessage_def example_sent_def retryable_def ErrBreakerOpen_def ErrInvalidMessage_def
      ErrMessageSizeTooLarge_def ErrInvalidMessageSize_def)
  ultimately show ?thesis
    using kafka_completes_every_batch [of example_event_lib example_kafka_client "[(?w, ?scheds)]"
        "[[example_event 1, example_event 2]]" False]
    by (simp add: completion_def)
qed

section \<open>Failures\<close>

text \<open>A batch that the producer keeps refusing with a retryable error is sent again without end:
  whatever the number of calls, the loop has not ended. No retry limit and no backoff stop it.\<close>

theorem kafka_retries_without_end:
  assumes "events \<noteq> []" and "retryable err"
    and "list_all (\<lambda>steps. steps = map (\<lambda>m. Refused m err) msgs) scheds"
    and "map km_data msgs = events"
  shows "kafka_counts opn events scheds = None"
proof -
  have "send_loop opn events (word_of_nat (length events)) scheds = None"
    using assms(3)
  proof (induction scheds arbitrary: opn)
    case Nil
    then show ?case using assms(1) by (cases events) simp_all
  next
    case (Cons steps scheds)
    have retry: "concat (map step_retry (map (\<lambda>m. Refused m err) msgs)) = map km_data msgs"
      using assms(2) by (induction msgs) simp_all
    have "length (map (\<lambda>m. Refused m err) msgs) \<le>
        batchWaiter \<lparr>batchWaiter = length events, ref_err = None, ref_failed = []\<rparr>"
      using assms(4) by auto
    from client_run_ok [OF this, of opn 0] obtain opn' slept where
      "publishEvents opn events steps = Some (Return (events, opn', slept))"
      using Cons.prems assms(1,4) retry by (auto simp: publishEvents_def)
    with Cons assms(1) show ?case by (cases events) (simp_all add: Let_def)
  qed
  then show ?thesis by (simp add: kafka_counts_def)
qed

theorem kafka_retries_without_end_witness:
  "kafka_counts False [km_data example_message]
     (replicate 3 [Refused example_message ErrBreakerOpen]) = None"
  by (rule kafka_retries_without_end [where err = ErrBreakerOpen and msgs = "[example_message]"])
    (simp_all add: retryable_def ErrBreakerOpen_def ErrInvalidMessage_def
      ErrMessageSizeTooLarge_def ErrInvalidMessageSize_def numeral_eq_Suc)

text \<open>\<open>Start\<close> of the Kafka output returns an error only when the connection fails: a
  configuration for which no client can be built makes it panic on a nil client instead.\<close>

theorem kafka_Start_result:
  "kafka_Start lib NewAsyncProducer (NewKafka config) =
     (case makeKafka lib config of
        Return (Some client, None) \<Rightarrow>
          (case NewAsyncProducer (kf_Hosts config) (kc_config client) of
             Some err \<Rightarrow> Return (NewKafka config, Inl err)
           | None \<Rightarrow> Return ((NewKafka config)\<lparr>ko_wg := 1\<rparr>, Inr (client\<lparr>kc_asyncProducer := True, kc_wg := 2\<rparr>)))
      | Panic e \<Rightarrow> Panic e
      | _ \<Rightarrow> Panic ''nil pointer dereference'')"
  by (auto simp: kafka_Start_def NewKafka_def makeKafka_def Client_Connect_def newKafkaClient_def
      split: outcome.splits option.splits sum.splits prod.splits)

end
