(* ===== verification/Publisher_Server.thy ===== *)
theory Publisher_Server
  imports Grpc_Server Queue_Monitor Shipper_Config ES_Output Kafka_Output Console_Output
begin

text \<open>
  \<^verbatim>\<open>src/publisherserver/server.go\<close>: the runner that owns the queue, the monitor and the output, starts
  and stops them, and is the publisher of the gRPC server. Except for \<open>Start\<close> and the diagnostics
  callback, which the controller calls, every method holds the runner's mutex; what this means for
  methods that wait is the subject of \<open>Runner_Lock\<close>. The constructors and clients of other packages are the record \<open>runner_lib\<close>, in
  which all their opaque objects have the type \<open>'x\<close>. The runner interprets the contracts \<open>publisher\<close>
  and \<open>indexed_publisher\<close> of the gRPC server, for every queue with the laws of \<open>Beats_Queue\<close>.
\<close>

section \<open>Outputs\<close>

datatype 'x shipper_output = ElasticsearchOutput es_config | KafkaOutput "'x kafka_config" | ConsoleOutput
  | LogstashOutput logstash_config

definition outputFromConfig :: "'x output_config \<Rightarrow> ('x shipper_output) result" where
  "outputFromConfig config =
     (case oc_Elasticsearch config of
        Some es \<Rightarrow> Inr (ElasticsearchOutput es)
      | None \<Rightarrow>
     (case oc_Kafka config of
        Some k \<Rightarrow> Inr (KafkaOutput k)
      | None \<Rightarrow>
     (case oc_Console config of
        Some _ \<Rightarrow> Inr ConsoleOutput
      | None \<Rightarrow>
     (case oc_Logstash config of
        Some ls \<Rightarrow> Inr (LogstashOutput ls)
      | None \<Rightarrow> Inl (NewError ''no active output configuration'')))))"

record 'x output_lib =
  ol_NumCPU :: i64
  ol_NewClient :: "es_client_config \<Rightarrow> 'x result"
  ol_NewBulkIndexer :: "'x \<Rightarrow> bulk_indexer_config \<Rightarrow> 'x result"
  ol_kafka :: "('x, 'x, 'x) kafka_lib"
  ol_NewAsyncProducer :: "string list \<Rightarrow> 'x sarama_config \<Rightarrow> go_error option"
  ol_newSyncClient :: "string \<Rightarrow> logstash_config \<Rightarrow> ('x sync_client) result"

text \<open>\<open>Start\<close> of the output, by its type.\<close>

fun output_Start :: "'x output_lib \<Rightarrow> 'x shipper_output \<Rightarrow> (go_error option) outcome" where
  "output_Start lib (ElasticsearchOutput c) =
     Return (snd (es_Start (ol_NumCPU lib) (ol_NewClient lib) (ol_NewBulkIndexer lib) (NewElasticSearch c)))"
| "output_Start lib (KafkaOutput c) =
     (case kafka_Start (ol_kafka lib) (ol_NewAsyncProducer lib) (NewKafka c) of
        Panic e \<Rightarrow> Panic e
      | Return (out, Inl err) \<Rightarrow> Return (Some err)
      | Return (out, Inr client) \<Rightarrow> Return None)"
| "output_Start lib ConsoleOutput = Return (snd (console_Start NewConsole))"
| "output_Start lib (LogstashOutput c) =
     Return (snd (logstash_Start (ol_newSyncClient lib) (NewLogstash c)))"

section \<open>The runner\<close>

record ('q, 'x) server_runner =
  sr_queue :: "'q queue option"
  sr_monitoring :: "('x, 'x) queue_monitor option"
  sr_out :: "'x shipper_output option"

record ('q, 'x) runner_lib =
  rl_DefaultSettings :: "'x disk_settings"
  rl_pbkdf2_Key :: "string \<Rightarrow> string \<Rightarrow> nat \<Rightarrow> 'x"
  rl_diskqueue :: "'x disk_settings \<Rightarrow> 'q result"
  rl_memqueue :: "mem_settings \<Rightarrow> 'q"
  rl_monitor :: "('x, 'x, 'x) monitor_lib"
  rl_output :: "'x output_lib"

definition NewOutputServer :: "('q, 'x) server_runner" where
  "NewOutputServer = \<lparr>sr_queue = None, sr_monitoring = None, sr_out = None\<rparr>"

definition start_output ::
    "('q, 'x) runner_lib \<Rightarrow> ('q, 'x) server_runner \<Rightarrow> 'x root_config \<Rightarrow>
     (('q, 'x) server_runner \<times> go_error option) outcome" where
  "start_output lib r cfg =
     (case outputFromConfig (sh_Output (rt_Shipper cfg)) of
        Inl err \<Rightarrow> Return (r\<lparr>sr_out := None\<rparr>, Some (Wrapped ''error generating output config: '' err))
      | Inr out \<Rightarrow>
          (case output_Start (rl_output lib) out of
             Panic e \<Rightarrow> Panic e
           | Return (Some err) \<Rightarrow>
               Return (r\<lparr>sr_out := Some out\<rparr>, Some (Wrapped ''couldn't start output: '' err))
           | Return None \<Rightarrow> Return (r\<lparr>sr_out := Some out\<rparr>, None)))"

definition runner_Start ::
    "('q, 'x) runner_lib \<Rightarrow> ('q, 'x) server_runner \<Rightarrow> 'x root_config \<Rightarrow>
     (('q, 'x) server_runner \<times> go_error option) outcome" where
  "runner_Start lib r cfg =
     (case queue_New (rl_DefaultSettings lib) (rl_pbkdf2_Key lib) (rl_diskqueue lib) (rl_memqueue lib)
             (sh_Queue (rt_Shipper cfg)) of
        Panic e \<Rightarrow> Panic e
      | Return (Inl err) \<Rightarrow> Return (r\<lparr>sr_queue := None\<rparr>, Some (Wrapped ''couldn't create queue: '' err))
      | Return (Inr q) \<Rightarrow>
          (let r = r\<lparr>sr_queue := Some q\<rparr> in
           if rt_Monitoring cfg
           then (case NewFromConfig (rl_monitor lib) (rt_HTTP cfg) (rt_LogMetrics cfg) of
                   Inl err \<Rightarrow> Return (r\<lparr>sr_monitoring := None\<rparr>,
                                    Some (Wrapped ''error initializing output monitor: '' err))
                 | Inr mon \<Rightarrow> start_output lib (r\<lparr>sr_monitoring := Some mon\<rparr>) cfg)
           else start_output lib r cfg))"

text \<open>\<open>Close\<close>, with what it does in order; the queue it closes lives on in the output that reads it,
  and is returned. This is its result when it returns: it first waits for the queue's mutex and in the end for the output,
  and both waits can last forever. \<open>Runner_Lock\<close> has the mutex and the wait as steps, \<open>Output_Process\<close> and \<open>ES_Process\<close> the outputs,
  and in \<open>Controller\<close> a \<open>Close\<close> that does not return blocks its caller.\<close>

datatype 'x close_effect = EndMonitor "('x, 'x) queue_monitor" | CloseQueue | WaitOutput "'x shipper_output"

definition runner_Close ::
    "('q, 'e) beats_queue \<Rightarrow> ('q, 'x) server_runner \<Rightarrow>
     ('q, 'x) server_runner \<times> 'q queue option \<times> 'x close_effect list" where
  "runner_Close bq r =
     (r\<lparr>sr_monitoring := None, sr_queue := None, sr_out := None\<rparr>,
      map_option (\<lambda>q. fst (queue_Close bq q)) (sr_queue r),
      (case sr_monitoring r of None \<Rightarrow> [] | Some mon \<Rightarrow> [EndMonitor mon]) @
      (case sr_queue r of None \<Rightarrow> [] | Some q \<Rightarrow> [CloseQueue]) @
      (case sr_out r of None \<Rightarrow> [] | Some out \<Rightarrow> [WaitOutput out]))"

definition runner_IsInitialized :: "('q, 'x) server_runner \<Rightarrow> bool" where
  "runner_IsInitialized r \<longleftrightarrow> sr_queue r \<noteq> None"

definition errInitializing :: go_error where
  "errInitializing = NewError ''shipper is initializing''"

definition runner_PersistedIndex :: "('q, 'e) beats_queue \<Rightarrow> ('q, 'x) server_runner \<Rightarrow> u64 result" where
  "runner_PersistedIndex bq r =
     (case sr_queue r of None \<Rightarrow> Inl errInitializing | Some q \<Rightarrow> queue_PersistedIndex bq q)"

definition runner_Publish ::
    "('q, 'e) beats_queue \<Rightarrow> ('q, 'x) server_runner \<Rightarrow> 'e \<Rightarrow> ('q, 'x) server_runner \<times> u64 result" where
  "runner_Publish bq r e =
     (case sr_queue r of
        None \<Rightarrow> (r, Inl errInitializing)
      | Some q \<Rightarrow> (case queue_Publish bq q e of (q', res) \<Rightarrow> (r\<lparr>sr_queue := Some q'\<rparr>, res)))"

definition runner_TryPublish ::
    "('q, 'e) beats_queue \<Rightarrow> ('q, 'x) server_runner \<Rightarrow> 'e \<Rightarrow> ('q, 'x) server_runner \<times> u64 result" where
  "runner_TryPublish bq r e =
     (case sr_queue r of
        None \<Rightarrow> (r, Inl errInitializing)
      | Some q \<Rightarrow> (case queue_TryPublish bq q e of (q', res) \<Rightarrow> (r\<lparr>sr_queue := Some q'\<rparr>, res)))"

text \<open>\<open>QueueDiagCallback\<close>, for what the queue the monitor was made with answers when the hook is called.\<close>

definition QueueDiagCallback ::
    "(queue_data \<Rightarrow> string result) \<Rightarrow> ((string \<times> string) list \<Rightarrow> string result) \<Rightarrow> beats_metrics result \<Rightarrow>
     ('q, 'x) server_runner \<Rightarrow> string" where
  "QueueDiagCallback marshal marshal_map reading r =
     (case sr_monitoring r of
        Some mon \<Rightarrow> snd (DiagnosticsCallback marshal marshal_map mon reading)
      | None \<Rightarrow> ''queue monitoring has not started'')"

text \<open>The runner as the publisher of the gRPC server.\<close>

definition runner_ops :: "('q, 'e) beats_queue \<Rightarrow> (('q, 'x) server_runner, 'e) publisher_ops" where
  "runner_ops bq = \<lparr>pub_PersistedIndex = runner_PersistedIndex bq, pub_Publish = runner_Publish bq,
     pub_TryPublish = runner_TryPublish bq, pub_IsInitialized = runner_IsInitialized\<rparr>"

section \<open>The runner meets the gRPC server's contracts\<close>

definition runner_pending :: "('q \<Rightarrow> 'e list) \<Rightarrow> ('q, 'x) server_runner \<Rightarrow> 'e list" where
  "runner_pending pend r = (case sr_queue r of None \<Rightarrow> [] | Some q \<Rightarrow> pend (eventQueue q))"

definition runner_newest :: "('q \<Rightarrow> nat) \<Rightarrow> ('q, 'x) server_runner \<Rightarrow> nat" where
  "runner_newest newest r = (case sr_queue r of None \<Rightarrow> 0 | Some q \<Rightarrow> newest (eventQueue q))"

lemma runner_Publish_pending:
  assumes "queue_laws bq pend" "runner_Publish bq r e = (r', res)"
  shows "runner_pending pend r' = runner_pending pend r @ accepted_events e res"
  using assms(2) queue_Publish_pending(1) [OF queue_lawsD(1) [OF assms(1)]]
  by (auto simp: runner_Publish_def runner_pending_def accepted_events_def split: option.splits prod.splits)

lemma runner_TryPublish_pending:
  assumes "queue_laws bq pend" "runner_TryPublish bq r e = (r', res)"
  shows "runner_pending pend r' = runner_pending pend r @ accepted_events e res"
  using assms(2) queue_TryPublish_pending(1) [OF queue_lawsD(2) [OF assms(1)]]
  by (auto simp: runner_TryPublish_def runner_pending_def accepted_events_def split: option.splits prod.splits)

interpretation runner_publisher: publisher "runner_ops bq" "runner_pending pend" "\<lambda>r. queue_laws bq pend"
  for bq :: "('q, ('t, 'v) event) beats_queue" and pend
  by unfold_locales (auto simp: runner_ops_def runner_Publish_pending runner_TryPublish_pending)

lemma runner_publish_ascends:
  assumes "ascending_ids bq newest"
  shows "runner_Publish bq r e = (r', res) \<Longrightarrow>
      ascends (runner_newest newest r) (runner_newest newest r') res"
    and "runner_TryPublish bq r e = (r', res) \<Longrightarrow>
      ascends (runner_newest newest r) (runner_newest newest r') res"
proof -
  show "runner_Publish bq r e = (r', res) \<Longrightarrow>
      ascends (runner_newest newest r) (runner_newest newest r') res"
    using queue_publish_ascends(1) [OF assms]
    by (cases "sr_queue r") (auto simp: runner_Publish_def runner_newest_def split: prod.splits)
  show "runner_TryPublish bq r e = (r', res) \<Longrightarrow>
      ascends (runner_newest newest r) (runner_newest newest r') res"
    using queue_publish_ascends(2) [OF assms]
    by (cases "sr_queue r") (auto simp: runner_TryPublish_def runner_newest_def split: prod.splits)
qed

interpretation runner_indexed: indexed_publisher "runner_ops bq" "runner_pending pend"
    "\<lambda>r. queue_laws bq pend \<and> ascending_ids bq newest" "runner_newest newest"
  for bq :: "('q, ('t, 'v) event) beats_queue" and pend newest
  by unfold_locales
    (auto simp: runner_ops_def runner_Publish_pending runner_TryPublish_pending runner_publish_ascends)

text \<open>C6: what a publish request does to the queue, when no other goroutine interferes: if it is
  answered without an error, some \<open>k\<close> of its events, at least one, were appended to the queue, they
  are the first \<open>k\<close> events of the request in their order, and the reply's count is \<open>k\<close>; if it is
  answered with an error, nothing was appended.\<close>

theorem publish_request_appends_prefix:
  assumes "queue_laws bq pend"
    and "PublishEvents CheckValid (runner_ops bq) no_interference serv r req = (serv', r', reply, st)"
  shows "if st = None
     then \<exists>rp k. reply = Some rp \<and> 0 < k \<and> k \<le> length (rq_Events req) \<and>
            AcceptedCount rp = word_of_nat k \<and> rp_Uuid rp = srv_uuid serv \<and>
            runner_pending pend r' = runner_pending pend r @ take k (rq_Events req)
     else runner_pending pend r' = runner_pending pend r"
  using runner_publisher.PublishEvents_prefix [OF assms] by blast

definition example_runner :: "nat \<Rightarrow> ('e fifo, 'x) server_runner" where
  "example_runner n = NewOutputServer\<lparr>sr_queue := Some \<lparr>queue_cfg = queue_DefaultConfig, eventQueue = fifo_new n\<rparr>\<rparr>"

definition example_request :: "(unit, unit) publish_request" where
  "example_request = \<lparr>rq_Uuid = [], rq_Events = [nil_event, nil_event, nil_event]\<rparr>"

lemma example_request_run:
  "\<exists>r'. PublishEvents (\<lambda>t. None) (runner_ops fifo_queue) no_interference (SetStrictMode example_server False)
     (example_runner 2 :: ((unit, unit) event fifo, unit) server_runner) example_request =
   (SetStrictMode example_server False, r', Some \<lparr>rp_Uuid = ''u'', AcceptedCount = 2, AcceptedIndex = 2\<rparr>, None)"
  by (simp add: PublishEvents_def runner_ops_def runner_IsInitialized_def example_runner_def
      NewOutputServer_def example_request_def example_server_def SetStrictMode_def clear_init_error_def
      runner_Publish_def runner_TryPublish_def queue_Publish_def queue_TryPublish_def fifo_queue_def
      fifo_put_def fifo_new_def)

theorem publish_request_appends_prefix_witness:
  "\<exists>r' k. PublishEvents (\<lambda>t. None) (runner_ops fifo_queue) no_interference (SetStrictMode example_server False)
     (example_runner 2 :: ((unit, unit) event fifo, unit) server_runner) example_request =
     (SetStrictMode example_server False, r', Some \<lparr>rp_Uuid = ''u'', AcceptedCount = 2, AcceptedIndex = 2\<rparr>, None) \<and>
   (2 :: u32) = word_of_nat k \<and>
   runner_pending fifo_pending r' =
     runner_pending fifo_pending (example_runner 2 :: ((unit, unit) event fifo, unit) server_runner) @
     take k (rq_Events example_request)"
proof -
  obtain r' where r: "PublishEvents (\<lambda>t. None) (runner_ops fifo_queue) no_interference
      (SetStrictMode example_server False)
      (example_runner 2 :: ((unit, unit) event fifo, unit) server_runner) example_request =
      (SetStrictMode example_server False, r', Some \<lparr>rp_Uuid = ''u'', AcceptedCount = 2, AcceptedIndex = 2\<rparr>, None)"
    using example_request_run by blast
  show ?thesis
    using publish_request_appends_prefix [OF fifo_laws r] r by fastforce
qed

text \<open>C15: the index in a reply, with other clients publishing in between: it is the id of the last
  event this request added, so it lies above every id given out before the request, by at least the
  number of accepted events, and no later than the newest id given out when the request ends.\<close>

theorem publish_request_index:
  assumes "queue_laws bq pend" "ascending_ids bq newest"
    and "\<And>n r. runner_newest newest r \<le> runner_newest newest (env n r)"
    and "PublishEvents CheckValid (runner_ops bq) env serv r req = (serv', r', Some rp, None)"
  shows "\<exists>k. 0 < k \<and> k \<le> length (rq_Events req) \<and> AcceptedCount rp = word_of_nat k \<and>
    runner_newest newest r + k \<le> unat (AcceptedIndex rp) \<and>
    unat (AcceptedIndex rp) \<le> runner_newest newest r'"
  by (rule runner_indexed.PublishEvents_index [OF runner_indexed.benign_def [THEN iffD2] _ assms(4)])
    (use assms in auto)

text \<open>Another client that publishes an event before each call.\<close>

definition rival :: "nat \<Rightarrow> ((unit, unit) event fifo, unit) server_runner \<Rightarrow> ((unit, unit) event fifo, unit) server_runner" where
  "rival n r = fst (runner_Publish fifo_queue r nil_event)"

lemma rival_ascends: "runner_newest fifo_newest r \<le> runner_newest fifo_newest (rival n r)"
proof -
  obtain r' res where "runner_Publish fifo_queue r nil_event = (r', res)" by force
  with runner_publish_ascends(1) [OF fifo_ascending this] show ?thesis by (cases res) (auto simp: rival_def ascends_def)
qed

lemma example_rival_run:
  "\<exists>r'. PublishEvents (\<lambda>t. None) (runner_ops fifo_queue) rival (SetStrictMode example_server False) (example_runner 4) example_request =
   (SetStrictMode example_server False, r', Some \<lparr>rp_Uuid = ''u'', AcceptedCount = 2, AcceptedIndex = 4\<rparr>, None)"
  by (simp add: PublishEvents_def runner_ops_def runner_IsInitialized_def example_runner_def rival_def
      NewOutputServer_def example_request_def example_server_def SetStrictMode_def clear_init_error_def
      runner_Publish_def runner_TryPublish_def queue_Publish_def queue_TryPublish_def fifo_queue_def
      fifo_put_def fifo_new_def)

theorem publish_request_index_witness:
  "\<exists>r' k. PublishEvents (\<lambda>t. None) (runner_ops fifo_queue) rival (SetStrictMode example_server False) (example_runner 4) example_request =
     (SetStrictMode example_server False, r', Some \<lparr>rp_Uuid = ''u'', AcceptedCount = 2, AcceptedIndex = 4\<rparr>, None) \<and>
   0 < k \<and> k \<le> length (rq_Events example_request) \<and> (2 :: u32) = word_of_nat k \<and>
   runner_newest fifo_newest (example_runner 4 :: ((unit, unit) event fifo, unit) server_runner) + k \<le> 4 \<and>
   4 \<le> runner_newest fifo_newest r'"
proof -
  obtain r' where r: "PublishEvents (\<lambda>t. None) (runner_ops fifo_queue) rival (SetStrictMode example_server False)
      (example_runner 4) example_request =
      (SetStrictMode example_server False, r', Some \<lparr>rp_Uuid = ''u'', AcceptedCount = 2, AcceptedIndex = 4\<rparr>, None)"
    using example_rival_run by blast
  from publish_request_index [OF fifo_laws fifo_ascending rival_ascends r] r show ?thesis by fastforce
qed

section \<open>Starting and stopping\<close>

text \<open>\<open>Close\<close> first ends the monitor, then closes the queue and only then waits for the output,
  which can finish because its queue is closed; the closed queue keeps its events. Afterwards the
  runner is not initialized, publishing fails and changes nothing, and a second \<open>Close\<close> does
  nothing.\<close>

theorem runner_Close_once:
  assumes "runner_Close bq r = (r', oldq, effects)" and "queue_laws bq pend"
  shows "effects =
      map EndMonitor (option_list (sr_monitoring r)) @
      map (\<lambda>q. CloseQueue) (option_list (sr_queue r)) @ map WaitOutput (option_list (sr_out r)) \<and>
    (\<forall>q. sr_queue r = Some q \<longrightarrow> (\<exists>q'. oldq = Some q' \<and> pend (eventQueue q') = pend (eventQueue q))) \<and>
    \<not> runner_IsInitialized r' \<and> runner_Close bq r' = (r', None, []) \<and>
    runner_Publish bq r' e = (r', Inl errInitializing) \<and>
    runner_TryPublish bq r' e = (r', Inl errInitializing)"
proof -
  have "pend (eventQueue (fst (queue_Close bq q))) = pend (eventQueue q)" for q
    using queue_lawsD(4) [OF assms(2)] by (simp add: queue_Close_def split: prod.split) (metis fst_conv)
  with assms(1) show ?thesis
    by (auto simp: runner_Close_def runner_IsInitialized_def runner_Publish_def runner_TryPublish_def
      option_list_def split: option.splits)
qed

theorem runner_Close_once_witness:
  "\<exists>r' oldq. runner_Close fifo_queue (example_runner 2 :: (nat fifo, unit) server_runner) =
     (r', oldq, [CloseQueue]) \<and> \<not> runner_IsInitialized r' \<and> runner_Close fifo_queue r' = (r', None, [])"
proof -
  let ?r = "example_runner 2 :: (nat fifo, unit) server_runner"
  obtain r' oldq effects where c: "runner_Close fifo_queue ?r = (r', oldq, effects)"
    by (metis prod_cases3)
  with runner_Close_once [OF c fifo_laws] show ?thesis
    by (auto simp: example_runner_def NewOutputServer_def option_list_def)
qed

text \<open>C23: after \<open>Start\<close> returns, the runner is initialized exactly when its queue was created,
  whether or not the rest of the start succeeded: if the monitor, the output's configuration or the
  output itself fails after that, \<open>Start\<close> reports an error, but the new queue stays attached and the
  runner goes on accepting events that no output reads.\<close>

theorem runner_initialized_iff_queue_created:
  assumes "runner_Start lib r cfg = Return (r', err)"
  shows "(runner_IsInitialized r' \<longleftrightarrow>
      (\<exists>q. queue_New (rl_DefaultSettings lib) (rl_pbkdf2_Key lib) (rl_diskqueue lib) (rl_memqueue lib)
             (sh_Queue (rt_Shipper cfg)) = Return (Inr q) \<and> sr_queue r' = Some q)) \<and>
    (err = None \<longrightarrow> runner_IsInitialized r' \<and> (\<exists>out. sr_out r' = Some out \<and>
       outputFromConfig (sh_Output (rt_Shipper cfg)) = Inr out \<and>
       output_Start (rl_output lib) out = Return None))"
proof (cases "queue_New (rl_DefaultSettings lib) (rl_pbkdf2_Key lib) (rl_diskqueue lib) (rl_memqueue lib)
             (sh_Queue (rt_Shipper cfg))")
  case (Return res)
  show ?thesis
  proof (cases res)
    case (Inl e)
    with Return assms show ?thesis by (auto simp: runner_Start_def runner_IsInitialized_def)
  next
    case (Inr q)
    have out: "sr_queue r1' = sr_queue r1 \<and> (e1 = None \<longrightarrow> (\<exists>out. sr_out r1' = Some out \<and>
       outputFromConfig (sh_Output (rt_Shipper cfg)) = Inr out \<and>
       output_Start (rl_output lib) out = Return None))"
      if "start_output lib r1 cfg = Return (r1', e1)" for r1 r1' e1
      using that by (auto simp: start_output_def split: sum.splits outcome.splits option.splits)
    from Return Inr assms have
      "(\<exists>r1. sr_queue r1 = Some q \<and> start_output lib r1 cfg = Return (r', err)) \<or>
       (err \<noteq> None \<and> sr_queue r' = Some q)"
      by (auto simp: runner_Start_def Let_def split: if_splits sum.splits)
    with out Return Inr show ?thesis by (auto simp: runner_IsInitialized_def)
  qed
next
  case (Panic e)
  with assms show ?thesis by (simp add: runner_Start_def)
qed

definition example_runner_lib :: "('e fifo, string) runner_lib" where
  "example_runner_lib = \<lparr>
     rl_DefaultSettings = \<lparr>ds_Path = '''', ds_MaxBufferSize = 0, ds_MaxSegmentSize = 0,
       ds_ReadAheadLimit = 512, ds_WriteAheadLimit = 2048, ds_RetryInterval = 1,
       ds_MaxRetryInterval = 30, ds_EncryptionKey = None, ds_UseCompression = False, ds_UseProtobuf = False\<rparr>,
     rl_pbkdf2_Key = \<lambda>pw salt n. pw, rl_diskqueue = \<lambda>ds. Inl (NewError ''no disk''),
     rl_memqueue = \<lambda>ms. fifo_new (nat (ms_Events ms)),
     rl_monitor = \<lparr>MakeReporter = \<lambda>c. Inr '''', http_Enabled = \<lambda>c. False,
       NewWithDefaultRoutes = \<lambda>c. Inr '''', Unpack_expvar = \<lambda>c. Inr False\<rparr>,
     rl_output = \<lparr>ol_NumCPU = 4, ol_NewClient = \<lambda>c. Inr '''', ol_NewBulkIndexer = \<lambda>cl c. Inr '''',
       ol_kafka = \<lparr>kl_sarama = example_sarama_lib, kl_BuildSelector = \<lambda>t ts. Inr (\<lambda>e. Inr t),
         kl_CreateEncoder = \<lambda>c. Inr (\<lambda>i e. Inr i), kl_RunBytes = \<lambda>k e. Inr k\<rparr>,
       ol_NewAsyncProducer = \<lambda>hosts c. None,
       ol_newSyncClient = \<lambda>h c. Inr \<lparr>sc_conn = h, sc_ttl = 0, sc_ticker = False\<rparr>\<rparr>\<rparr>"

theorem runner_initialized_iff_queue_created_witness:
  "\<exists>r' err. runner_Start example_runner_lib (NewOutputServer :: (nat fifo, string) server_runner)
      root_DefaultConfig = Return (r', Some err) \<and> runner_IsInitialized r'"
proof -
  let ?r = "NewOutputServer :: (nat fifo, string) server_runner"
  have run: "runner_Start example_runner_lib ?r root_DefaultConfig =
      Return (\<lparr>sr_queue = Some \<lparr>queue_cfg = queue_DefaultConfig, eventQueue = fifo_new 4096\<rparr>,
          sr_monitoring = Some \<lparr>logReporter = '''', httpHandler = None, queueLimitCount = 0\<rparr>, sr_out = None\<rparr>,
        Some (Wrapped ''error generating output config: '' (NewError ''no active output configuration'')))"
    and q: "queue_New (rl_DefaultSettings example_runner_lib) (rl_pbkdf2_Key example_runner_lib)
        (rl_diskqueue example_runner_lib) (rl_memqueue example_runner_lib)
        (sh_Queue (rt_Shipper root_DefaultConfig)) =
      Return (Inr \<lparr>queue_cfg = queue_DefaultConfig, eventQueue = fifo_new 4096 :: nat fifo\<rparr>)"
    by (simp_all add: runner_Start_def example_runner_lib_def root_DefaultConfig_def queue_New_def
        queue_DefaultConfig_def useDiskQueue_def NewFromConfig_def start_output_def outputFromConfig_def
        NewOutputServer_def)
  from runner_initialized_iff_queue_created [OF run] q run show ?thesis by auto
qed

end
