(* ===== verification/Pipeline.thy ===== *)
theory Pipeline
  imports Publisher_Server
begin

text \<open>
  The whole path of an event, as a step relation over the components: clients publish through the
  runner, the output takes batches from the queue and acknowledges them, the runner may be closed at
  any time, and all of this is interleaved in any order, each step being one call under the queue's
  or the runner's lock. The state has, beside the components' states, the history of events accepted
  and taken, which the invariants speak about. After \<open>Close\<close> the runner has dropped its queue, but
  the output still holds it (\<open>pl_closed\<close>).
\<close>

section \<open>The step relation\<close>

record ('q, 'x, 'e) pipeline =
  pl_runner :: "('q, 'x) server_runner"
  pl_closed :: "'q queue option"
  pl_inflight :: "('e, unit) wrapped_batch list"
  pl_accepted :: "'e list"
  pl_batches :: "('e, unit) wrapped_batch list"
  pl_completed :: "nat list"

definition out_queue :: "('q, 'x, 'e) pipeline \<Rightarrow> 'q queue option" where
  "out_queue s = (case sr_queue (pl_runner s) of Some q \<Rightarrow> Some q | None \<Rightarrow> pl_closed s)"

definition set_out_queue :: "('q, 'x, 'e) pipeline \<Rightarrow> 'q queue \<Rightarrow> ('q, 'x, 'e) pipeline" where
  "set_out_queue s q =
     (case sr_queue (pl_runner s) of
        Some _ \<Rightarrow> s\<lparr>pl_runner := (pl_runner s)\<lparr>sr_queue := Some q\<rparr>\<rparr>
      | None \<Rightarrow> s\<lparr>pl_closed := Some q\<rparr>)"

text \<open>The queue learns of a completed batch.\<close>

fun queue_effect :: "('q, 'e) beats_queue \<Rightarrow> unit done_effect \<Rightarrow> 'q queue \<Rightarrow> 'q queue" where
  "queue_effect bq (BatchDone i) q = q\<lparr>eventQueue := beats_Done bq (eventQueue q) i\<rparr>"
| "queue_effect bq (RunCallback _) q = q"

definition batches_done :: "unit done_effect list \<Rightarrow> nat list" where
  "batches_done effs = [i. BatchDone i \<leftarrow> effs]"

text \<open>What the output does with the queue, without the runner's mutex: it takes a batch, or is told
  that there is none, or acknowledges events of a batch it has taken.\<close>

inductive output_step ::
    "('q, 'e) beats_queue \<Rightarrow> ('q, 'x, 'e) pipeline \<Rightarrow> ('q, 'x, 'e) pipeline \<Rightarrow> bool" for bq where
  get: "out_queue s = Some q \<Longrightarrow> queue_Get bq q n = (q', Inr w) \<Longrightarrow>
    output_step bq s ((set_out_queue s q')\<lparr>pl_inflight := pl_inflight s @ [w],
      pl_batches := pl_batches s @ [w]\<rparr>)"
| get_fails: "out_queue s = Some q \<Longrightarrow> queue_Get bq q n = (q', (Inl err :: (('e, unit) wrapped_batch) result)) \<Longrightarrow>
    output_step bq s (set_out_queue s q')"
| done_call: "out_queue s = Some q \<Longrightarrow> i < length (pl_inflight s) \<Longrightarrow>
    WrappedBatch_Done (pl_inflight s ! i) n = (w, effs) \<Longrightarrow>
    output_step bq s ((set_out_queue s (fold (queue_effect bq) effs q))\<lparr>
      pl_inflight := (pl_inflight s)[i := w], pl_completed := pl_completed s @ batches_done effs\<rparr>)"

inductive pipeline_step ::
    "('q, 'e) beats_queue \<Rightarrow> ('q, 'x, 'e) pipeline \<Rightarrow> ('q, 'x, 'e) pipeline \<Rightarrow> bool" for bq where
  publish: "runner_Publish bq (pl_runner s) e = (r, res) \<Longrightarrow>
    pipeline_step bq s (s\<lparr>pl_runner := r, pl_accepted := pl_accepted s @ accepted_events e res\<rparr>)"
| try_publish: "runner_TryPublish bq (pl_runner s) e = (r, res) \<Longrightarrow>
    pipeline_step bq s (s\<lparr>pl_runner := r, pl_accepted := pl_accepted s @ accepted_events e res\<rparr>)"
| by_output: "output_step bq s s' \<Longrightarrow> pipeline_step bq s s'"
| close: "runner_Close bq (pl_runner s) = (r, Some q, effs) \<Longrightarrow>
    pipeline_step bq s (s\<lparr>pl_runner := r, pl_closed := Some q\<rparr>)"
| close_again: "runner_Close bq (pl_runner s) = (r, None, effs) \<Longrightarrow>
    pipeline_step bq s (s\<lparr>pl_runner := r\<rparr>)"

abbreviation pipeline_steps ::
    "('q, 'e) beats_queue \<Rightarrow> ('q, 'x, 'e) pipeline \<Rightarrow> ('q, 'x, 'e) pipeline \<Rightarrow> bool" where
  "pipeline_steps bq \<equiv> (pipeline_step bq)\<^sup>*\<^sup>*"

text \<open>The start: a runner that has just been started with an empty queue.\<close>

definition pipeline_init :: "('q, 'x) server_runner \<Rightarrow> ('q, 'x, 'e) pipeline" where
  "pipeline_init r = \<lparr>pl_runner = r, pl_closed = None, pl_inflight = [], pl_accepted = [],
     pl_batches = [], pl_completed = []\<rparr>"

text \<open>The events taken by the output, and those still in the queue it reads.\<close>

definition taken :: "('q, 'x, 'e) pipeline \<Rightarrow> 'e list" where
  "taken s = concat (map (\<lambda>w. map the (WrappedBatch_Events w)) (pl_batches s))"

definition waiting :: "('q \<Rightarrow> 'e list) \<Rightarrow> ('q, 'x, 'e) pipeline \<Rightarrow> 'e list" where
  "waiting pend s = (case out_queue s of None \<Rightarrow> [] | Some q \<Rightarrow> pend (eventQueue q))"

section \<open>Invariants\<close>

lemma out_queue_set: "out_queue s = Some q \<Longrightarrow> out_queue (set_out_queue s q') = Some q'"
  by (auto simp: out_queue_def set_out_queue_def split: option.splits)

lemma set_out_queue_fields [simp]:
  "pl_inflight (set_out_queue s q) = pl_inflight s" "pl_accepted (set_out_queue s q) = pl_accepted s"
  "pl_batches (set_out_queue s q) = pl_batches s" "pl_completed (set_out_queue s q) = pl_completed s"
  by (simp_all add: set_out_queue_def split: option.split)

lemma out_queue_update [simp]:
  "out_queue (s\<lparr>pl_inflight := ws\<rparr>) = out_queue s" "out_queue (s\<lparr>pl_batches := ws\<rparr>) = out_queue s"
  "out_queue (s\<lparr>pl_completed := is'\<rparr>) = out_queue s" "out_queue (s\<lparr>pl_accepted := es\<rparr>) = out_queue s"
  by (simp_all add: out_queue_def split: option.split)

lemma waiting_set: "out_queue s = Some q \<Longrightarrow> waiting pend (set_out_queue s q') = pend (eventQueue q')"
  by (simp add: waiting_def out_queue_set)

lemma queue_effects_pending:
  "queue_laws bq pend \<Longrightarrow> pend (eventQueue (fold (queue_effect bq) effs q)) = pend (eventQueue q)"
proof (induction effs arbitrary: q)
  case (Cons e effs)
  then show ?case by (cases e) (simp_all add: queue_lawsD(5))
qed simp

lemma fresh_taken: "fresh_batch w es \<Longrightarrow> map the (WrappedBatch_Events w) = es"
  by (simp add: fresh_batch_def WrappedBatch_Events_entries comp_def)

definition fresh_batches :: "('q, 'x, 'e) pipeline \<Rightarrow> bool" where
  "fresh_batches s \<longleftrightarrow> list_all (\<lambda>w. fresh_batch w (map the (WrappedBatch_Events w))) (pl_batches s)"

definition conserved :: "('q \<Rightarrow> 'e list) \<Rightarrow> ('q, 'x, 'e) pipeline \<Rightarrow> bool" where
  "conserved pend s \<longleftrightarrow>
     (out_queue s \<noteq> None \<and> (sr_queue (pl_runner s) \<noteq> None \<longrightarrow> pl_closed s = None)) \<and>
     pl_accepted s = taken s @ waiting pend s \<and> fresh_batches s"

lemma publish_runner_fields:
  "runner_Publish bq r e = (r', res) \<Longrightarrow>
     (sr_queue r' = None \<longleftrightarrow> sr_queue r = None) \<and> (sr_queue r = None \<longrightarrow> r' = r \<and> accepted_events e res = [])"
  "runner_TryPublish bq r e = (r', res) \<Longrightarrow>
     (sr_queue r' = None \<longleftrightarrow> sr_queue r = None) \<and> (sr_queue r = None \<longrightarrow> r' = r \<and> accepted_events e res = [])"
  by (auto simp: runner_Publish_def runner_TryPublish_def split: option.splits prod.splits)

lemma conserved_publish:
  assumes "conserved pend s"
    and "(sr_queue r = None \<longleftrightarrow> sr_queue (pl_runner s) = None) \<and>
         (sr_queue (pl_runner s) = None \<longrightarrow> r = pl_runner s \<and> acc = [])"
    and "runner_pending pend r = runner_pending pend (pl_runner s) @ acc"
  shows "conserved pend (s\<lparr>pl_runner := r, pl_accepted := pl_accepted s @ acc\<rparr>)"
proof (cases "sr_queue (pl_runner s)")
  case None
  with assms show ?thesis
    by (auto simp: conserved_def out_queue_def waiting_def taken_def fresh_batches_def)
next
  case (Some q)
  with assms(2) obtain q' where "sr_queue r = Some q'" by auto
  with Some assms show ?thesis
    by (simp add: conserved_def out_queue_def waiting_def taken_def fresh_batches_def runner_pending_def)
qed

lemma conserved_set:
  assumes "conserved pend s" "out_queue s = Some q" "pend (eventQueue q') = pend (eventQueue q)"
  shows "conserved pend ((set_out_queue s q')\<lparr>pl_inflight := ws, pl_completed := is'\<rparr>)"
    and "conserved pend (set_out_queue s q')"
proof -
  have side: "sr_queue (pl_runner (set_out_queue s q')) \<noteq> None \<longrightarrow> pl_closed (set_out_queue s q') = None"
    using assms(1) by (auto simp: conserved_def set_out_queue_def split: option.splits)
  have "waiting pend s = pend (eventQueue q)" using assms(2) by (simp add: waiting_def)
  with assms side waiting_set [OF assms(2), of pend q'] out_queue_set [OF assms(2), of q']
  show "conserved pend (set_out_queue s q')"
    by (simp add: conserved_def taken_def fresh_batches_def)
  then show "conserved pend ((set_out_queue s q')\<lparr>pl_inflight := ws, pl_completed := is'\<rparr>)"
    by (simp add: conserved_def taken_def fresh_batches_def waiting_def)
qed

lemma conserved_get:
  assumes "conserved pend s" "queue_laws bq pend" "out_queue s = Some q" "queue_Get bq q n = (q', Inr w)"
  shows "conserved pend ((set_out_queue s q')\<lparr>pl_inflight := ws, pl_batches := pl_batches s @ [w]\<rparr>)"
proof -
  obtain es where f: "fresh_batch w es" and p: "pend (eventQueue q) = es @ pend (eventQueue q')"
    using queue_Get_fresh [OF assms(2,4)] by metis
  let ?s = "set_out_queue s q'"
  have side: "sr_queue (pl_runner ?s) \<noteq> None \<longrightarrow> pl_closed ?s = None"
    using assms(1) by (auto simp: conserved_def set_out_queue_def split: option.splits)
  have "pl_accepted s = taken s @ es @ pend (eventQueue q')"
    using assms(1,3) p by (simp add: conserved_def waiting_def)
  with assms(1) side f fresh_taken [OF f] waiting_set [OF assms(3), of pend q'] out_queue_set [OF assms(3), of q']
  show ?thesis by (simp add: conserved_def taken_def fresh_batches_def waiting_def)
qed

lemma conserved_close:
  assumes "conserved pend s" "queue_laws bq pend" "runner_Close bq (pl_runner s) = (r, Some q, effs)"
  shows "conserved pend (s\<lparr>pl_runner := r, pl_closed := Some q\<rparr>)"
proof -
  obtain q0 where q0: "sr_queue (pl_runner s) = Some q0" "q = fst (queue_Close bq q0)" "sr_queue r = None"
    using assms(3) by (auto simp: runner_Close_def)
  then have "pend (eventQueue q) = pend (eventQueue q0)"
    using queue_lawsD(4) [OF assms(2), of "eventQueue q0"]
    by (auto simp: queue_Close_def split: prod.splits)
  with q0 assms(1) show ?thesis
    by (simp add: conserved_def out_queue_def waiting_def taken_def fresh_batches_def)
qed

lemma queue_Get_fails_pending:
  assumes "queue_laws bq pend" "queue_Get bq q n = (q', Inl err)"
  shows "pend (eventQueue q') = pend (eventQueue q)"
  using assms(2) get_law_err [OF queue_lawsD(3) [OF assms(1)]]
  by (auto simp: queue_Get_def split: prod.splits sum.splits)

lemma conserved_output_step:
  assumes "output_step bq s s'" "conserved pend s" "queue_laws bq pend"
  shows "conserved pend s'"
  using assms
proof (cases rule: output_step.cases)
  case (get q n q' w)
  with assms conserved_get show ?thesis by blast
next
  case (get_fails q n q' err)
  with assms conserved_set(2) queue_Get_fails_pending show ?thesis by metis
next
  case (done_call q i n w effs)
  with assms conserved_set(1) queue_effects_pending show ?thesis by metis
qed

lemma conserved_step:
  assumes "pipeline_step bq s s'" "conserved pend s" "queue_laws bq pend"
  shows "conserved pend s'"
  using assms
proof (cases rule: pipeline_step.cases)
  case (publish e r res)
  with assms show ?thesis
    using conserved_publish [OF assms(2) publish_runner_fields(1)] runner_Publish_pending [OF assms(3)] by blast
next
  case (try_publish e r res)
  with assms show ?thesis
    using conserved_publish [OF assms(2) publish_runner_fields(2)] runner_TryPublish_pending [OF assms(3)] by blast
next
  case by_output
  with assms conserved_output_step show ?thesis by blast
next
  case (close r q effs)
  with assms conserved_close show ?thesis by blast
next
  case (close_again r effs)
  then have "sr_queue (pl_runner s) = None" "sr_queue r = None" by (auto simp: runner_Close_def)
  with close_again(1) assms(2) show ?thesis
    by (simp add: conserved_def out_queue_def waiting_def taken_def fresh_batches_def)
qed

lemma conserved_steps:
  assumes "pipeline_steps bq s s'" "conserved pend s" "queue_laws bq pend"
  shows "conserved pend s'"
  using assms by (induction rule: rtranclp_induct) (auto intro: conserved_step)

lemma conserved_init:
  assumes "sr_queue r = Some q" "pend (eventQueue q) = []"
  shows "conserved pend (pipeline_init r)"
  using assms by (simp add: conserved_def pipeline_init_def out_queue_def waiting_def taken_def fresh_batches_def)

end
