(* ===== verification/Runner_Lock.thy ===== *)
theory Runner_Lock
  imports Pipeline
begin

text \<open>
  The mutex of \<^verbatim>\<open>src/publisherserver/server.go\<close>. The methods of the runner take \<open>queueMutex\<close> for their
  whole body, and two of them wait while they hold it: \<open>Publish\<close>, until libbeat's queue has room, and
  \<open>Close\<close>, until the output has finished. Here a waiting call is a state of its own, between a step
  that takes the mutex and a step that gives it back; the output works without the mutex. The theory
  shows that this machine implements the atomic steps of \<open>Pipeline\<close>, and what the waiting costs.

  Two things of the surroundings are arguments: whether \<open>Publish\<close> of libbeat's queue waits in a state
  of the queue (\<open>blocks\<close>), and when \<open>Wait\<close> of the output returns (\<open>finished\<close>).
\<close>

section \<open>The machine\<close>

datatype 'e mutex_holder = Free | Publishing 'e | Closing

record ('q, 'x, 'e) locked =
  lk_mutex :: "'e mutex_holder"
  lk_pipe :: "('q, 'x, 'e) pipeline"

abbreviation lk_runner :: "('q, 'x, 'e) locked \<Rightarrow> ('q, 'x) server_runner" where
  "lk_runner s \<equiv> pl_runner (lk_pipe s)"

definition queue_blocks :: "('q \<Rightarrow> bool) \<Rightarrow> ('q, 'x) server_runner \<Rightarrow> bool" where
  "queue_blocks blocks r = (case sr_queue r of None \<Rightarrow> False | Some q \<Rightarrow> blocks (eventQueue q))"

definition publish_result :: "('q, 'x, 'e) pipeline \<Rightarrow> ('q, 'x) server_runner \<Rightarrow> 'e \<Rightarrow> u64 result \<Rightarrow> ('q, 'x, 'e) pipeline" where
  "publish_result p r e res = p\<lparr>pl_runner := r, pl_accepted := pl_accepted p @ accepted_events e res\<rparr>"

text \<open>\<open>Publish\<close> takes the mutex and, without a queue, returns at once; else it calls the queue and gives
  the mutex back when that call returns. \<open>TryPublish\<close>, \<open>IsInitialized\<close> and \<open>PersistedIndex\<close> never wait
  once they have the mutex. \<open>Close\<close> closes the queue and then holds the mutex until the output is done.\<close>

inductive locked_step ::
    "('q, 'e) beats_queue \<Rightarrow> ('q \<Rightarrow> bool) \<Rightarrow> (('q, 'x, 'e) pipeline \<Rightarrow> bool) \<Rightarrow>
     ('q, 'x, 'e) locked \<Rightarrow> ('q, 'x, 'e) locked \<Rightarrow> bool" for bq blocks finished where
  publish_locks: "lk_mutex s = Free \<Longrightarrow> runner_IsInitialized (lk_runner s) \<Longrightarrow>
    locked_step bq blocks finished s (s\<lparr>lk_mutex := Publishing e\<rparr>)"
| publish_refused: "lk_mutex s = Free \<Longrightarrow> \<not> runner_IsInitialized (lk_runner s) \<Longrightarrow>
    runner_Publish bq (lk_runner s) e = (r, res) \<Longrightarrow>
    locked_step bq blocks finished s (s\<lparr>lk_pipe := publish_result (lk_pipe s) r e res\<rparr>)"
| publish_returns: "lk_mutex s = Publishing e \<Longrightarrow> \<not> queue_blocks blocks (lk_runner s) \<Longrightarrow>
    runner_Publish bq (lk_runner s) e = (r, res) \<Longrightarrow>
    locked_step bq blocks finished s (s\<lparr>lk_mutex := Free, lk_pipe := publish_result (lk_pipe s) r e res\<rparr>)"
| try_publish: "lk_mutex s = Free \<Longrightarrow> runner_TryPublish bq (lk_runner s) e = (r, res) \<Longrightarrow>
    locked_step bq blocks finished s (s\<lparr>lk_pipe := publish_result (lk_pipe s) r e res\<rparr>)"
| query: "lk_mutex s = Free \<Longrightarrow> locked_step bq blocks finished s s"
| by_output: "output_step bq (lk_pipe s) p \<Longrightarrow> locked_step bq blocks finished s (s\<lparr>lk_pipe := p\<rparr>)"
| close_locks: "lk_mutex s = Free \<Longrightarrow> runner_Close bq (lk_runner s) = (r, Some q, effs) \<Longrightarrow>
    locked_step bq blocks finished s
      (s\<lparr>lk_mutex := Closing, lk_pipe := (lk_pipe s)\<lparr>pl_runner := r, pl_closed := Some q\<rparr>\<rparr>)"
| close_noop: "lk_mutex s = Free \<Longrightarrow> runner_Close bq (lk_runner s) = (r, None, effs) \<Longrightarrow>
    locked_step bq blocks finished s (s\<lparr>lk_pipe := (lk_pipe s)\<lparr>pl_runner := r\<rparr>\<rparr>)"
| close_returns: "lk_mutex s = Closing \<Longrightarrow> finished (lk_pipe s) \<Longrightarrow>
    locked_step bq blocks finished s (s\<lparr>lk_mutex := Free\<rparr>)"

abbreviation locked_steps ::
    "('q, 'e) beats_queue \<Rightarrow> ('q \<Rightarrow> bool) \<Rightarrow> (('q, 'x, 'e) pipeline \<Rightarrow> bool) \<Rightarrow>
     ('q, 'x, 'e) locked \<Rightarrow> ('q, 'x, 'e) locked \<Rightarrow> bool" where
  "locked_steps bq blocks finished \<equiv> (locked_step bq blocks finished)\<^sup>*\<^sup>*"

definition locked_init :: "('q, 'x) server_runner \<Rightarrow> ('q, 'x, 'e) locked" where
  "locked_init r = \<lparr>lk_mutex = Free, lk_pipe = pipeline_init r\<rparr>"

section \<open>Refinement of the atomic steps\<close>

lemma locked_step_simulated:
  assumes "locked_step bq blocks finished s s'"
  shows "pipeline_steps bq (lk_pipe s) (lk_pipe s')"
  using assms
proof cases
  case (publish_refused e r res)
  then show ?thesis
    using pipeline_step.publish [of bq "lk_pipe s" e r res] by (auto simp: publish_result_def)
next
  case (publish_returns e r res)
  then show ?thesis
    using pipeline_step.publish [of bq "lk_pipe s" e r res] by (auto simp: publish_result_def)
next
  case (try_publish e r res)
  then show ?thesis
    using pipeline_step.try_publish [of bq "lk_pipe s" e r res] by (auto simp: publish_result_def)
qed (auto intro: pipeline_step.intros)

lemma locked_steps_simulated:
  assumes "locked_steps bq blocks finished s s'"
  shows "pipeline_steps bq (lk_pipe s) (lk_pipe s')"
  using assms
  by (induction rule: rtranclp_induct) (auto dest: locked_step_simulated intro: rtranclp_trans)

section \<open>What the mutex protects\<close>

text \<open>While \<open>Publish\<close> waits the runner has its queue and it is open; while \<open>Close\<close> waits there is none.\<close>

fun mutex_wf :: "'e mutex_holder \<Rightarrow> ('q, 'x, 'e) pipeline \<Rightarrow> bool" where
  "mutex_wf Free p = True"
| "mutex_wf (Publishing e) p = runner_IsInitialized (pl_runner p)"
| "mutex_wf Closing p = (\<not> runner_IsInitialized (pl_runner p))"

lemma output_step_keeps:
  assumes "output_step bq p p'"
  shows "runner_IsInitialized (pl_runner p') = runner_IsInitialized (pl_runner p)"
    and "pl_accepted p' = pl_accepted p"
    and "runner_IsInitialized (pl_runner p) \<Longrightarrow> pl_closed p' = pl_closed p"
  using assms
  by (auto elim!: output_step.cases simp: set_out_queue_def runner_IsInitialized_def split: option.splits)

lemma mutex_wf_step:
  assumes "locked_step bq blocks finished s s'" "mutex_wf (lk_mutex s) (lk_pipe s)"
  shows "mutex_wf (lk_mutex s') (lk_pipe s')"
  using assms
proof cases
  case (by_output p)
  then show ?thesis using assms(2) output_step_keeps(1) [OF by_output(2)]
    by (cases "lk_mutex s") auto
next
  case (close_locks r q effs)
  then show ?thesis by (auto simp: runner_Close_def runner_IsInitialized_def)
qed auto

lemma mutex_wf_steps:
  assumes "locked_steps bq blocks finished s s'" "mutex_wf (lk_mutex s) (lk_pipe s)"
  shows "mutex_wf (lk_mutex s') (lk_pipe s')"
  using assms by (induction rule: rtranclp_induct) (auto intro: mutex_wf_step)

text \<open>C3: the runner's mutex makes its methods atomic although two of them wait while they hold it:
  in every state reachable from a fresh start, with clients publishing, asking and closing and the
  output working beside them, the accepted events are those taken by the output followed by those
  waiting; a \<open>Publish\<close> that waits for room still has its queue, and while \<open>Close\<close> waits for the output
  no queue is there to publish to.\<close>

theorem locked_runner_conserves:
  assumes "queue_laws bq pend" "sr_queue r = Some q" "pend (eventQueue q) = []"
    and "locked_steps bq blocks finished (locked_init r) s"
  shows "pl_accepted (lk_pipe s) = taken (lk_pipe s) @ waiting pend (lk_pipe s) \<and>
    (case lk_mutex s of
       Free \<Rightarrow> True
     | Publishing e \<Rightarrow> runner_IsInitialized (lk_runner s)
     | Closing \<Rightarrow> \<not> runner_IsInitialized (lk_runner s))"
proof -
  have "conserved pend (lk_pipe s)"
    using conserved_steps [OF locked_steps_simulated [OF assms(4)] _ assms(1)] conserved_init [of r q pend, OF assms(2,3)]
    by (simp add: locked_init_def)
  moreover have "mutex_wf (lk_mutex s) (lk_pipe s)"
    using mutex_wf_steps [OF assms(4)] by (simp add: locked_init_def)
  ultimately show ?thesis
    by (cases "lk_mutex s") (simp_all add: conserved_def)
qed

section \<open>What waiting costs\<close>

lemma blocked_step:
  assumes "locked_step bq blocks finished s s'" "lk_mutex s = Publishing e"
    and "queue_blocks blocks (lk_runner s)"
  shows "lk_mutex s' = Publishing e \<and> output_step bq (lk_pipe s) (lk_pipe s')"
  using assms by cases auto

text \<open>C39: while \<open>Publish\<close> waits for room it keeps the mutex, so \<open>Close\<close>, which would end the wait by closing
  the queue, cannot begin: as long as the queue stays full, whatever the output does and however
  long it takes, the same call holds the mutex, the queue is neither dropped nor closed, and nothing
  is accepted.\<close>

theorem waiting_publish_excludes_close:
  assumes "(\<lambda>s s'. locked_step bq blocks finished s s' \<and> queue_blocks blocks (lk_runner s'))\<^sup>*\<^sup>* s s'"
    and "lk_mutex s = Publishing e" "queue_blocks blocks (lk_runner s)"
  shows "lk_mutex s' = Publishing e \<and> runner_IsInitialized (lk_runner s') \<and>
    pl_closed (lk_pipe s') = pl_closed (lk_pipe s) \<and> pl_accepted (lk_pipe s') = pl_accepted (lk_pipe s)"
  using assms(1)
proof (induction rule: rtranclp_induct)
  case base
  with assms show ?case by (auto simp: queue_blocks_def runner_IsInitialized_def split: option.splits)
next
  case (step t u)
  have "queue_blocks blocks (lk_runner t)"
    using step.hyps(1) assms(3) by (cases rule: rtranclp.cases) auto
  with step blocked_step [of bq blocks finished t u e] output_step_keeps [of bq "lk_pipe t" "lk_pipe u"]
  show ?case by simp
qed

lemma locked_Close_free:
  assumes "runner_IsInitialized (lk_runner s)" "lk_mutex s = Free"
  shows "\<exists>s'. locked_step bq blocks finished s s' \<and> lk_mutex s' = Closing"
proof -
  obtain q where "sr_queue (lk_runner s) = Some q"
    using assms(1) by (auto simp: runner_IsInitialized_def)
  then obtain r effs where "runner_Close bq (lk_runner s) = (r, Some (fst (queue_Close bq q)), effs)"
    by (simp add: runner_Close_def)
  from locked_step.close_locks [of s bq, OF assms(2) this] show ?thesis by fastforce
qed

text \<open>Room in the queue is all the waiting call needs: then it returns, and \<open>Close\<close> can go ahead.\<close>

lemma room_lets_close_begin:
  assumes "lk_mutex s = Publishing e" "runner_IsInitialized (lk_runner s)"
    and "\<not> queue_blocks blocks (lk_runner s)"
  shows "\<exists>s'. locked_steps bq blocks finished s s' \<and> lk_mutex s' = Closing"
proof -
  obtain r res where p: "runner_Publish bq (lk_runner s) e = (r, res)" by force
  let ?t = "s\<lparr>lk_mutex := Free, lk_pipe := publish_result (lk_pipe s) r e res\<rparr>"
  have "locked_step bq blocks finished s ?t" by (rule publish_returns [OF assms(1,3) p])
  moreover have "runner_IsInitialized (lk_runner ?t)"
    using publish_runner_fields(1) [OF p] assms(2) by (simp add: publish_result_def runner_IsInitialized_def)
  then obtain s' where "locked_step bq blocks finished ?t s'" "lk_mutex s' = Closing"
    using locked_Close_free [of ?t bq blocks finished] by auto
  ultimately show ?thesis by (meson rtranclp.rtrancl_refl converse_rtranclp_into_rtranclp)
qed

section \<open>Examples\<close>

definition fifo_full :: "'e fifo \<Rightarrow> bool" where
  "fifo_full q \<longleftrightarrow> \<not> fifo_closed q \<and> fifo_cap q \<le> length (fifo_pending q)"

text \<open>A queue of one entry, a first event accepted and a second call waiting.\<close>

definition waiting_state :: "(nat fifo, unit, nat) locked" where
  "waiting_state = \<lparr>lk_mutex = Publishing 8,
     lk_pipe = (pipeline_init (example_runner 1))\<lparr>
       pl_runner := fst (runner_Publish fifo_queue (example_runner 1) 7), pl_accepted := [7]\<rparr>\<rparr>"

lemma waiting_state_runner:
  "lk_runner waiting_state = (example_runner 1)\<lparr>sr_queue := Some \<lparr>queue_cfg = queue_DefaultConfig,
     eventQueue = \<lparr>fifo_pending = [7], fifo_newest = 1, fifo_cap = 1, fifo_closed = False\<rparr>\<rparr>\<rparr>"
  by (simp add: waiting_state_def example_runner_def NewOutputServer_def runner_Publish_def queue_Publish_def fifo_queue_def
      fifo_put_def fifo_new_def)

lemma waiting_state_reached:
  "locked_steps fifo_queue fifo_full (\<lambda>_. True) (locked_init (example_runner 1)) waiting_state"
proof -
  let ?s = "locked_init (example_runner 1) :: (nat fifo, unit, nat) locked"
  obtain r i where p: "runner_Publish fifo_queue (lk_runner ?s) 7 = (r, Inr i)"
    by (simp add: locked_init_def pipeline_init_def example_runner_def runner_Publish_def queue_Publish_def
        fifo_queue_def fifo_put_def fifo_new_def)
  let ?t = "?s\<lparr>lk_mutex := Publishing 7\<rparr>"
  let ?u = "?t\<lparr>lk_mutex := Free, lk_pipe := publish_result (lk_pipe ?t) r 7 (Inr i)\<rparr>"
  have "locked_step fifo_queue fifo_full (\<lambda>_. True) ?s ?t"
    by (rule publish_locks) (simp_all add: locked_init_def pipeline_init_def example_runner_def runner_IsInitialized_def)
  moreover have "locked_step fifo_queue fifo_full (\<lambda>_. True) ?t ?u"
    using p by (intro publish_returns)
      (simp_all add: queue_blocks_def fifo_full_def locked_init_def pipeline_init_def example_runner_def fifo_new_def)
  moreover have "locked_step fifo_queue fifo_full (\<lambda>_. True) ?u (?u\<lparr>lk_mutex := Publishing 8\<rparr>)"
    using publish_runner_fields(1) [OF p]
    by (intro publish_locks) (simp_all add: publish_result_def locked_init_def pipeline_init_def example_runner_def
        runner_IsInitialized_def)
  moreover have "?u\<lparr>lk_mutex := Publishing 8\<rparr> = waiting_state"
    using p by (simp add: waiting_state_def publish_result_def locked_init_def pipeline_init_def)
  ultimately show ?thesis by (metis (no_types) converse_rtranclp_into_rtranclp r_into_rtranclp)
qed

theorem locked_runner_conserves_witness:
  "pl_accepted (lk_pipe waiting_state) = taken (lk_pipe waiting_state) @ [7] \<and>
   runner_IsInitialized (lk_runner waiting_state)"
proof -
  have "sr_queue (example_runner 1 :: (nat fifo, unit) server_runner) =
      Some \<lparr>queue_cfg = queue_DefaultConfig, eventQueue = fifo_new 1\<rparr>"
    by (simp add: example_runner_def)
  from locked_runner_conserves [OF fifo_laws this _ waiting_state_reached] waiting_state_runner show ?thesis
    by (simp add: fifo_new_def waiting_def out_queue_def) (simp add: waiting_state_def)
qed

theorem waiting_publish_excludes_close_witness:
  "locked_steps fifo_queue fifo_full (\<lambda>_. True) (locked_init (example_runner 1)) waiting_state \<and>
   lk_mutex waiting_state = Publishing 8 \<and> runner_IsInitialized (lk_runner waiting_state)"
proof -
  have "queue_blocks fifo_full (lk_runner waiting_state)"
    by (simp add: waiting_state_runner queue_blocks_def fifo_full_def)
  from waiting_publish_excludes_close [of fifo_queue fifo_full "\<lambda>_. True", OF rtranclp.rtrancl_refl _ this, of 8]
  show ?thesis using waiting_state_reached
    by (simp add: waiting_state_def)
qed

end
