(* ===== verification/Persistence.thy ===== *)
theory Persistence
  imports Pipeline
begin

text \<open>
  The persisted index: what \<open>PersistedIndex\<close> of \<^verbatim>\<open>src/queue/queue.go\<close> and of the runner tells the
  subscribers of the gRPC service (\<^verbatim>\<open>src/grpcserver/server.go\<close>) about the events the output has
  finished with. The memory queue of libbeat releases its entries in the order of the batches, each
  when its \<open>Done\<close> was called; this documented behaviour is \<open>release_laws\<close>, over a view of the queue as
  the ledger of its batches. The theory relates the ledger to the batches of the pipeline, and shows
  that the index never runs ahead of the output and never goes back.
\<close>

section \<open>What the queue promises\<close>

text \<open>The ledger: the batches handed out so far, each with its identity, its number of entries and
  whether it is done. The entries of the batches before the first that is not done are released.\<close>

type_synonym ledger = "(nat \<times> nat \<times> bool) list"

definition released :: "ledger \<Rightarrow> nat" where
  "released l = sum_list (map (\<lambda>(i, n, d). n) (takeWhile (\<lambda>(i, n, d). d) l))"

definition mark_done :: "nat set \<Rightarrow> ledger \<Rightarrow> ledger" where
  "mark_done is = map (\<lambda>(i, n, d). (i, n, d \<or> i \<in> is))"

definition release_laws :: "('q, 'e) beats_queue \<Rightarrow> ('q \<Rightarrow> ledger) \<Rightarrow> nat \<Rightarrow> bool" where
  "release_laws bq ledger first \<longleftrightarrow>
     (\<forall>q e. ledger (fst (beats_Publish bq q e)) = ledger q) \<and>
     (\<forall>q e. ledger (fst (beats_TryPublish bq q e)) = ledger q) \<and>
     (\<forall>q n q' err. beats_Get bq q n = (q', Inl err) \<longrightarrow> ledger q' = ledger q) \<and>
     (\<forall>q n q' b. beats_Get bq q n = (q', Inr b) \<longrightarrow>
        batch_id b \<notin> fst ` set (ledger q) \<and>
        ledger q' = ledger q @ [(batch_id b, length (batch_entries b), False)]) \<and>
     (\<forall>q. ledger (fst (beats_Close bq q)) = ledger q) \<and>
     (\<forall>q i. ledger (beats_Done bq q i) = mark_done {i} (ledger q)) \<and>
     (\<forall>q m. beats_Metrics bq q = Inr m \<longrightarrow> OldestEntryID m = word_of_nat (first + released (ledger q)))"

lemma release_lawsD:
  assumes "release_laws bq ledger first"
  shows "ledger (fst (beats_Publish bq q e)) = ledger q" "ledger (fst (beats_TryPublish bq q e)) = ledger q"
    "beats_Get bq q n = (q', Inl err) \<Longrightarrow> ledger q' = ledger q"
    "beats_Get bq q n = (q', Inr b) \<Longrightarrow> batch_id b \<notin> fst ` set (ledger q) \<and>
      ledger q' = ledger q @ [(batch_id b, length (batch_entries b), False)]"
    "ledger (fst (beats_Close bq q)) = ledger q" "ledger (beats_Done bq q i) = mark_done {i} (ledger q)"
    "beats_Metrics bq q = Inr m \<Longrightarrow> OldestEntryID m = word_of_nat (first + released (ledger q))"
  using assms unfolding release_laws_def by blast+

lemma mark_done_simps [simp]:
  "mark_done {} l = l" "mark_done js (mark_done is l) = mark_done (is \<union> js) l"
  by (auto simp: mark_done_def split_def)

lemma released_Cons:
  "released ((i, n, d) # l) = (if d then n + released l else 0)"
  by (simp add: released_def)

lemma released_append: "released l \<le> released (l @ l')"
proof (induction l)
  case (Cons x l)
  then show ?case by (cases x) (simp add: released_Cons)
qed (simp add: released_def)

lemma released_mark_done: "released l \<le> released (mark_done is l)"
proof (induction l)
  case (Cons x l)
  then show ?case by (cases x) (simp add: released_Cons mark_done_def)
qed (simp add: released_def)

section \<open>The ledger and the batches of the pipeline\<close>

abbreviation wb_id :: "('e, 'c) wrapped_batch \<Rightarrow> nat" where
  "wb_id w \<equiv> batch_id (wb_batch w)"

definition entry :: "nat list \<Rightarrow> ('e, 'c) wrapped_batch \<Rightarrow> nat \<times> nat \<times> bool" where
  "entry completed w = (wb_id w, length (WrappedBatch_Events w), wb_id w \<in> set completed)"

definition ledger_ok :: "('q \<Rightarrow> ledger) \<Rightarrow> ('q, 'x, 'e) pipeline \<Rightarrow> bool" where
  "ledger_ok ledger s \<longleftrightarrow>
     (case out_queue s of
        None \<Rightarrow> False
      | Some q \<Rightarrow> ledger (eventQueue q) = map (entry (pl_completed s)) (pl_batches s)) \<and>
     wb_id ` set (pl_inflight s) \<subseteq> wb_id ` set (pl_batches s) \<and>
     set (pl_completed s) \<subseteq> wb_id ` set (pl_batches s)"

lemma ledger_okD:
  assumes "ledger_ok ledger s" "out_queue s = Some q"
  shows "ledger (eventQueue q) = map (entry (pl_completed s)) (pl_batches s)"
  using assms by (simp add: ledger_ok_def)

lemma queue_ops_ledger:
  assumes "release_laws bq ledger first"
  shows "queue_Publish bq q e = (q', r) \<Longrightarrow> ledger (eventQueue q') = ledger (eventQueue q)"
    and "queue_TryPublish bq q e = (q', r) \<Longrightarrow> ledger (eventQueue q') = ledger (eventQueue q)"
    and "ledger (eventQueue (fst (queue_Close bq q))) = ledger (eventQueue q)"
  using release_lawsD(1) [OF assms, of "eventQueue q" e] release_lawsD(2) [OF assms, of "eventQueue q" e]
    release_lawsD(5) [OF assms, of "eventQueue q"]
  by (auto simp: queue_Publish_def queue_TryPublish_def queue_Close_def split: prod.splits)

lemma publish_ledger:
  assumes "release_laws bq ledger first"
  shows "runner_Publish bq r e = (r', res) \<Longrightarrow>
      map_option (ledger \<circ> eventQueue) (sr_queue r') = map_option (ledger \<circ> eventQueue) (sr_queue r)"
    and "runner_TryPublish bq r e = (r', res) \<Longrightarrow>
      map_option (ledger \<circ> eventQueue) (sr_queue r') = map_option (ledger \<circ> eventQueue) (sr_queue r)"
  using queue_ops_ledger(1,2) [OF assms]
  by (auto simp: runner_Publish_def runner_TryPublish_def split: option.splits prod.splits)

lemma ledger_effects:
  assumes "release_laws bq ledger first"
  shows "ledger (eventQueue (fold (queue_effect bq) effs q)) =
    mark_done (set (batches_done effs)) (ledger (eventQueue q))"
proof (induction effs arbitrary: q)
  case (Cons x effs)
  then show ?case
    using release_lawsD(6) [OF assms] by (cases x) (simp_all add: batches_done_def Un_commute)
qed (simp add: batches_done_def)

lemma batches_done_WrappedBatch_Done:
  "WrappedBatch_Done w n = (w', effs) \<Longrightarrow> set (batches_done effs) \<subseteq> {wb_id w} \<and> wb_batch w' = wb_batch w"
  by (auto simp: WrappedBatch_Done_def Let_def batches_done_def split: if_splits option.splits)

text \<open>The released entries are those of a prefix of the batches, all of them done.\<close>

lemma released_entries:
  "released (map (entry completed) ws) =
   sum_list (map (length \<circ> WrappedBatch_Events) (takeWhile (\<lambda>w. wb_id w \<in> set completed) ws))"
  by (induction ws) (simp_all add: released_def entry_def)

lemma mark_done_entries:
  "mark_done (set is) (map (entry completed) ws) = map (entry (completed @ is)) ws"
  by (simp add: mark_done_def entry_def comp_def)

lemma ledger_ok_publish:
  assumes "ledger_ok ledger s"
    and "map_option (ledger \<circ> eventQueue) (sr_queue r) =
      map_option (ledger \<circ> eventQueue) (sr_queue (pl_runner s))"
  shows "ledger_ok ledger (s\<lparr>pl_runner := r, pl_accepted := acc\<rparr>)"
  using assms
  by (cases "sr_queue r"; cases "sr_queue (pl_runner s)") (auto simp: ledger_ok_def out_queue_def split: option.splits)

lemma ledger_ok_close:
  assumes "ledger_ok ledger s" "release_laws bq ledger first"
    and "runner_Close bq (pl_runner s) = (r, Some q, effs)"
  shows "ledger_ok ledger (s\<lparr>pl_runner := r, pl_closed := Some q\<rparr>)"
proof -
  obtain q0 where "sr_queue (pl_runner s) = Some q0" "q = fst (queue_Close bq q0)" "sr_queue r = None"
    using assms(3) by (auto simp: runner_Close_def)
  with assms(1) queue_ops_ledger(3) [OF assms(2), of q0] show ?thesis
    by (simp add: ledger_ok_def out_queue_def)
qed

lemma ledger_ok_get:
  assumes "ledger_ok ledger s" "release_laws bq ledger first" "out_queue s = Some q"
    and "queue_Get bq q n = (q', Inr w)"
  shows "ledger_ok ledger ((set_out_queue s q')\<lparr>pl_inflight := pl_inflight s @ [w],
    pl_batches := pl_batches s @ [w]\<rparr>)"
proof -
  obtain b where b: "beats_Get bq (eventQueue q) n = (eventQueue q', Inr b)" "wb_batch w = b"
    using assms(4) by (auto simp: queue_Get_def split: prod.splits sum.splits)
  note l = ledger_okD [OF assms(1,3)]
  have led: "ledger (eventQueue q') = map (entry (pl_completed s)) (pl_batches s) @ [(wb_id w, length (batch_entries b), False)]"
    and fresh: "wb_id w \<notin> wb_id ` set (pl_batches s)"
    using release_lawsD(4) [OF assms(2) b(1)] b(2) l by (simp_all add: entry_def image_image)
  have "wb_id w \<notin> set (pl_completed s)" using fresh assms(1) by (auto simp: ledger_ok_def)
  with led b(2) have "ledger (eventQueue q') = map (entry (pl_completed s)) (pl_batches s @ [w])"
    by (simp add: entry_def WrappedBatch_Events_entries)
  with assms(1) out_queue_set [OF assms(3), of q'] show ?thesis by (auto simp: ledger_ok_def)
qed

lemma ledger_ok_done:
  assumes "ledger_ok ledger s" "release_laws bq ledger first" "out_queue s = Some q"
    and "i < length (pl_inflight s)" "WrappedBatch_Done (pl_inflight s ! i) n = (w, effs)"
  shows "ledger_ok ledger ((set_out_queue s (fold (queue_effect bq) effs q))\<lparr>
    pl_inflight := (pl_inflight s)[i := w], pl_completed := pl_completed s @ batches_done effs\<rparr>)"
proof -
  note d = batches_done_WrappedBatch_Done [OF assms(5)]
  have i: "wb_id (pl_inflight s ! i) \<in> wb_id ` set (pl_batches s)"
    using assms(1,4) by (auto simp: ledger_ok_def)
  have "wb_id ` set ((pl_inflight s)[i := w]) \<subseteq> insert (wb_id w) (wb_id ` set (pl_inflight s))"
    using set_update_subset_insert [of "pl_inflight s" i w] by blast
  also have "\<dots> \<subseteq> wb_id ` set (pl_batches s)"
    using assms(1) d i by (simp add: ledger_ok_def)
  finally have "wb_id ` set ((pl_inflight s)[i := w]) \<subseteq> wb_id ` set (pl_batches s)" .
  moreover have "set (pl_completed s @ batches_done effs) \<subseteq> wb_id ` set (pl_batches s)"
    using assms(1) d i by (auto simp: ledger_ok_def)
  moreover have "ledger (eventQueue (fold (queue_effect bq) effs q)) =
      map (entry (pl_completed s @ batches_done effs)) (pl_batches s)"
    using ledger_effects [OF assms(2)] ledger_okD [OF assms(1,3)] by (simp add: mark_done_entries)
  ultimately show ?thesis
    using out_queue_set [OF assms(3)] by (simp add: ledger_ok_def)
qed

lemma ledger_ok_output_step:
  assumes "output_step bq s s'" "ledger_ok ledger s" "release_laws bq ledger first"
  shows "ledger_ok ledger s'"
  using assms(1)
proof cases
  case (get q n q' w)
  with assms ledger_ok_get show ?thesis by blast
next
  case (get_fails q n q' err)
  then have "beats_Get bq (eventQueue q) n = (eventQueue q', Inl err)"
    by (auto simp: queue_Get_def split: prod.splits sum.splits)
  from release_lawsD(3) [OF assms(3) this] get_fails assms(2) out_queue_set [OF get_fails(2), of q']
  show ?thesis by (simp add: ledger_ok_def)
next
  case (done_call q i n w effs)
  with assms ledger_ok_done show ?thesis by blast
qed

lemma ledger_ok_step:
  assumes "pipeline_step bq s s'" "ledger_ok ledger s" "release_laws bq ledger first"
  shows "ledger_ok ledger s'"
  using assms(1)
proof cases
  case (publish e r res)
  with assms ledger_ok_publish publish_ledger(1) [OF assms(3)] show ?thesis by blast
next
  case (try_publish e r res)
  with assms ledger_ok_publish publish_ledger(2) [OF assms(3)] show ?thesis by blast
next
  case by_output
  with assms ledger_ok_output_step show ?thesis by blast
next
  case (close r q effs)
  with assms ledger_ok_close show ?thesis by blast
next
  case (close_again r effs)
  then have "sr_queue r = None" "sr_queue (pl_runner s) = None" by (auto simp: runner_Close_def)
  with close_again(1) assms(2) show ?thesis by (simp add: ledger_ok_def out_queue_def split: option.splits)
qed

lemma ledger_ok_steps:
  assumes "pipeline_steps bq s s'" "ledger_ok ledger s" "release_laws bq ledger first"
  shows "ledger_ok ledger s'"
  using assms by (induction rule: rtranclp_induct) (auto intro: ledger_ok_step)

lemma ledger_ok_init:
  assumes "sr_queue r = Some q" "ledger (eventQueue q) = []"
  shows "ledger_ok ledger (pipeline_init r)"
  using assms by (simp add: ledger_ok_def pipeline_init_def out_queue_def)

section \<open>The index never runs ahead\<close>

definition released_count :: "('q, 'x, 'e) pipeline \<Rightarrow> nat" where
  "released_count s = released (map (entry (pl_completed s)) (pl_batches s))"

lemma reading_is_released:
  assumes "release_laws bq ledger first" "ledger_ok ledger s"
    and "runner_PersistedIndex bq (pl_runner s) = Inr i"
    and "map_option queue_cfg (out_queue s) = Some cfg" "\<not> useDiskQueue cfg"
  shows "i = word_of_nat (first + released_count s)"
proof -
  obtain q where q: "sr_queue (pl_runner s) = Some q" "queue_PersistedIndex bq q = Inr i"
    using assms(3) by (auto simp: runner_PersistedIndex_def split: option.splits)
  moreover from q assms(4,5) have "\<not> useDiskQueue (queue_cfg q)" by (simp add: out_queue_def)
  ultimately obtain m where "beats_Metrics bq (eventQueue q) = Inr m" "i = OldestEntryID m"
    by (auto simp: queue_PersistedIndex_def split: sum.splits)
  with release_lawsD(7) [OF assms(1)] ledger_okD [OF assms(2), of q] q(1) show ?thesis
    by (simp add: out_queue_def released_count_def)
qed

lemma taken_prefix:
  assumes "conserved pend s"
  shows "take (sum_list (map (length \<circ> WrappedBatch_Events) (take k (pl_batches s)))) (pl_accepted s) =
    concat (map (\<lambda>w. map the (WrappedBatch_Events w)) (take k (pl_batches s)))"
proof -
  let ?f = "\<lambda>w. map the (WrappedBatch_Events w)"
  have "pl_accepted s = concat (map ?f (take k (pl_batches s))) @ concat (map ?f (drop k (pl_batches s))) @ waiting pend s"
    using assms unfolding conserved_def taken_def
    by (metis append.assoc append_take_drop_id concat_append map_append)
  moreover have "length (concat (map ?f (take k (pl_batches s)))) =
      sum_list (map (length \<circ> WrappedBatch_Events) (take k (pl_batches s)))"
    by (simp add: length_concat comp_def)
  ultimately show ?thesis by simp
qed

text \<open>C7: the persisted index never runs ahead of the output. With the memory queue, whenever a
  subscriber asks, there is a number of batches, the first ones the output took, all of which it has
  acknowledged completely while the next, if any, is not; their events are the first events accepted, in the
  order of acceptance, and the index is the first index of the queue plus the number of these events.\<close>

theorem persisted_index_covers_completed:
  assumes "queue_laws bq pend" "release_laws bq ledger first"
    and "sr_queue r = Some q0" "pend (eventQueue q0) = []" "ledger (eventQueue q0) = []"
    and "pipeline_steps bq (pipeline_init r) s"
    and "sr_queue (pl_runner s) = Some q" "\<not> useDiskQueue (queue_cfg q)"
    and "runner_PersistedIndex bq (pl_runner s) = Inr idx"
  shows "\<exists>k covered. k \<le> length (pl_batches s) \<and>
    covered = concat (map (\<lambda>w. map the (WrappedBatch_Events w)) (take k (pl_batches s))) \<and>
    idx = word_of_nat (first + length covered) \<and> prefix covered (pl_accepted s) \<and>
    (\<forall>w \<in> set (take k (pl_batches s)). batch_id (wb_batch w) \<in> set (pl_completed s)) \<and>
    (k < length (pl_batches s) \<longrightarrow> batch_id (wb_batch (pl_batches s ! k)) \<notin> set (pl_completed s))"
proof -
  let ?P = "\<lambda>w. wb_id w \<in> set (pl_completed s)"
  have c: "conserved pend s"
    by (rule conserved_steps [OF assms(6) conserved_init [of r q0 pend, OF assms(3,4)] assms(1)])
  have l: "ledger_ok ledger s"
    by (rule ledger_ok_steps [OF assms(6) ledger_ok_init [of r q0 ledger, OF assms(3,5)] assms(2)])
  define k where "k = length (takeWhile ?P (pl_batches s))"
  define covered where "covered = (\<lambda>k. concat (map (\<lambda>w. map the (WrappedBatch_Events w)) (take k (pl_batches s))))"
  have tw: "takeWhile ?P (pl_batches s) = take k (pl_batches s)" unfolding k_def by (rule takeWhile_eq_take)
  have "idx = word_of_nat (first + sum_list (map (length \<circ> WrappedBatch_Events) (take k (pl_batches s))))"
    using reading_is_released [OF assms(2) l assms(9)] assms(7,8) tw
    by (simp add: out_queue_def released_count_def released_entries)
  moreover have "k \<le> length (pl_batches s)" by (simp add: k_def length_takeWhile_le)
  moreover have "\<forall>w \<in> set (take k (pl_batches s)). ?P w"
    unfolding tw [symmetric] by (auto dest: set_takeWhileD)
  moreover have "k < length (pl_batches s) \<longrightarrow> \<not> ?P (pl_batches s ! k)"
    unfolding k_def using nth_length_takeWhile [of ?P "pl_batches s"] by blast
  moreover have "prefix (covered k) (pl_accepted s)" "length (covered k) =
      sum_list (map (length \<circ> WrappedBatch_Events) (take k (pl_batches s)))"
    using taken_prefix [OF c, of k] take_is_prefix [of _ "pl_accepted s"]
    by (metis covered_def, simp add: covered_def length_concat comp_def)
  ultimately show ?thesis by (intro exI [of _ k] exI [of _ "covered k"]) (simp add: covered_def)
qed

section \<open>The index never goes back\<close>

lemma step_history:
  assumes "pipeline_step bq s s'"
  shows "(\<exists>bs. pl_batches s' = pl_batches s @ bs) \<and> (\<exists>cs. pl_completed s' = pl_completed s @ cs) \<and>
    map_option queue_cfg (out_queue s') = map_option queue_cfg (out_queue s)"
  using assms
proof cases
  case (publish e r res)
  then show ?thesis
    by (auto simp: out_queue_def runner_Publish_def queue_Publish_def split: option.splits prod.splits)
next
  case (try_publish e r res)
  then show ?thesis
    by (auto simp: out_queue_def runner_TryPublish_def queue_TryPublish_def split: option.splits prod.splits)
next
  case by_output
  have cfg: "queue_cfg (fold (queue_effect bq) effs q) = queue_cfg q" for effs q
  proof (induction effs arbitrary: q)
    case (Cons x effs)
    then show ?case by (cases x) simp_all
  qed simp
  from by_output show ?thesis
    by cases (auto simp: out_queue_set cfg queue_Get_def split: prod.splits sum.splits)
next
  case (close r q effs)
  then obtain q0 where "sr_queue (pl_runner s) = Some q0" "q = fst (queue_Close bq q0)" "sr_queue r = None"
    by (auto simp: runner_Close_def)
  with close show ?thesis by (simp add: out_queue_def queue_Close_def split: prod.splits)
next
  case (close_again r effs)
  then show ?thesis by (auto simp: out_queue_def runner_Close_def)
qed

lemma steps_history:
  assumes "pipeline_steps bq s s'"
  shows "(\<exists>bs. pl_batches s' = pl_batches s @ bs) \<and> (\<exists>cs. pl_completed s' = pl_completed s @ cs) \<and>
    map_option queue_cfg (out_queue s') = map_option queue_cfg (out_queue s)"
  using assms by (induction rule: rtranclp_induct) (auto dest!: step_history)

lemma released_count_mono:
  assumes "pipeline_steps bq s s'"
  shows "released_count s \<le> released_count s'"
proof -
  obtain bs cs where h: "pl_batches s' = pl_batches s @ bs" "pl_completed s' = pl_completed s @ cs"
    using steps_history [OF assms] by blast
  have "released_count s \<le> released (mark_done (set cs) (map (entry (pl_completed s)) (pl_batches s)))"
    unfolding released_count_def by (rule released_mark_done)
  also have "\<dots> \<le> released_count s'"
    unfolding released_count_def mark_done_entries h map_append by (rule released_append)
  finally show ?thesis .
qed

lemma released_count_accepted: "conserved pend s \<Longrightarrow> released_count s \<le> length (pl_accepted s)"
proof -
  assume "conserved pend s"
  then have "length (taken s) \<le> length (pl_accepted s)" by (simp add: conserved_def)
  moreover have "released (map (entry c) ws) \<le> length (concat (map (\<lambda>w. map the (WrappedBatch_Events w)) ws))"
    for c and ws :: "('b, unit) wrapped_batch list"
    by (induction ws) (auto simp: released_def entry_def)
  ultimately show ?thesis by (simp add: released_count_def taken_def) (meson order_trans)
qed

lemma strictly_ascending_remdups_adj:
  "sorted xs \<Longrightarrow> sorted_wrt (<) (remdups_adj xs)" for xs :: "'a :: linorder list"
  by (induction xs rule: remdups_adj.induct) auto

lemma stream_end_ticks: "stream_end (map (\<lambda>t. poll_input.Tick (rd t) None) ts) = None"
  by (induction ts) simp_all

lemma sorted_readings:
  fixes rd :: "'s \<Rightarrow> u64 result"
  assumes "sorted_wrt le ts" "\<And>t. t \<in> set ts \<Longrightarrow> (\<forall>i. rd t = Inr i \<longrightarrow> i = pos t)"
    and "\<And>t u. t \<in> set ts \<Longrightarrow> u \<in> set ts \<Longrightarrow> le t u \<Longrightarrow> pos t \<le> pos u"
  shows "sorted (readings (map (\<lambda>t. poll_input.Tick (rd t) None) ts)) \<and>
    set (readings (map (\<lambda>t. poll_input.Tick (rd t) None) ts)) \<subseteq> pos ` set ts"
  using assms
proof (induction ts)
  case (Cons t ts)
  then have IH: "sorted (readings (map (\<lambda>t. poll_input.Tick (rd t) None) ts))"
      "set (readings (map (\<lambda>t. poll_input.Tick (rd t) None) ts)) \<subseteq> pos ` set ts" by simp_all
  show ?case
  proof (cases "rd t")
    case (Inr i)
    with Cons.prems(2) [of t] have i: "i = pos t" by simp
    have "\<forall>j \<in> pos ` set ts. pos t \<le> j" using Cons.prems(1,3) by auto
    with IH(2) have "\<forall>j \<in> set (readings (map (\<lambda>t. poll_input.Tick (rd t) None) ts)). pos t \<le> j" by blast
    with IH i Inr show ?thesis by auto
  qed (use IH in auto)
qed simp

text \<open>C8: the persisted index never goes back. Whatever publishing, sending and acknowledging happens
  between the ticks of a subscription, the indexes a subscriber is sent are strictly ascending,
  starting with the one at its first call.\<close>

theorem persisted_index_stream_ascends:
  assumes "queue_laws bq pend" "release_laws bq ledger first"
    and "sr_queue r = Some q0" "pend (eventQueue q0) = []" "ledger (eventQueue q0) = []"
    and "\<not> useDiskQueue (queue_cfg q0)"
    and "sorted_wrt (pipeline_steps bq) (pipeline_init r # s # ts)"
    and "\<forall>t \<in> set (s # ts). first + length (pl_accepted t) < 2 ^ 64"
    and "runner_PersistedIndex bq (pl_runner s) = Inr i" "0 < sint interval"
  shows "\<exists>sent. PersistedIndex (runner_ops bq) serv (pl_runner s) interval None
      (map (\<lambda>t. poll_input.Tick (runner_PersistedIndex bq (pl_runner t)) None) ts) =
        Return (clear_init_error serv, i # sent, None) \<and> sorted_wrt (<) (i # sent)"
proof -
  let ?rd = "\<lambda>t. runner_PersistedIndex bq (pl_runner t)"
  let ?pos = "\<lambda>t. word_of_nat (first + released_count t) :: u64"
  let ?ticks = "map (\<lambda>t. poll_input.Tick (?rd t) None)"
  have reached: "pipeline_steps bq (pipeline_init r) t" if "t \<in> set (s # ts)" for t
    using assms(7) that by auto
  have pos: "\<forall>j. ?rd t = Inr j \<longrightarrow> j = ?pos t" if "t \<in> set (s # ts)" for t
  proof (intro allI impI)
    fix j assume "?rd t = Inr j"
    moreover have "ledger_ok ledger t"
      by (rule ledger_ok_steps [OF reached [OF that] ledger_ok_init [of r q0 ledger, OF assms(3,5)] assms(2)])
    moreover have "map_option queue_cfg (out_queue t) = Some (queue_cfg q0)"
      using steps_history [OF reached [OF that]] assms(3) by (simp add: pipeline_init_def out_queue_def)
    ultimately show "j = ?pos t" using reading_is_released assms(2,6) by blast
  qed
  have mono: "?pos t \<le> ?pos u" if "t \<in> set (s # ts)" "u \<in> set (s # ts)" "pipeline_steps bq t u" for t u
  proof -
    have "conserved pend u"
      by (rule conserved_steps [OF reached [OF that(2)] conserved_init [of r q0 pend, OF assms(3,4)] assms(1)])
    then have "first + released_count u < 2 ^ 64"
      using assms(8) that(2) released_count_accepted by fastforce
    then show ?thesis using released_count_mono [OF that(3)] by (intro word_of_nat_le_u64) simp_all
  qed
  have "sorted (readings (?ticks (s # ts)))"
    using sorted_readings [of "pipeline_steps bq" "s # ts" ?rd ?pos] assms(7) pos mono by simp
  then have "sorted_wrt (<) (remdups_adj (i # readings (?ticks ts)))"
    using assms(9) strictly_ascending_remdups_adj by fastforce
  moreover obtain q where "sr_queue (pl_runner s) = Some q"
    using assms(9) by (auto simp: runner_PersistedIndex_def split: option.splits)
  then have "PersistedIndex (runner_ops bq) serv (pl_runner s) interval None (?ticks ts) =
      Return (clear_init_error serv, remdups_adj (i # readings (?ticks ts)), None)"
    using persisted_index_stream [of "runner_ops bq" "pl_runner s" i interval "?ticks ts" serv] assms(9,10)
    by (auto simp: runner_ops_def runner_IsInitialized_def list_all_iff stream_end_ticks)
  ultimately show ?thesis using remdups_adj_Cons_alt by metis
qed

section \<open>A queue with a ledger\<close>

text \<open>The list queue of \<open>Beats_Queue\<close> with a ledger beside it satisfies the laws; it is used in the
  examples only.\<close>

type_synonym 'e tracked = "'e fifo \<times> ledger"

definition tracked_put :: "'e tracked \<Rightarrow> 'e \<Rightarrow> 'e tracked \<times> u64 \<times> bool" where
  "tracked_put q e = (case fifo_put (fst q) e of (f, i, ok) \<Rightarrow> ((f, snd q), i, ok))"

definition tracked_get :: "'e tracked \<Rightarrow> nat \<Rightarrow> 'e tracked \<times> ('e batch) result" where
  "tracked_get q n =
     (case fifo_get (fst q) n of
        (f, Inl err) \<Rightarrow> ((f, snd q), Inl err)
      | (f, Inr b) \<Rightarrow>
          (let i = Suc (Max (insert 0 (fst ` set (snd q))))
           in ((f, snd q @ [(i, length (batch_entries b), False)]), Inr (b\<lparr>batch_id := i\<rparr>))))"

definition tracked_queue :: "('e tracked, 'e) beats_queue" where
  "tracked_queue =
     \<lparr>beats_Publish = tracked_put, beats_TryPublish = tracked_put, beats_Get = tracked_get,
      beats_Metrics = (\<lambda>q. if fifo_closed (fst q) then Inl (NewError ''queue closed'')
        else Inr \<lparr>EventCount = None, ByteCount = None, ByteLimit = None, EventLimit = None,
          UnackedConsumedEvents = None, OldestEntryID = word_of_nat (1 + released (snd q))\<rparr>),
      beats_Close = (\<lambda>q. (((fst q)\<lparr>fifo_closed := True\<rparr>, snd q), None)),
      beats_Done = (\<lambda>q i. (fst q, mark_done {i} (snd q)))\<rparr>"

lemma tracked_laws: "queue_laws tracked_queue (fifo_pending \<circ> fst)"
proof -
  have "publish_law (fifo_pending \<circ> fst) tracked_put"
    using fifo_put_law by (fastforce simp: publish_law_def tracked_put_def split: prod.splits)
  moreover have "get_law (fifo_pending \<circ> fst) tracked_get"
    using fifo_get_law
    by (auto simp: get_law_def tracked_get_def Let_def split: prod.splits sum.splits) blast+
  ultimately show ?thesis by (simp add: queue_laws_def tracked_queue_def)
qed

lemma fresh_id: "finite A \<Longrightarrow> Suc (Max (insert 0 A)) \<notin> A"
  by (metis Max_ge Suc_n_not_le_n finite_insert insertCI)

lemma tracked_release: "release_laws tracked_queue snd 1"
proof -
  have get: "batch_id b \<notin> fst ` set (snd q) \<and> snd q' = snd q @ [(batch_id b, length (batch_entries b), False)]"
    if "tracked_get q n = (q', Inr b)" for q q' :: "'a tracked" and n b
  proof -
    define i where "i = Suc (Max (insert 0 (fst ` set (snd q))))"
    have "i \<notin> fst ` set (snd q)" unfolding i_def by (rule fresh_id) simp
    moreover have "batch_id b = i \<and> snd q' = snd q @ [(i, length (batch_entries b), False)]"
      using that by (auto simp: tracked_get_def Let_def i_def split: prod.splits sum.splits)
    ultimately show ?thesis by simp
  qed
  have "snd q' = snd q" if "tracked_get q n = (q', Inl err)" for q q' :: "'a tracked" and n err
    using that by (auto simp: tracked_get_def Let_def split: prod.splits sum.splits)
  with get show ?thesis
    by (simp add: release_laws_def tracked_queue_def) (simp add: tracked_put_def split: prod.splits)
qed

text \<open>Two events accepted, the first taken in a batch of its own and acknowledged.\<close>

definition tracked_runner :: "'e fifo \<Rightarrow> ledger \<Rightarrow> ('e tracked, unit) server_runner" where
  "tracked_runner f l = NewOutputServer\<lparr>sr_queue := Some \<lparr>queue_cfg = queue_DefaultConfig, eventQueue = (f, l)\<rparr>\<rparr>"

definition one_done :: "nat fifo \<Rightarrow> (nat tracked, unit, nat) pipeline" where
  "one_done f = \<lparr>pl_runner = tracked_runner f [(1, 1, True)], pl_closed = None,
     pl_inflight = [\<lparr>wb_batch = \<lparr>batch_id = 1, batch_entries = [Some 7]\<rparr>, doneCount = 1, CompletionCallback = None\<rparr>],
     pl_accepted = [7, 8],
     pl_batches = [\<lparr>wb_batch = \<lparr>batch_id = 1, batch_entries = [Some 7]\<rparr>, doneCount = 0, CompletionCallback = None\<rparr>],
     pl_completed = [1]\<rparr>"

lemma one_done_reached:
  "pipeline_steps tracked_queue (pipeline_init (tracked_runner (fifo_new 3) []))
     (one_done \<lparr>fifo_pending = [8], fifo_newest = 2, fifo_cap = 3, fifo_closed = False\<rparr>)"
proof -
  let ?f = "\<lambda>es n. \<lparr>fifo_pending = es, fifo_newest = n, fifo_cap = 3, fifo_closed = False\<rparr>"
  let ?q = "\<lambda>es n l. \<lparr>queue_cfg = queue_DefaultConfig, eventQueue = (?f es n, l)\<rparr>"
  let ?s0 = "pipeline_init (tracked_runner (fifo_new 3) []) :: (nat tracked, unit, nat) pipeline"
  let ?w = "\<lparr>wb_batch = \<lparr>batch_id = 1, batch_entries = [Some (7 :: nat)]\<rparr>, doneCount = 0, CompletionCallback = (None :: unit option)\<rparr>"
  note defs = pipeline_init_def tracked_runner_def NewOutputServer_def fifo_new_def runner_Publish_def
    queue_Publish_def tracked_queue_def tracked_put_def tracked_get_def fifo_put_def out_queue_def set_out_queue_def
    queue_Get_def fifo_get_def one_done_def
  let ?s1 = "?s0\<lparr>pl_runner := tracked_runner (?f [7] 1) [], pl_accepted := pl_accepted ?s0 @ accepted_events 7 (Inr 1)\<rparr>"
  let ?s2 = "?s1\<lparr>pl_runner := tracked_runner (?f [7, 8] 2) [], pl_accepted := pl_accepted ?s1 @ accepted_events 8 (Inr 2)\<rparr>"
  let ?s3 = "(set_out_queue ?s2 (?q [8] 2 [(1, 1, False)]))\<lparr>pl_inflight := pl_inflight ?s2 @ [?w], pl_batches := pl_batches ?s2 @ [?w]\<rparr>"
  let ?s4 = "(set_out_queue ?s3 (fold (queue_effect tracked_queue) [BatchDone 1] (?q [8] 2 [(1, 1, False)])))\<lparr>
      pl_inflight := (pl_inflight ?s3)[0 := ?w\<lparr>doneCount := 1\<rparr>], pl_completed := pl_completed ?s3 @ batches_done [BatchDone 1]\<rparr>"
  have 1: "pipeline_step tracked_queue ?s0 ?s1" by (rule pipeline_step.publish) (simp add: defs)
  have 2: "pipeline_step tracked_queue ?s1 ?s2" by (rule pipeline_step.publish) (simp add: defs)
  have 3: "pipeline_step tracked_queue ?s2 ?s3"
    by (intro pipeline_step.by_output output_step.get [where q = "?q [7, 8] 2 []" and n = 1]) (simp_all add: defs Let_def)
  have 4: "pipeline_step tracked_queue ?s3 ?s4"
    by (intro pipeline_step.by_output output_step.done_call [where n = 1]) (simp_all add: defs WrappedBatch_Done_def batch_Count_def)
  have "?s4 = one_done (?f [8] 2)"
    by (simp add: defs batches_done_def mark_done_def accepted_events_def)
  with 1 2 3 4 show ?thesis by (metis (no_types, lifting) converse_rtranclp_into_rtranclp r_into_rtranclp)
qed

theorem persisted_index_covers_completed_witness:
  "runner_PersistedIndex tracked_queue (pl_runner
      (one_done \<lparr>fifo_pending = [8], fifo_newest = 2, fifo_cap = 3, fifo_closed = False\<rparr>)) = Inr 2 \<and>
   (\<exists>k covered. covered = concat (map (\<lambda>w. map the (WrappedBatch_Events w)) (take k (pl_batches
       (one_done \<lparr>fifo_pending = [8], fifo_newest = 2, fifo_cap = 3, fifo_closed = False\<rparr>)))) \<and>
     (2 :: u64) = word_of_nat (1 + length covered) \<and> prefix covered [7, 8])"
proof -
  have idx: "runner_PersistedIndex tracked_queue (pl_runner
      (one_done \<lparr>fifo_pending = [8], fifo_newest = 2, fifo_cap = 3, fifo_closed = False\<rparr>)) = Inr 2"
    by (simp add: one_done_def tracked_runner_def NewOutputServer_def runner_PersistedIndex_def queue_PersistedIndex_def
        tracked_queue_def released_def queue_DefaultConfig_def useDiskQueue_def)
  from persisted_index_covers_completed [OF tracked_laws tracked_release _ _ _ one_done_reached _ _ idx] idx
  show ?thesis
    by (fastforce simp: one_done_def tracked_runner_def fifo_new_def queue_DefaultConfig_def useDiskQueue_def)
qed

theorem persisted_index_stream_ascends_witness:
  "\<exists>sent. PersistedIndex (runner_ops tracked_queue) example_server
      (tracked_runner (fifo_new 3 :: nat fifo) []) (seconds 1) None
      [poll_input.Tick (runner_PersistedIndex tracked_queue (pl_runner
        (one_done \<lparr>fifo_pending = [8], fifo_newest = 2, fifo_cap = 3, fifo_closed = False\<rparr>))) None] =
      Return (clear_init_error example_server, 1 # sent, None) \<and> sorted_wrt (<) (1 # sent)"
proof -
  let ?s = "pipeline_init (tracked_runner (fifo_new 3) []) :: (nat tracked, unit, nat) pipeline"
  have "runner_PersistedIndex tracked_queue (pl_runner ?s) = Inr 1"
    by (simp add: pipeline_init_def tracked_runner_def NewOutputServer_def runner_PersistedIndex_def queue_PersistedIndex_def
        tracked_queue_def released_def queue_DefaultConfig_def useDiskQueue_def fifo_new_def)
  from persisted_index_stream_ascends [OF tracked_laws tracked_release _ _ _ _ _ _ this,
      of "tracked_runner (fifo_new 3) []" "\<lparr>queue_cfg = queue_DefaultConfig, eventQueue = (fifo_new 3, [])\<rparr>"
      "[one_done \<lparr>fifo_pending = [8], fifo_newest = 2, fifo_cap = 3, fifo_closed = False\<rparr>]" "seconds 1" example_server]
    one_done_reached
  show ?thesis
    by (simp add: tracked_runner_def fifo_new_def queue_DefaultConfig_def useDiskQueue_def pipeline_init_def one_done_def)
qed

end
