(* ===== verification/Delivery.thy ===== *)
theory Delivery
  imports Persistence
begin

text \<open>
  The outputs in the pipeline: the calls of \<open>Done\<close> (\<^verbatim>\<open>src/queue/queue.go\<close>) that an output makes for one
  of the batches it has taken, run on the pipeline. The goroutines that make them are in
  \<open>Output_Process\<close> and \<open>ES_Process\<close>.
\<close>

section \<open>Acknowledging in the pipeline\<close>

text \<open>The calls of \<open>Done\<close> with the counts \<open>ns\<close> on the \<open>i\<close>-th batch taken.\<close>

definition ack_batch ::
    "('q, 'e) beats_queue \<Rightarrow> nat \<Rightarrow> u64 list \<Rightarrow> ('q, 'x, 'e) pipeline \<Rightarrow> ('q, 'x, 'e) pipeline" where
  "ack_batch bq i ns s =
     (case out_queue s of
        None \<Rightarrow> s
      | Some q \<Rightarrow>
          (case done_run (pl_inflight s ! i) ns of
             (w, effs) \<Rightarrow> (set_out_queue s (fold (queue_effect bq) effs q))\<lparr>
               pl_inflight := (pl_inflight s)[i := w], pl_completed := pl_completed s @ batches_done effs\<rparr>))"

lemma set_out_queue_twice [simp]:
  "set_out_queue ((set_out_queue s q)\<lparr>pl_inflight := ws, pl_completed := cs\<rparr>) q' =
   (set_out_queue s q')\<lparr>pl_inflight := ws, pl_completed := cs\<rparr>"
  by (simp add: set_out_queue_def split: option.split)

lemma set_out_queue_same:
  "out_queue s = Some q \<Longrightarrow> set_out_queue s q = s"
  by (auto simp: set_out_queue_def out_queue_def split: option.splits)

lemma batches_done_append: "batches_done (xs @ ys) = batches_done xs @ batches_done ys"
  by (simp add: batches_done_def)

lemma ack_batch_steps:
  assumes "out_queue s = Some q" "i < length (pl_inflight s)"
  shows "(output_step bq)\<^sup>*\<^sup>* s (ack_batch bq i ns s)"
  using assms
proof (induction ns arbitrary: s q)
  case Nil
  then show ?case by (simp add: ack_batch_def set_out_queue_same batches_done_def)
next
  case (Cons n ns)
  obtain w effs where d: "WrappedBatch_Done (pl_inflight s ! i) n = (w, effs)" by force
  obtain w' effs' where r: "done_run w ns = (w', effs')" by force
  let ?q = "fold (queue_effect bq) effs q"
  let ?t = "(set_out_queue s ?q)\<lparr>pl_inflight := (pl_inflight s)[i := w],
      pl_completed := pl_completed s @ batches_done effs\<rparr>"
  have step: "output_step bq s ?t" using Cons.prems d by (rule output_step.done_call)
  have "out_queue ?t = Some ?q" using out_queue_set [OF Cons.prems(1)] by simp
  then have "(output_step bq)\<^sup>*\<^sup>* ?t (ack_batch bq i ns ?t)" using Cons.prems(2) by (intro Cons.IH) auto
  moreover have "ack_batch bq i ns ?t = ack_batch bq i (n # ns) s"
    using Cons.prems d r \<open>out_queue ?t = Some ?q\<close> by (simp add: ack_batch_def batches_done_append)
  ultimately show ?case using step by (metis converse_rtranclp_into_rtranclp)
qed

lemma ack_batch_keeps:
  assumes "out_queue s = Some q"
  shows "pl_batches (ack_batch bq i ns s) = pl_batches s" "pl_accepted (ack_batch bq i ns s) = pl_accepted s"
    "\<exists>q'. out_queue (ack_batch bq i ns s) = Some q'"
    "pl_inflight (ack_batch bq i ns s) = (pl_inflight s)[i := fst (done_run (pl_inflight s ! i) ns)]"
    "pl_completed (ack_batch bq i ns s) = pl_completed s @ batches_done (snd (done_run (pl_inflight s ! i) ns))"
  using assms out_queue_set [OF assms] by (simp_all add: ack_batch_def split: prod.split)

lemma output_steps_pipeline: "(output_step bq)\<^sup>*\<^sup>* s s' \<Longrightarrow> pipeline_steps bq s s'"
  by (induction rule: rtranclp_induct) (auto intro: pipeline_step.by_output rtranclp.rtrancl_into_rtrancl)

lemma batches_done_completion: "batches_done (completion w) = [wb_id w]"
  by (simp add: completion_def batches_done_def split: option.split)

section \<open>Examples\<close>

text \<open>One event accepted and taken.\<close>

definition taken_one :: "'e \<Rightarrow> ('e tracked, unit, 'e) pipeline" where
  "taken_one e =
     (let w = \<lparr>wb_batch = \<lparr>batch_id = 1, batch_entries = [Some e]\<rparr>, doneCount = 0, CompletionCallback = None\<rparr>
      in \<lparr>pl_runner = tracked_runner \<lparr>fifo_pending = [], fifo_newest = 1, fifo_cap = 3, fifo_closed = False\<rparr> [(1, 1, False)],
          pl_closed = None, pl_inflight = [w], pl_accepted = [e], pl_batches = [w], pl_completed = []\<rparr>)"

end
