(* ===== verification/Output_Process.thy ===== *)
theory Output_Process
  imports Delivery
begin

text \<open>
  The goroutine of an output as a process beside the clients. The console, Logstash and Kafka outputs
  (\<^verbatim>\<open>src/output/console.go\<close>, \<^verbatim>\<open>src/output/logstash/output.go\<close>, \<^verbatim>\<open>src/output/kafka/output.go\<close>) run the same
  loop: take a batch of at most a thousand events, acknowledge its events in one call of \<open>Done\<close> or
  several, take the next one, and end when \<open>Get\<close> fails because the queue was closed. Between any two of
  its steps clients publish and the runner may be closed. The process is a run of the pipeline; it
  never has more than one batch that is not acknowledged completely, so the persisted index is at most
  one batch behind what the output has taken; and after \<open>Close\<close> it ends.
\<close>

section \<open>The process\<close>

text \<open>Where the goroutine is: before \<open>Get\<close>, with calls of \<open>Done\<close> left to make for the batch it has, or at its end.\<close>

datatype loop_state = Taking | Acking "u64 list" | Ended

record ('q, 'x, 'e) process =
  ps_pipe :: "('q, 'x, 'e) pipeline"
  ps_loop :: loop_state

text \<open>What other goroutines do: publish, and close the runner.\<close>

inductive client_step ::
    "('q, 'e) beats_queue \<Rightarrow> ('q, 'x, 'e) pipeline \<Rightarrow> ('q, 'x, 'e) pipeline \<Rightarrow> bool" for bq where
  publish: "runner_Publish bq (pl_runner s) e = (r, res) \<Longrightarrow>
    client_step bq s (s\<lparr>pl_runner := r, pl_accepted := pl_accepted s @ accepted_events e res\<rparr>)"
| try_publish: "runner_TryPublish bq (pl_runner s) e = (r, res) \<Longrightarrow>
    client_step bq s (s\<lparr>pl_runner := r, pl_accepted := pl_accepted s @ accepted_events e res\<rparr>)"
| close: "runner_Close bq (pl_runner s) = (r, Some q, effs) \<Longrightarrow>
    client_step bq s (s\<lparr>pl_runner := r, pl_closed := Some q\<rparr>)"
| close_again: "runner_Close bq (pl_runner s) = (r, None, effs) \<Longrightarrow> client_step bq s (s\<lparr>pl_runner := r\<rparr>)"

lemma client_step_pipeline: "client_step bq s s' \<Longrightarrow> pipeline_step bq s s'"
  by (cases rule: client_step.cases) (auto intro: pipeline_step.intros)

lemma client_step_keeps:
  "client_step bq s s' \<Longrightarrow> pl_inflight s' = pl_inflight s \<and> pl_batches s' = pl_batches s \<and> pl_completed s' = pl_completed s"
  by (cases rule: client_step.cases) auto

text \<open>The steps of the loop itself, for the calls of \<open>Done\<close> that the output makes for a batch. \<open>Get\<close> fails
  only on a closed queue, and waits otherwise.\<close>

inductive loop_step ::
    "('s \<Rightarrow> 'e list \<Rightarrow> u64 list) \<Rightarrow> ('s \<Rightarrow> 'e list \<Rightarrow> bool) \<Rightarrow> ('q, 'e) beats_queue \<Rightarrow>
     ('q, 'x, 'e) process \<Rightarrow> ('q, 'x, 'e) process \<Rightarrow> bool" for dones serves bq where
  take: "out_queue s = Some q \<Longrightarrow> queue_Get bq q 1000 = (q', Inr w) \<Longrightarrow>
    serves st (map the (WrappedBatch_Events w)) \<Longrightarrow>
    loop_step dones serves bq \<lparr>ps_pipe = s, ps_loop = Taking\<rparr>
      \<lparr>ps_pipe = (set_out_queue s q')\<lparr>pl_inflight := pl_inflight s @ [w], pl_batches := pl_batches s @ [w]\<rparr>,
       ps_loop = Acking (dones st (map the (WrappedBatch_Events w)))\<rparr>"
| ack: "out_queue s = Some q \<Longrightarrow> pl_inflight s \<noteq> [] \<Longrightarrow> WrappedBatch_Done (last (pl_inflight s)) n = (w, effs) \<Longrightarrow>
    loop_step dones serves bq \<lparr>ps_pipe = s, ps_loop = Acking (n # ns)\<rparr>
      \<lparr>ps_pipe = (set_out_queue s (fold (queue_effect bq) effs q))\<lparr>
         pl_inflight := (pl_inflight s)[length (pl_inflight s) - 1 := w], pl_completed := pl_completed s @ batches_done effs\<rparr>,
       ps_loop = Acking ns\<rparr>"
| again: "loop_step dones serves bq \<lparr>ps_pipe = s, ps_loop = Acking []\<rparr> \<lparr>ps_pipe = s, ps_loop = Taking\<rparr>"
| stop: "out_queue s = Some q \<Longrightarrow> sr_queue (pl_runner s) = None \<Longrightarrow>
    queue_Get bq q 1000 = (q', (Inl err :: (('e, unit) wrapped_batch) result)) \<Longrightarrow>
    loop_step dones serves bq \<lparr>ps_pipe = s, ps_loop = Taking\<rparr> \<lparr>ps_pipe = set_out_queue s q', ps_loop = Ended\<rparr>"

text \<open>The whole system: the loop and the clients, in any order.\<close>

inductive process_step ::
    "('s \<Rightarrow> 'e list \<Rightarrow> u64 list) \<Rightarrow> ('s \<Rightarrow> 'e list \<Rightarrow> bool) \<Rightarrow> ('q, 'e) beats_queue \<Rightarrow>
     ('q, 'x, 'e) process \<Rightarrow> ('q, 'x, 'e) process \<Rightarrow> bool" for dones serves bq where
  by_loop: "loop_step dones serves bq p p' \<Longrightarrow> process_step dones serves bq p p'"
| by_client: "client_step bq (ps_pipe p) s' \<Longrightarrow> process_step dones serves bq p (p\<lparr>ps_pipe := s'\<rparr>)"

definition process_init :: "('q, 'x) server_runner \<Rightarrow> ('q, 'x, 'e) process" where
  "process_init r = \<lparr>ps_pipe = pipeline_init r, ps_loop = Taking\<rparr>"

text \<open>The three outputs: one call of \<open>Done\<close> for a batch, or those of Kafka's retry loop.\<close>

definition console_process :: "('q, 'e) beats_queue \<Rightarrow> ('q, 'x, 'e) process \<Rightarrow> ('q, 'x, 'e) process \<Rightarrow> bool" where
  "console_process bq = process_step (single_ack :: unit \<Rightarrow> 'e list \<Rightarrow> u64 list) (\<lambda>_ _. True) bq"

definition kafka_process ::
    "('x, 't, 'v, 'ts, 'm) event_lib \<Rightarrow> ('x, 'ts, 'm) kafka_client \<Rightarrow> ('q, ('t, 'v) event) beats_queue \<Rightarrow>
     ('q, 'y, ('t, 'v) event) process \<Rightarrow> ('q, 'y, ('t, 'v) event) process \<Rightarrow> bool" where
  "kafka_process lib c bq = process_step kafka_dones (\<lambda>st es. settles lib c (map Some es) (snd st)) bq"

section \<open>The process is a run of the pipeline\<close>

lemma loop_step_pipeline:
  assumes "loop_step dones serves bq p p'"
  shows "pipeline_steps bq (ps_pipe p) (ps_pipe p')"
  using assms
proof cases
  case (take s q q' w st)
  then show ?thesis by (auto intro!: r_into_rtranclp pipeline_step.by_output output_step.get)
next
  case (ack s q n w effs ns)
  let ?i = "length (pl_inflight s) - 1"
  have "?i < length (pl_inflight s)" "pl_inflight s ! ?i = last (pl_inflight s)"
    using ack(4) by (simp_all add: last_conv_nth)
  with ack show ?thesis by (auto intro!: r_into_rtranclp pipeline_step.by_output output_step.done_call)
next
  case (stop s q q' err)
  then show ?thesis by (auto intro!: r_into_rtranclp pipeline_step.by_output output_step.get_fails)
qed simp

lemma process_steps_pipeline:
  assumes "(process_step dones serves bq)\<^sup>*\<^sup>* p p'"
  shows "pipeline_steps bq (ps_pipe p) (ps_pipe p')"
  using assms
proof (induction rule: rtranclp_induct)
  case (step p p')
  from step.hyps(2) have "pipeline_steps bq (ps_pipe p) (ps_pipe p')"
    by cases (auto dest: loop_step_pipeline client_step_pipeline)
  with step.IH show ?case by (rule rtranclp_trans)
qed simp

section \<open>At most one batch is open\<close>

text \<open>All batches but the last are complete; the last is complete except while calls of \<open>Done\<close> are left,
  and these are the rest of a sequence that completes it.\<close>

definition one_open :: "('q, 'x, 'e) process \<Rightarrow> bool" where
  "one_open p \<longleftrightarrow>
     (case ps_loop p of
        Acking ns \<Rightarrow>
          (\<exists>bs w es pre. pl_batches (ps_pipe p) = bs @ [w] \<and> fresh_batch w es \<and> acks_exactly (length es) (pre @ ns) \<and>
             pl_inflight (ps_pipe p) \<noteq> [] \<and> last (pl_inflight (ps_pipe p)) = fst (done_run w pre) \<and>
             pl_completed (ps_pipe p) = map wb_id bs @ batches_done (snd (done_run w pre)))
      | _ \<Rightarrow> pl_completed (ps_pipe p) = map wb_id (pl_batches (ps_pipe p)))"

lemma one_open_AckingI:
  assumes "pl_batches s = bs @ [w]" "fresh_batch w es" "acks_exactly (length es) (pre @ ns)"
    and "pl_inflight s \<noteq> []" "last (pl_inflight s) = fst (done_run w pre)"
    and "pl_completed s = map wb_id bs @ batches_done (snd (done_run w pre))"
  shows "one_open \<lparr>ps_pipe = s, ps_loop = Acking ns\<rparr>"
  using assms unfolding one_open_def by auto

lemma one_open_client:
  assumes "one_open p" "client_step bq (ps_pipe p) s'"
  shows "one_open (p\<lparr>ps_pipe := s'\<rparr>)"
  using assms(1) client_step_keeps [OF assms(2)] by (auto simp: one_open_def split: loop_state.splits)

lemma fresh_completes:
  assumes "fresh_batch w es" "acks_exactly (length es) ns"
  shows "snd (done_run w ns) = completion w"
  using done_run_completes [of w ns] assms by (simp add: fresh_batch_def batch_Count_def)

context acknowledging_output
begin

lemma one_open_loop:
  assumes "one_open p" "loop_step dones serves bq p p'" "queue_laws bq pend"
  shows "one_open p'"
  using assms(2)
proof cases
  case (take s q q' w st)
  obtain es where f: "fresh_batch w es" using queue_Get_fresh [OF assms(3) take(4)] by blast
  then have "acks_exactly (length es) (dones st es)"
    using acks_batch take(5) fresh_taken [OF f] by (simp add: fresh_batch_def)
  moreover have "pl_completed s = map wb_id (pl_batches s)" using assms(1) take(1) by (simp add: one_open_def)
  ultimately show ?thesis
    unfolding take(2) fresh_taken [OF f]
    using f by (intro one_open_AckingI [where bs = "pl_batches s" and w = w and es = es and pre = "[]"])
      (simp_all add: batches_done_def)
next
  case (ack s q n w' effs ns)
  from assms(1) ack(1) obtain bs w es pre where o: "pl_batches s = bs @ [w]" "fresh_batch w es"
      "acks_exactly (length es) (pre @ n # ns)" "last (pl_inflight s) = fst (done_run w pre)"
      "pl_completed s = map wb_id bs @ batches_done (snd (done_run w pre))"
    by (auto simp: one_open_def)
  have "done_run w (pre @ [n]) = (w', snd (done_run w pre) @ effs)"
    using ack(5) o(4) by (cases "done_run w pre") (simp add: done_run_append)
  moreover have "last ((pl_inflight s)[length (pl_inflight s) - 1 := w']) = w'"
    using ack(4) by (simp add: last_list_update)
  ultimately show ?thesis
    unfolding ack(2) using ack(4) o
    by (intro one_open_AckingI [where bs = bs and w = w and es = es and pre = "pre @ [n]"])
      (simp_all add: batches_done_append)
next
  case (again s)
  with assms(1) show ?thesis
    by (auto simp: one_open_def fresh_completes batches_done_completion)
next
  case (stop s q q' err)
  with assms(1) show ?thesis by (simp add: one_open_def)
qed

lemma one_open_steps:
  assumes "(process_step dones serves bq)\<^sup>*\<^sup>* (process_init r) p" "queue_laws bq pend"
  shows "one_open p"
  using assms(1)
proof (induction rule: rtranclp_induct)
  case base
  show ?case by (simp add: one_open_def process_init_def pipeline_init_def)
next
  case (step p p')
  from step.hyps(2) step.IH show ?case
    by cases (auto intro: one_open_client one_open_loop [OF _ _ assms(2)])
qed

end

section \<open>The index is at most one batch behind\<close>

text \<open>\<open>Get\<close> returns at most as many entries as it is asked for, if that is a positive number.\<close>

definition bounded_get :: "('q, 'e) beats_queue \<Rightarrow> bool" where
  "bounded_get bq \<longleftrightarrow> (\<forall>q n q' b. 0 < n \<longrightarrow> beats_Get bq q n = (q', Inr b) \<longrightarrow> length (batch_entries b) \<le> n)"

definition batches_bounded :: "nat \<Rightarrow> ('q, 'x, 'e) pipeline \<Rightarrow> bool" where
  "batches_bounded n s \<longleftrightarrow> (\<forall>w \<in> set (pl_batches s). length (WrappedBatch_Events w) \<le> n)"

lemma process_steps_bounded:
  assumes "(process_step dones serves bq)\<^sup>*\<^sup>* (process_init r) p" "bounded_get bq"
  shows "batches_bounded 1000 (ps_pipe p)"
  using assms(1)
proof (induction rule: rtranclp_induct)
  case base
  show ?case by (simp add: batches_bounded_def process_init_def pipeline_init_def)
next
  case (step p p')
  from step.hyps(2) show ?case
  proof cases
    case by_loop
    then show ?thesis
    proof cases
      case (take s q q' w st)
      then have "length (batch_entries (wb_batch w)) \<le> 1000"
        using assms(2) by (auto simp: queue_Get_def bounded_get_def split: prod.splits sum.splits)
      with take step.IH show ?thesis by (auto simp: batches_bounded_def WrappedBatch_Events_entries)
    qed (use step.IH in \<open>auto simp: batches_bounded_def\<close>)
  next
    case (by_client s')
    with step.IH client_step_keeps [of bq "ps_pipe p" s'] show ?thesis by (simp add: batches_bounded_def)
  qed
qed

lemma takeWhile_all_but_last:
  assumes "\<forall>x \<in> set xs. P x"
  shows "takeWhile P (xs @ ys) = xs @ takeWhile P ys"
  using assms by (induction xs) auto

text \<open>What is released, when all batches but the last are complete.\<close>

lemma one_open_released:
  assumes "one_open p"
  shows "released_count (ps_pipe p) \<le> length (taken (ps_pipe p))"
    and "ps_loop p = Taking \<or> ps_loop p = Ended \<Longrightarrow> released_count (ps_pipe p) = length (taken (ps_pipe p))"
    and "pl_batches (ps_pipe p) \<noteq> [] \<Longrightarrow>
      length (taken (ps_pipe p)) \<le> released_count (ps_pipe p) + length (WrappedBatch_Events (last (pl_batches (ps_pipe p))))"
proof -
  let ?s = "ps_pipe p"
  let ?P = "\<lambda>w. wb_id w \<in> set (pl_completed ?s)" and ?len = "length \<circ> WrappedBatch_Events"
  have len: "length (taken ?s) = sum_list (map ?len (pl_batches ?s))"
    by (simp add: taken_def length_concat comp_def)
  have rel: "released_count ?s = sum_list (map ?len (takeWhile ?P (pl_batches ?s)))"
    by (simp add: released_count_def released_entries)
  have "sum_list (map ?len (takeWhile Q ws)) \<le> sum_list (map ?len ws)" for Q and ws :: "('c, unit) wrapped_batch list"
    by (induction ws) auto
  with len rel show "released_count ?s \<le> length (taken ?s)" by simp
  show "released_count ?s = length (taken ?s)" if "ps_loop p = Taking \<or> ps_loop p = Ended"
  proof -
    from that assms have "pl_completed ?s = map wb_id (pl_batches ?s)" by (auto simp: one_open_def)
    then have "takeWhile ?P (pl_batches ?s) = pl_batches ?s" by (simp add: takeWhile_eq_all_conv)
    then show ?thesis unfolding len rel by (simp only:)
  qed
  show "length (taken ?s) \<le> released_count ?s + length (WrappedBatch_Events (last (pl_batches ?s)))"
    if "pl_batches ?s \<noteq> []"
  proof -
    from that obtain bs w where bs: "pl_batches ?s = bs @ [w]" by (metis append_butlast_last_id)
    have "set (map wb_id bs) \<subseteq> set (pl_completed ?s)"
      using assms bs by (auto simp: one_open_def split: loop_state.splits)
    then have "takeWhile ?P (bs @ [w]) = bs @ takeWhile ?P [w]" by (intro takeWhile_all_but_last) auto
    then show ?thesis by (simp add: len rel bs)
  qed
qed

context acknowledging_output
begin

lemma index_lags_one_batch:
  fixes bq :: "('q, 'e) beats_queue"
  assumes "queue_laws bq pend" "release_laws bq ledger first" "bounded_get bq"
    and "sr_queue r = Some q0" "pend (eventQueue q0) = []" "ledger (eventQueue q0) = []" "\<not> useDiskQueue (queue_cfg q0)"
    and "(process_step dones serves bq)\<^sup>*\<^sup>* (process_init r) p"
    and "runner_PersistedIndex bq (pl_runner (ps_pipe p)) = Inr idx"
  shows "\<exists>n. idx = word_of_nat (first + n) \<and> n \<le> length (taken (ps_pipe p)) \<and> length (taken (ps_pipe p)) \<le> n + 1000 \<and>
    (ps_loop p = Taking \<longrightarrow> n = length (taken (ps_pipe p)))"
proof -
  let ?s = "ps_pipe p"
  have reach: "pipeline_steps bq (pipeline_init r) ?s"
    using process_steps_pipeline [OF assms(8)] by (simp add: process_init_def)
  have "idx = word_of_nat (first + released_count ?s)"
  proof (rule reading_is_released [OF assms(2) _ assms(9) _ assms(7)])
    show "ledger_ok ledger ?s"
      by (rule ledger_ok_steps [OF reach ledger_ok_init [of r q0 ledger, OF assms(4,6)] assms(2)])
    show "map_option queue_cfg (out_queue ?s) = Some (queue_cfg q0)"
      using steps_history [OF reach] assms(4) by (simp add: pipeline_init_def out_queue_def)
  qed
  moreover note o = one_open_released [OF one_open_steps [OF assms(8,1)]]
  moreover have "length (taken ?s) \<le> released_count ?s + 1000"
  proof (cases "pl_batches ?s = []")
    case True
    then show ?thesis by (simp add: taken_def)
  next
    case False
    then have "length (WrappedBatch_Events (last (pl_batches ?s))) \<le> 1000"
      using process_steps_bounded [OF assms(8,3)] by (simp add: batches_bounded_def)
    with o(3) [OF False] show ?thesis by linarith
  qed
  ultimately show ?thesis by blast
qed

lemma batch_can_finish:
  assumes "out_queue s = Some q" "pl_inflight s \<noteq> []"
  shows "\<exists>s'. (loop_step dones serves bq)\<^sup>*\<^sup>* \<lparr>ps_pipe = s, ps_loop = Acking ns\<rparr> \<lparr>ps_pipe = s', ps_loop = Taking\<rparr> \<and>
    pl_batches s' = pl_batches s"
  using assms
proof (induction ns arbitrary: s q)
  case Nil
  then show ?case by (blast intro: loop_step.again)
next
  case (Cons n ns)
  obtain w effs where d: "WrappedBatch_Done (last (pl_inflight s)) n = (w, effs)" by force
  let ?s = "(set_out_queue s (fold (queue_effect bq) effs q))\<lparr>
      pl_inflight := (pl_inflight s)[length (pl_inflight s) - 1 := w], pl_completed := pl_completed s @ batches_done effs\<rparr>"
  have "out_queue ?s = Some (fold (queue_effect bq) effs q)" using out_queue_set [OF Cons.prems(1)] by simp
  from Cons.IH [OF this] Cons.prems(2) obtain s' where
    s': "(loop_step dones serves bq)\<^sup>*\<^sup>* \<lparr>ps_pipe = ?s, ps_loop = Acking ns\<rparr> \<lparr>ps_pipe = s', ps_loop = Taking\<rparr>"
      "pl_batches s' = pl_batches s"
    by auto
  with loop_step.ack [OF Cons.prems d, of dones serves bq ns] show ?case by (meson converse_rtranclp_into_rtranclp)
qed

lemma index_catches_up:
  fixes bq :: "('q, 'e) beats_queue"
  assumes "queue_laws bq pend" "release_laws bq ledger first" "bounded_get bq"
    and "sr_queue r = Some q0" "pend (eventQueue q0) = []" "ledger (eventQueue q0) = []" "\<not> useDiskQueue (queue_cfg q0)"
    and "(process_step dones serves bq)\<^sup>*\<^sup>* (process_init r) p" "ps_loop p \<noteq> Ended"
  shows "\<exists>p'. (loop_step dones serves bq)\<^sup>*\<^sup>* p p' \<and> ps_loop p' = Taking \<and> taken (ps_pipe p') = taken (ps_pipe p) \<and>
    (\<forall>idx. runner_PersistedIndex bq (pl_runner (ps_pipe p')) = Inr idx \<longrightarrow>
      idx = word_of_nat (first + length (taken (ps_pipe p))))"
proof -
  have reach: "pipeline_steps bq (pipeline_init r) (ps_pipe p)"
    using process_steps_pipeline [OF assms(8)] by (simp add: process_init_def)
  have "conserved pend (ps_pipe p)"
    by (rule conserved_steps [OF reach conserved_init [of r q0 pend, OF assms(4,5)] assms(1)])
  then obtain q where q: "out_queue (ps_pipe p) = Some q" by (auto simp: conserved_def)
  have "\<exists>p'. (loop_step dones serves bq)\<^sup>*\<^sup>* p p' \<and> ps_loop p' = Taking \<and> pl_batches (ps_pipe p') = pl_batches (ps_pipe p)"
  proof (cases "ps_loop p")
    case (Acking ns)
    have "pl_inflight (ps_pipe p) \<noteq> []" using one_open_steps [OF assms(8,1)] Acking by (auto simp: one_open_def)
    from batch_can_finish [OF q this, of bq ns] Acking show ?thesis by (cases p) fastforce
  qed (use assms(9) in auto)
  then obtain p' where p': "(loop_step dones serves bq)\<^sup>*\<^sup>* p p'" "ps_loop p' = Taking" "pl_batches (ps_pipe p') = pl_batches (ps_pipe p)"
    by blast
  have "(process_step dones serves bq)\<^sup>*\<^sup>* p p'" using p'(1) by (rule mono_rtranclp [rule_format, rotated]) (rule process_step.by_loop)
  with assms(8) have run: "(process_step dones serves bq)\<^sup>*\<^sup>* (process_init r) p'" by (rule rtranclp_trans)
  have "taken (ps_pipe p') = taken (ps_pipe p)" using p'(3) by (simp add: taken_def)
  with p' index_lags_one_batch [OF assms(1-7) run] show ?thesis by fastforce
qed

end

section \<open>The loop ends after the queue is closed\<close>

definition loop_rank :: "loop_state \<Rightarrow> nat" where
  "loop_rank l = (case l of Ended \<Rightarrow> 0 | Taking \<Rightarrow> 1 | Acking ns \<Rightarrow> length ns + 2)"

text \<open>Left to itself the loop makes finitely many steps: it takes events out of the queue, or has fewer calls
  of \<open>Done\<close> left to make.\<close>

lemma loop_step_decreases:
  assumes "loop_step dones serves bq p p'" "queue_laws bq pend"
  shows "((length (waiting pend (ps_pipe p')), loop_rank (ps_loop p')), (length (waiting pend (ps_pipe p)), loop_rank (ps_loop p)))
    \<in> less_than <*lex*> less_than"
  using assms(1)
proof cases
  case (take s q q' w st)
  obtain es where "fresh_batch w es" "pend (eventQueue q) = es @ pend (eventQueue q')"
    using queue_Get_fresh [OF assms(2) take(4)] by metis
  with take waiting_set [OF take(3), of pend q'] show ?thesis by (auto simp: waiting_def fresh_batch_def)
next
  case (ack s q n w effs ns)
  with waiting_set [OF ack(3), of pend "fold (queue_effect bq) effs q"] queue_effects_pending [OF assms(2)] show ?thesis
    by (simp add: waiting_def loop_rank_def)
next
  case (again s)
  then show ?thesis by (simp add: loop_rank_def)
next
  case (stop s q q' err)
  with waiting_set [OF stop(3), of pend q'] queue_Get_fails_pending [OF assms(2) stop(5)] show ?thesis
    by (simp add: waiting_def loop_rank_def)
qed

lemma loop_terminates:
  assumes "queue_laws bq pend"
  shows "wfP (\<lambda>p' p. loop_step dones serves bq p p')"
proof -
  let ?m = "\<lambda>p. (length (waiting pend (ps_pipe p)), loop_rank (ps_loop p))"
  have "{(p', p). loop_step dones serves bq p p'} \<subseteq> inv_image (less_than <*lex*> less_than) ?m"
    using loop_step_decreases [OF _ assms, of dones serves] by (auto simp: inv_image_def)
  then show ?thesis unfolding wfp_def by (rule wf_subset [rotated]) (intro wf_inv_image wf_lex_prod wf_less_than)
qed

lemma loop_step_keeps_closed:
  assumes "loop_step dones serves bq p p'" "sr_queue (pl_runner (ps_pipe p)) = None"
  shows "sr_queue (pl_runner (ps_pipe p')) = None"
  using assms by cases (auto simp: set_out_queue_def split: option.splits)

lemma closed_loop_progress:
  assumes "sr_queue (pl_runner (ps_pipe p)) = None" "out_queue (ps_pipe p) = Some q" "one_open p" "ps_loop p \<noteq> Ended"
    and "\<And>es. \<exists>st. serves st es"
  shows "\<exists>p'. loop_step dones serves bq p p'"
proof (cases "ps_loop p")
  case Taking
  then have p: "p = \<lparr>ps_pipe = ps_pipe p, ps_loop = Taking\<rparr>" by simp
  obtain q' and res :: "(('c, unit) wrapped_batch) result" where g: "queue_Get bq q 1000 = (q', res)" by force
  show ?thesis
  proof (cases res)
    case (Inl err)
    with g show ?thesis by (subst p) (blast intro: loop_step.stop [OF assms(2,1)])
  next
    case (Inr w)
    obtain st where "serves st (map the (WrappedBatch_Events w))" using assms(5) by blast
    with g Inr show ?thesis by (subst p) (blast intro: loop_step.take [OF assms(2)])
  qed
next
  case (Acking ns)
  then have p: "p = \<lparr>ps_pipe = ps_pipe p, ps_loop = Acking ns\<rparr>" by simp
  show ?thesis
  proof (cases ns)
    case Nil
    then show ?thesis by (subst p) (auto intro: loop_step.again)
  next
    case (Cons n ms)
    have "pl_inflight (ps_pipe p) \<noteq> []" using assms(3) Acking by (auto simp: one_open_def)
    moreover obtain w effs where "WrappedBatch_Done (last (pl_inflight (ps_pipe p))) n = (w, effs)" by force
    ultimately show ?thesis using Cons by (subst p) (blast intro: loop_step.ack [OF assms(2)])
  qed
qed (use assms(4) in simp)

context acknowledging_output
begin

lemma closed_loop_ends:
  fixes p :: "('q, 'x, 'e) process"
  assumes "queue_laws bq pend" "\<And>es. \<exists>st. serves st es"
    and "conserved pend (ps_pipe p)" "one_open p" "sr_queue (pl_runner (ps_pipe p)) = None"
  shows "\<exists>p'. (loop_step dones serves bq)\<^sup>*\<^sup>* p p' \<and> ps_loop p' = Ended \<and>
    pl_accepted (ps_pipe p') = pl_accepted (ps_pipe p) \<and>
    pl_completed (ps_pipe p') = map wb_id (pl_batches (ps_pipe p'))"
  using assms(3-5)
proof (induction p rule: wfp_induct_rule [OF loop_terminates [OF assms(1), of dones serves]])
  case (1 p)
  show ?case
  proof (cases "ps_loop p = Ended")
    case True
    with "1.prems"(2) show ?thesis by (auto simp: one_open_def)
  next
    case False
    obtain q where q: "out_queue (ps_pipe p) = Some q" using "1.prems"(1) by (auto simp: conserved_def)
    obtain p1 where s: "loop_step dones serves bq p p1"
      using closed_loop_progress [where serves = serves and dones = dones and bq = bq,
          OF "1.prems"(3) q "1.prems"(2) False assms(2)] by blast
    have "pl_accepted (ps_pipe p1) = pl_accepted (ps_pipe p)" using s by cases auto
    moreover have "\<exists>p'. (loop_step dones serves bq)\<^sup>*\<^sup>* p1 p' \<and> ps_loop p' = Ended \<and>
        pl_accepted (ps_pipe p') = pl_accepted (ps_pipe p1) \<and>
        pl_completed (ps_pipe p') = map wb_id (pl_batches (ps_pipe p'))"
    proof (rule "1.IH" [OF s])
      show "conserved pend (ps_pipe p1)" by (rule conserved_steps [OF loop_step_pipeline [OF s] "1.prems"(1) assms(1)])
      show "one_open p1" by (rule one_open_loop [OF "1.prems"(2) s assms(1)])
      show "sr_queue (pl_runner (ps_pipe p1)) = None" by (rule loop_step_keeps_closed [OF s "1.prems"(3)])
    qed
    ultimately show ?thesis using s by (metis converse_rtranclp_into_rtranclp)
  qed
qed

end

section \<open>The outputs\<close>

text \<open>C13: with the console output, at every moment and whatever clients do meanwhile, the persisted index a
  subscriber is told lies at most one batch, that is at most a thousand events, behind what the output
  has taken; and between two batches it covers everything taken.\<close>

theorem console_index_within_one_batch:
  assumes "queue_laws bq pend" "release_laws bq ledger first" "bounded_get bq"
    and "sr_queue r = Some q0" "pend (eventQueue q0) = []" "ledger (eventQueue q0) = []" "\<not> useDiskQueue (queue_cfg q0)"
    and "(console_process bq)\<^sup>*\<^sup>* (process_init r) p"
    and "runner_PersistedIndex bq (pl_runner (ps_pipe p)) = Inr idx"
  shows "\<exists>n. idx = word_of_nat (first + n) \<and> n \<le> length (taken (ps_pipe p)) \<and> length (taken (ps_pipe p)) \<le> n + 1000 \<and>
    (ps_loop p = Taking \<longrightarrow> n = length (taken (ps_pipe p)))"
  using assms unfolding console_process_def by (rule single.index_lags_one_batch)

text \<open>C10: the same for Kafka, whose batches are acknowledged in several calls of \<open>Done\<close>, one for each call of \<open>publishEvents\<close>, in
  runs in which every batch taken reaches a call that leaves nothing to retry. Moreover the index always catches up: from
  every reachable state of clients and loop the loop can finish the batch it has, by itself, and what a subscriber
  is told then covers every event taken, with no batch skipped and whatever number of batches went before.\<close>

theorem kafka_index_catches_up:
  assumes "queue_laws bq pend" "release_laws bq ledger first" "bounded_get bq"
    and "sr_queue r = Some q0" "pend (eventQueue q0) = []" "ledger (eventQueue q0) = []" "\<not> useDiskQueue (queue_cfg q0)"
    and "(kafka_process lib c bq)\<^sup>*\<^sup>* (process_init r) p"
  shows "(\<forall>idx. runner_PersistedIndex bq (pl_runner (ps_pipe p)) = Inr idx \<longrightarrow>
      (\<exists>n. idx = word_of_nat (first + n) \<and> n \<le> length (taken (ps_pipe p)) \<and> length (taken (ps_pipe p)) \<le> n + 1000 \<and>
        (ps_loop p = Taking \<longrightarrow> n = length (taken (ps_pipe p))))) \<and>
    (ps_loop p \<noteq> Ended \<longrightarrow>
      (\<exists>p'. (loop_step kafka_dones (\<lambda>st es. settles lib c (map Some es) (snd st)) bq)\<^sup>*\<^sup>* p p' \<and> ps_loop p' = Taking \<and>
        taken (ps_pipe p') = taken (ps_pipe p) \<and>
        (\<forall>idx. runner_PersistedIndex bq (pl_runner (ps_pipe p')) = Inr idx \<longrightarrow>
          idx = word_of_nat (first + length (taken (ps_pipe p))))))"
  using kafka_acks.index_lags_one_batch [OF assms(1-7), of lib c p]
    kafka_acks.index_catches_up [OF assms(1-7), of lib c p] assms(8)
  unfolding kafka_process_def by blast

lemma no_infinite_loop:
  assumes "queue_laws bq pend"
  shows "\<not> (\<exists>f. \<forall>i. loop_step dones serves bq (f i) (f (Suc i)))"
  using loop_terminates [OF assms, of dones serves] unfolding wfp_def wf_iff_no_infinite_down_chain by auto

text \<open>C14: after \<open>Close\<close> the goroutine of the console output ends, so \<open>Wait\<close> returns: from every state that clients
  and output can reach and in which the runner is closed, the loop can run to its end, it has then
  completed every batch it took, and it cannot run forever.\<close>

theorem closed_console_ends:
  assumes "queue_laws bq pend" "sr_queue r = Some q0" "pend (eventQueue q0) = []"
    and "(console_process bq)\<^sup>*\<^sup>* (process_init r) p" "\<not> runner_IsInitialized (pl_runner (ps_pipe p))"
  shows "(\<exists>p'. (loop_step (single_ack :: unit \<Rightarrow> 'e list \<Rightarrow> u64 list) (\<lambda>_ _. True) bq)\<^sup>*\<^sup>* p p' \<and> ps_loop p' = Ended \<and>
      pl_accepted (ps_pipe p') = pl_accepted (ps_pipe p) \<and>
      pl_completed (ps_pipe p') = map (\<lambda>w. batch_id (wb_batch w)) (pl_batches (ps_pipe p'))) \<and>
    \<not> (\<exists>f. f 0 = p \<and> (\<forall>i. loop_step (single_ack :: unit \<Rightarrow> 'e list \<Rightarrow> u64 list) (\<lambda>_ _. True) bq (f i) (f (Suc i))))"
proof
  have closed: "sr_queue (pl_runner (ps_pipe p)) = None" using assms(5) by (simp add: runner_IsInitialized_def)
  have reach: "pipeline_steps bq (pipeline_init r) (ps_pipe p)"
    using process_steps_pipeline [OF assms(4) [unfolded console_process_def]] by (simp add: process_init_def)
  have "conserved pend (ps_pipe p)"
    by (rule conserved_steps [OF reach conserved_init [of r q0 pend, OF assms(2,3)] assms(1)])
  moreover have "one_open p"
    using assms(4,1) unfolding console_process_def by (rule single.one_open_steps)
  ultimately show "\<exists>p'. (loop_step (single_ack :: unit \<Rightarrow> 'e list \<Rightarrow> u64 list) (\<lambda>_ _. True) bq)\<^sup>*\<^sup>* p p' \<and> ps_loop p' = Ended \<and>
      pl_accepted (ps_pipe p') = pl_accepted (ps_pipe p) \<and>
      pl_completed (ps_pipe p') = map (\<lambda>w. batch_id (wb_batch w)) (pl_batches (ps_pipe p'))"
    using closed by (intro single.closed_loop_ends [OF assms(1)]) simp_all
  show "\<not> (\<exists>f. f 0 = p \<and> (\<forall>i. loop_step (single_ack :: unit \<Rightarrow> 'e list \<Rightarrow> u64 list) (\<lambda>_ _. True) bq (f i) (f (Suc i))))"
    using no_infinite_loop [OF assms(1), of "single_ack :: unit \<Rightarrow> 'e list \<Rightarrow> u64 list" "\<lambda>_ _. True"] by blast
qed

section \<open>Examples\<close>

lemma tracked_bounded: "bounded_get tracked_queue"
  by (auto simp: bounded_get_def tracked_queue_def tracked_get_def fifo_get_def Let_def split: prod.splits sum.splits if_splits)

abbreviation tracked_start :: "('e tracked, unit, 'e) process" where
  "tracked_start \<equiv> process_init (tracked_runner (fifo_new 3) [])"

text \<open>One event published, and taken by the output.\<close>

lemma taken_one_by_process:
  fixes e :: 'e
  assumes "serves st [e]" "dones st [e] = [1]"
  shows "(process_step dones serves tracked_queue)\<^sup>*\<^sup>* tracked_start \<lparr>ps_pipe = taken_one e, ps_loop = Acking [1]\<rparr>"
proof -
  let ?f = "\<lambda>es. \<lparr>fifo_pending = es, fifo_newest = 1, fifo_cap = 3, fifo_closed = False\<rparr>"
  let ?q = "\<lambda>es l. \<lparr>queue_cfg = queue_DefaultConfig, eventQueue = (?f es, l)\<rparr>"
  let ?s0 = "pipeline_init (tracked_runner (fifo_new 3) []) :: ('e tracked, unit, 'e) pipeline"
  let ?w = "\<lparr>wb_batch = \<lparr>batch_id = 1, batch_entries = [Some e]\<rparr>, doneCount = 0, CompletionCallback = (None :: unit option)\<rparr>"
  let ?s1 = "?s0\<lparr>pl_runner := tracked_runner (?f [e]) [], pl_accepted := pl_accepted ?s0 @ accepted_events e (Inr 1)\<rparr>"
  let ?s2 = "(set_out_queue ?s1 (?q [] [(1, 1, False)]))\<lparr>pl_inflight := pl_inflight ?s1 @ [?w], pl_batches := pl_batches ?s1 @ [?w]\<rparr>"
  note defs = pipeline_init_def tracked_runner_def NewOutputServer_def fifo_new_def runner_Publish_def
    queue_Publish_def tracked_queue_def tracked_put_def tracked_get_def fifo_put_def out_queue_def set_out_queue_def
    queue_Get_def fifo_get_def taken_one_def
  have "client_step tracked_queue ?s0 ?s1" by (rule client_step.publish) (simp add: defs)
  then have "process_step dones serves tracked_queue tracked_start (tracked_start\<lparr>ps_pipe := ?s1\<rparr>)"
    by (intro process_step.by_client) (simp add: process_init_def)
  moreover have "tracked_start\<lparr>ps_pipe := ?s1\<rparr> = \<lparr>ps_pipe = ?s1, ps_loop = Taking\<rparr>" by (simp add: process_init_def)
  moreover have "loop_step dones serves tracked_queue \<lparr>ps_pipe = ?s1, ps_loop = Taking\<rparr>
      \<lparr>ps_pipe = ?s2, ps_loop = Acking (dones st (map the (WrappedBatch_Events ?w)))\<rparr>"
    by (rule loop_step.take [where q = "?q [e] []"]) (simp_all add: defs Let_def WrappedBatch_Events_entries assms(1))
  moreover have "?s2 = taken_one e" by (simp add: defs accepted_events_def Let_def)
  moreover have "dones st (map the (WrappedBatch_Events ?w)) = [1]"
    by (simp add: WrappedBatch_Events_entries assms(2))
  ultimately show ?thesis
    by (metis (no_types, lifting) process_step.by_loop converse_rtranclp_into_rtranclp r_into_rtranclp)
qed

lemma taken_one_process:
  "(console_process tracked_queue)\<^sup>*\<^sup>* tracked_start \<lparr>ps_pipe = taken_one e, ps_loop = Acking [1]\<rparr>"
  unfolding console_process_def by (rule taken_one_by_process [where st = "()"]) (simp_all add: single_ack_def)

text \<open>The Kafka output with one confirmed message, before and after it is acknowledged.\<close>

lemma taken_one_kafka:
  "(kafka_process example_event_lib example_kafka_client tracked_queue)\<^sup>*\<^sup>* tracked_start
     \<lparr>ps_pipe = taken_one (example_event 1), ps_loop = Acking [1]\<rparr>"
proof -
  let ?e = "example_event 1" and ?sched = "[[Confirmed (example_sent 1)]]"
  have st: "settles example_event_lib example_kafka_client [Some ?e] ?sched"
    by (simp add: answers_all_def asyncSend_def send_event_def getEventMessage_def example_event_lib_def
      example_kafka_client_def newKafkaClient_def example_event_def beatsEventForProto_def Let_def
      initProducerMessage_def example_sent_def)
  then have "answers_all (asyncSend example_event_lib example_kafka_client [Some ?e]) [Confirmed (example_sent 1)]"
    by simp
  from publishEvents_result [OF this, of False] kafka_counts_settles [OF st, of False]
  have "kafka_dones (False, ?sched) [?e] = [1]"
    by (auto simp: kafka_dones_def kafka_counts_def Let_def)
  with st show ?thesis
    unfolding kafka_process_def by (intro taken_one_by_process [where st = "(False, ?sched)"]) simp_all
qed

lemma acked_one_kafka:
  "(kafka_process example_event_lib example_kafka_client tracked_queue)\<^sup>*\<^sup>* tracked_start
     \<lparr>ps_pipe = ack_batch tracked_queue 0 [1] (taken_one (example_event 1)), ps_loop = Taking\<rparr>"
proof -
  let ?s = "taken_one (example_event 1)"
  obtain q where q: "out_queue ?s = Some q" and n: "pl_inflight ?s \<noteq> []" "length (pl_inflight ?s) = 1"
    by (simp add: taken_one_def Let_def out_queue_def tracked_runner_def)
  obtain w effs where d: "WrappedBatch_Done (last (pl_inflight ?s)) 1 = (w, effs)" by force
  have "last (pl_inflight ?s) = pl_inflight ?s ! 0" by (simp add: taken_one_def Let_def)
  then have "ack_batch tracked_queue 0 [1] ?s = (set_out_queue ?s (fold (queue_effect tracked_queue) effs q))\<lparr>
      pl_inflight := (pl_inflight ?s)[length (pl_inflight ?s) - 1 := w], pl_completed := pl_completed ?s @ batches_done effs\<rparr>"
    using q d n by (simp add: ack_batch_def)
  with loop_step.ack [OF q n(1) d, of kafka_dones _ tracked_queue "[]"] show ?thesis
    using taken_one_kafka unfolding kafka_process_def
    by (metis (no_types, lifting) loop_step.again process_step.by_loop rtranclp.rtrancl_into_rtrancl)
qed

theorem console_index_within_one_batch_witness:
  "runner_PersistedIndex tracked_queue (pl_runner (taken_one ''a'')) = Inr 1 \<and>
   (\<exists>n. (1 :: u64) = word_of_nat (1 + n) \<and> n \<le> length (taken (taken_one ''a'')) \<and> length (taken (taken_one ''a'')) \<le> n + 1000)"
proof -
  let ?p = "\<lparr>ps_pipe = taken_one ''a'', ps_loop = Acking [1]\<rparr>"
  have idx: "runner_PersistedIndex tracked_queue (pl_runner (ps_pipe ?p)) = Inr 1"
    by (simp add: taken_one_def Let_def tracked_runner_def NewOutputServer_def tracked_queue_def runner_PersistedIndex_def
        queue_PersistedIndex_def released_def queue_DefaultConfig_def useDiskQueue_def)
  show ?thesis
    using idx console_index_within_one_batch [OF tracked_laws tracked_release tracked_bounded _ _ _ _ taken_one_process idx]
    by (fastforce simp: tracked_runner_def fifo_new_def queue_DefaultConfig_def useDiskQueue_def)
qed

lemma acked_one_index:
  "runner_PersistedIndex tracked_queue (pl_runner (ack_batch tracked_queue 0 [1] (taken_one e))) = Inr 2"
  by (simp add: ack_batch_def taken_one_def Let_def out_queue_def tracked_runner_def NewOutputServer_def WrappedBatch_Done_def
      batch_Count_def set_out_queue_def tracked_queue_def mark_done_def runner_PersistedIndex_def queue_PersistedIndex_def
      released_def queue_DefaultConfig_def useDiskQueue_def)

theorem kafka_index_catches_up_witness:
  "runner_PersistedIndex tracked_queue (pl_runner (ack_batch tracked_queue 0 [1] (taken_one (example_event 1)))) =
     Inr (word_of_nat (1 + length (taken (ack_batch tracked_queue 0 [1] (taken_one (example_event 1)))))) \<and>
   (\<exists>p'. (loop_step kafka_dones (\<lambda>st es. settles example_event_lib example_kafka_client (map Some es) (snd st)) tracked_queue)\<^sup>*\<^sup>*
       \<lparr>ps_pipe = taken_one (example_event 1), ps_loop = Acking [1]\<rparr> p' \<and> ps_loop p' = Taking \<and>
     taken (ps_pipe p') = [example_event 1])"
proof -
  let ?q = "\<lparr>queue_cfg = queue_DefaultConfig, eventQueue = (fifo_new 3, [])\<rparr> :: (unit, unit) event tracked queue"
  let ?r = "tracked_runner (fifo_new 3) [] :: ((unit, unit) event tracked, unit) server_runner"
  have q: "sr_queue ?r = Some ?q" "(fifo_pending \<circ> fst) (eventQueue ?q) = []" "snd (eventQueue ?q) = []" "\<not> useDiskQueue (queue_cfg ?q)"
    by (simp_all add: tracked_runner_def fifo_new_def queue_DefaultConfig_def useDiskQueue_def)
  note catches_up = kafka_index_catches_up [OF tracked_laws tracked_release tracked_bounded q]
  show ?thesis
    using catches_up [OF acked_one_kafka] catches_up [OF taken_one_kafka] acked_one_index [of "example_event 1"]
    by (auto simp: taken_one_def taken_def Let_def WrappedBatch_Events_entries)
qed

theorem closed_console_ends_witness:
  "\<exists>p p'. (console_process tracked_queue)\<^sup>*\<^sup>* (tracked_start :: (nat tracked, unit, nat) process) p \<and>
     \<not> runner_IsInitialized (pl_runner (ps_pipe p)) \<and>
     (loop_step (single_ack :: unit \<Rightarrow> nat list \<Rightarrow> u64 list) (\<lambda>_ _. True) tracked_queue)\<^sup>*\<^sup>* p p' \<and> ps_loop p' = Ended"
proof -
  let ?p = "\<lparr>ps_pipe = taken_one (7 :: nat), ps_loop = Acking [1]\<rparr>"
  obtain r q effs where c: "runner_Close tracked_queue (pl_runner (ps_pipe ?p)) = (r, Some q, effs)"
      and closed: "\<not> runner_IsInitialized r"
    by (simp add: runner_Close_def taken_one_def Let_def tracked_runner_def NewOutputServer_def runner_IsInitialized_def)
  let ?p1 = "?p\<lparr>ps_pipe := (ps_pipe ?p)\<lparr>pl_runner := r, pl_closed := Some q\<rparr>\<rparr>"
  have "console_process tracked_queue ?p ?p1"
    unfolding console_process_def by (rule process_step.by_client [OF client_step.close [OF c]])
  with taken_one_process [of "7 :: nat"] have reach: "(console_process tracked_queue)\<^sup>*\<^sup>* tracked_start ?p1"
    by (rule rtranclp.rtrancl_into_rtrancl)
  moreover have "\<not> runner_IsInitialized (pl_runner (ps_pipe ?p1))" using closed by simp
  ultimately show ?thesis
    using closed_console_ends [OF tracked_laws _ _ reach]
    by (fastforce simp: tracked_runner_def fifo_new_def)
qed

end
