(* ===== verification/ES_Process.thy ===== *)
theory ES_Process
  imports Output_Process
begin

text \<open>
  The goroutine of the Elasticsearch output (\<^verbatim>\<open>src/output/elasticsearch/output.go\<close>) as a process beside the
  clients and the bulk indexer. Unlike the other outputs it does not wait for a batch: it hands the
  events to the indexer and takes the next batch, and the indexer's callbacks acknowledge events in any
  order and at any time, so many batches are open at once. The wait group counts the goroutine and the
  open batches. Of the bulk indexer this relies on what it documents: each item it accepts is answered
  once, by \<open>OnSuccess\<close> or by \<open>OnFailure\<close>, and its \<open>Close\<close> returns when all of them are. What an item holds and
  what is reported to the health watcher is in \<open>ES_Output\<close>. The theory shows that the count is exact in every reachable state, that the goroutine
  ends after \<open>Close\<close>, and for which events \<open>Wait\<close> then returns.
\<close>

section \<open>The process\<close>

text \<open>Where the goroutine is: before \<open>Get\<close>, with events of the batch it took last still to hand over, in \<open>Close\<close>
  of the bulk indexer, or at its end.\<close>

datatype 'e es_phase = EsTaking | EsAdding "'e list" | EsClosing | EsEnded

text \<open>Beside the pipeline: for every batch taken, how many of its items the indexer has and has not answered, and
  the wait group.\<close>

record ('q, 'x, 'e) es_process =
  ep_pipe :: "('q, 'x, 'e) pipeline"
  ep_phase :: "'e es_phase"
  ep_pending :: "nat list"
  ep_wg :: int

text \<open>A call \<open>batch.Done(1)\<close> for the \<open>i\<close>-th batch, whose completion callback is \<open>wg.Done\<close>.\<close>

definition es_release :: "('e, unit) wrapped_batch \<Rightarrow> int" where
  "es_release w =
     int (count_if (\<lambda>e. e = RunCallback ()) (snd (WrappedBatch_Done (w\<lparr>CompletionCallback := Some ()\<rparr>) 1)))"

definition es_done :: "('q, 'e) beats_queue \<Rightarrow> nat \<Rightarrow> ('q, 'x, 'e) es_process \<Rightarrow> ('q, 'x, 'e) es_process" where
  "es_done bq i p =
     p\<lparr>ep_pipe := ack_batch bq i [1] (ep_pipe p), ep_wg := ep_wg p - es_release (pl_inflight (ep_pipe p) ! i)\<rparr>"

inductive es_step ::
    "('e \<Rightarrow> string result) \<Rightarrow> ('q, 'e) beats_queue \<Rightarrow> ('q, 'x, 'e) es_process \<Rightarrow> ('q, 'x, 'e) es_process \<Rightarrow> bool"
    for ser bq where
  take: "ep_phase p = EsTaking \<Longrightarrow> out_queue (ep_pipe p) = Some q \<Longrightarrow> queue_Get bq q 100 = (q', Inr w) \<Longrightarrow>
    es_step ser bq p (p\<lparr>ep_pipe := (set_out_queue (ep_pipe p) q')\<lparr>pl_inflight := pl_inflight (ep_pipe p) @ [w],
        pl_batches := pl_batches (ep_pipe p) @ [w]\<rparr>,
      ep_phase := EsAdding (map the (WrappedBatch_Events w)), ep_pending := ep_pending p @ [0], ep_wg := ep_wg p + 1\<rparr>)"
| skip: "ep_phase p = EsAdding (e # es) \<Longrightarrow> ser e = Inl err \<Longrightarrow> es_step ser bq p (p\<lparr>ep_phase := EsAdding es\<rparr>)"
| add: "ep_phase p = EsAdding (e # es) \<Longrightarrow> ser e = Inr t \<Longrightarrow> i = length (ep_pending p) - 1 \<Longrightarrow>
    es_step ser bq p (p\<lparr>ep_phase := EsAdding es, ep_pending := (ep_pending p)[i := Suc (ep_pending p ! i)]\<rparr>)"
| refuse: "ep_phase p = EsAdding (e # es) \<Longrightarrow> ser e = Inr t \<Longrightarrow> i = length (ep_pending p) - 1 \<Longrightarrow>
    es_step ser bq p (es_done bq i (p\<lparr>ep_phase := EsAdding es\<rparr>))"
| again: "ep_phase p = EsAdding [] \<Longrightarrow> es_step ser bq p (p\<lparr>ep_phase := EsTaking\<rparr>)"
| callback: "i < length (ep_pending p) \<Longrightarrow> ep_pending p ! i = Suc n \<Longrightarrow>
    es_step ser bq p (es_done bq i (p\<lparr>ep_pending := (ep_pending p)[i := n]\<rparr>))"
| stop: "ep_phase p = EsTaking \<Longrightarrow> out_queue (ep_pipe p) = Some q \<Longrightarrow> sr_queue (pl_runner (ep_pipe p)) = None \<Longrightarrow>
    queue_Get bq q 100 = (q', (Inl err :: (('e, unit) wrapped_batch) result)) \<Longrightarrow>
    es_step ser bq p (p\<lparr>ep_pipe := set_out_queue (ep_pipe p) q', ep_phase := EsClosing\<rparr>)"
| finish: "ep_phase p = EsClosing \<Longrightarrow> sum_list (ep_pending p) = 0 \<Longrightarrow>
    es_step ser bq p (p\<lparr>ep_phase := EsEnded, ep_wg := ep_wg p - 1\<rparr>)"

text \<open>The whole system: the goroutine with the indexer, and the clients.\<close>

inductive es_system ::
    "('e \<Rightarrow> string result) \<Rightarrow> ('q, 'e) beats_queue \<Rightarrow> ('q, 'x, 'e) es_process \<Rightarrow> ('q, 'x, 'e) es_process \<Rightarrow> bool"
    for ser bq where
  by_output: "es_step ser bq p p' \<Longrightarrow> es_system ser bq p p'"
| by_client: "client_step bq (ep_pipe p) s' \<Longrightarrow> es_system ser bq p (p\<lparr>ep_pipe := s'\<rparr>)"

definition es_init :: "('q, 'x) server_runner \<Rightarrow> ('q, 'x, 'e) es_process" where
  "es_init r = \<lparr>ep_pipe = pipeline_init r, ep_phase = EsTaking, ep_pending = [], ep_wg = 1\<rparr>"

section \<open>The accounts of a batch\<close>

abbreviation serializable :: "('e \<Rightarrow> string result) \<Rightarrow> 'e \<Rightarrow> bool" where
  "serializable ser e \<equiv> \<exists>t. ser e = Inr t"

abbreviation batch_events :: "('e, 'c) wrapped_batch \<Rightarrow> 'e list" where
  "batch_events w \<equiv> map the (WrappedBatch_Events w)"

definition open_batch :: "('e, 'c) wrapped_batch \<Rightarrow> bool" where
  "open_batch w \<longleftrightarrow> unat (doneCount w) < batch_Count (wb_batch w)"

text \<open>A batch as it was taken, as it is now, and the acknowledgements still to come.\<close>

definition batch_account ::
    "('e \<Rightarrow> string result) \<Rightarrow> ('e, unit) wrapped_batch \<Rightarrow> ('e, unit) wrapped_batch \<Rightarrow> nat \<Rightarrow> bool" where
  "batch_account ser w0 w owed \<longleftrightarrow> fresh_batch w0 (batch_events w0) \<and> w = w0\<lparr>doneCount := doneCount w\<rparr> \<and>
     unat (doneCount w) + owed = count_if (serializable ser) (batch_events w0)"

lemma batch_account_Done:
  assumes "batch_account ser w0 w (Suc n)"
  shows "WrappedBatch_Done w 1 = (w\<lparr>doneCount := doneCount w + 1\<rparr>, if open_batch (w\<lparr>doneCount := doneCount w + 1\<rparr>) then [] else completion w)"
    and "es_release w = of_bool (\<not> open_batch (w\<lparr>doneCount := doneCount w + 1\<rparr>))"
    and "open_batch w" and "batch_account ser w0 (w\<lparr>doneCount := doneCount w + 1\<rparr>) n"
proof -
  let ?es = "batch_events w0" and ?w = "w\<lparr>doneCount := doneCount w + 1\<rparr>"
  from assms have f: "fresh_batch w0 ?es" and w: "w = w0\<lparr>doneCount := doneCount w\<rparr>"
      and acc: "unat (doneCount w) + Suc n = count_if (serializable ser) ?es"
    by (auto simp: batch_account_def)
  have "count_if (serializable ser) ?es \<le> length ?es" by simp
  moreover have count: "batch_Count (wb_batch w) = length ?es"
    using f by (subst w) (simp add: fresh_batch_def batch_Count_def WrappedBatch_Events_entries)
  moreover have "length ?es < 2 ^ 63" using f by (simp add: fresh_batch_def)
  ultimately have less: "unat (doneCount w) + 1 \<le> batch_Count (wb_batch w)" "batch_Count (wb_batch w) < 2 ^ 63"
    using acc by linarith+
  then have plus: "unat (doneCount w + 1) = unat (doneCount w) + 1" using unat_add_no_overflow [of "doneCount w" 1] by simp
  have call: "WrappedBatch_Done v 1 = (v\<lparr>doneCount := doneCount v + 1\<rparr>, if open_batch (v\<lparr>doneCount := doneCount v + 1\<rparr>) then [] else completion v)"
    if "doneCount v = doneCount w" "wb_batch v = wb_batch w" for v :: "('a, unit) wrapped_batch"
    using less plus that by (subst WrappedBatch_Done_cases) (auto simp: open_batch_def)
  then show "WrappedBatch_Done w 1 = (?w, if open_batch ?w then [] else completion w)" by simp
  show "es_release w = of_bool (\<not> open_batch ?w)"
    using call [of "w\<lparr>CompletionCallback := Some ()\<rparr>"] by (simp add: es_release_def completion_def open_batch_def)
  show "open_batch w" using less by (simp add: open_batch_def)
  show "batch_account ser w0 ?w n"
    using f acc plus by (subst w) (simp add: batch_account_def)
qed

lemma open_batch_events: "open_batch = (\<lambda>w. unat (doneCount w) < length (WrappedBatch_Events w))"
  by (simp add: fun_eq_iff open_batch_def batch_Count_def WrappedBatch_Events_entries)

lemma count_if_less: "count_if P xs < length xs \<longleftrightarrow> \<not> (\<forall>x \<in> set xs. P x)"
  by (induction xs) (auto intro: le_imp_less_Suc)

lemma int_count_if_update:
  "i < length xs \<Longrightarrow> int (count_if P (xs[i := y])) = int (count_if P xs) - of_bool (P (xs ! i)) + of_bool (P y)"
proof (induction xs arbitrary: i)
  case (Cons x xs)
  then show ?case by (cases i) auto
qed simp

section \<open>The wait group is exact\<close>

text \<open>The acknowledgements still owed to the \<open>i\<close>-th batch: callbacks to come, and events of the last batch that
  are not handed over yet.\<close>

definition es_left :: "('e \<Rightarrow> string result) \<Rightarrow> 'e es_phase \<Rightarrow> nat" where
  "es_left ser ph = (case ph of EsAdding es \<Rightarrow> count_if (serializable ser) es | _ \<Rightarrow> 0)"

definition es_owed :: "('e \<Rightarrow> string result) \<Rightarrow> 'e es_phase \<Rightarrow> nat list \<Rightarrow> nat \<Rightarrow> nat" where
  "es_owed ser ph ps i = ps ! i + (if Suc i = length ps then es_left ser ph else 0)"

definition es_accounts :: "('e \<Rightarrow> string result) \<Rightarrow> ('q, 'x, 'e) es_process \<Rightarrow> bool" where
  "es_accounts ser p \<longleftrightarrow>
     (let s = ep_pipe p; n = length (pl_batches s) in
      length (pl_inflight s) = n \<and> length (ep_pending p) = n \<and> (\<forall>es. ep_phase p = EsAdding es \<longrightarrow> 0 < n) \<and>
      (\<forall>i < n. batch_account ser (pl_batches s ! i) (pl_inflight s ! i) (es_owed ser (ep_phase p) (ep_pending p) i)) \<and>
      ep_wg p = of_bool (ep_phase p \<noteq> EsEnded) + int (count_if open_batch (pl_inflight s)) \<and>
      (ep_phase p = EsEnded \<longrightarrow> sum_list (ep_pending p) = 0) \<and> out_queue s \<noteq> None)"

lemma es_accountsD:
  assumes "es_accounts ser p"
  shows "length (pl_inflight (ep_pipe p)) = length (pl_batches (ep_pipe p))"
    "length (ep_pending p) = length (pl_batches (ep_pipe p))"
    "ep_phase p = EsAdding es \<Longrightarrow> 0 < length (ep_pending p)"
    "i < length (ep_pending p) \<Longrightarrow>
      batch_account ser (pl_batches (ep_pipe p) ! i) (pl_inflight (ep_pipe p) ! i) (es_owed ser (ep_phase p) (ep_pending p) i)"
    "ep_wg p = of_bool (ep_phase p \<noteq> EsEnded) + int (count_if open_batch (pl_inflight (ep_pipe p)))"
    "ep_phase p = EsEnded \<Longrightarrow> sum_list (ep_pending p) = 0"
    "\<exists>q. out_queue (ep_pipe p) = Some q"
  using assms by (auto simp: es_accounts_def Let_def)

text \<open>A call of \<open>Done\<close> on a batch to which an acknowledgement is owed.\<close>

lemma es_accounts_done:
  assumes a: "es_accounts ser p" and i: "i < length (ep_pending p)"
    and owed: "es_owed ser (ep_phase p) (ep_pending p) i = Suc (es_owed ser ph ps i)"
    and others: "\<And>j. j < length (ep_pending p) \<Longrightarrow> j \<noteq> i \<Longrightarrow> es_owed ser (ep_phase p) (ep_pending p) j = es_owed ser ph ps j"
    and ps: "length ps = length (ep_pending p)" and ph: "ep_phase p \<noteq> EsEnded" "ph \<noteq> EsEnded"
  shows "es_accounts ser (es_done bq i (p\<lparr>ep_phase := ph, ep_pending := ps\<rparr>))"
proof -
  let ?s = "ep_pipe p" and ?w = "pl_inflight (ep_pipe p) ! i"
  let ?w' = "?w\<lparr>doneCount := doneCount ?w + 1\<rparr>"
  note len = es_accountsD(1,2) [OF a]
  obtain q where q: "out_queue ?s = Some q" using es_accountsD(7) [OF a] by blast
  have "batch_account ser (pl_batches ?s ! i) ?w (Suc (es_owed ser ph ps i))"
    using es_accountsD(4) [OF a i] owed by simp
  note d = batch_account_Done [OF this]
  note keeps = ack_batch_keeps [OF q, of bq i "[1]"]
  have inflight: "pl_inflight (ack_batch bq i [1] ?s) = (pl_inflight ?s)[i := ?w']"
    using keeps(4) d(1) by simp
  have "int (count_if open_batch ((pl_inflight ?s)[i := ?w'])) =
      int (count_if open_batch (pl_inflight ?s)) - 1 + of_bool (open_batch ?w')"
    using int_count_if_update [of i "pl_inflight ?s" open_batch ?w'] i len d(3) by simp
  then have "ep_wg p - es_release ?w = 1 + int (count_if open_batch ((pl_inflight ?s)[i := ?w']))"
    using es_accountsD(5) [OF a] ph(1) d(2) by (cases "open_batch ?w'") simp_all
  moreover have "batch_account ser (pl_batches ?s ! j) ((pl_inflight ?s)[i := ?w'] ! j) (es_owed ser ph ps j)"
    if "j < length (ep_pending p)" for j
    using es_accountsD(4) [OF a that] others [OF that] d(4) i len by (cases "j = i") simp_all
  moreover have "0 < length (ep_pending p)" using i by auto
  ultimately show ?thesis
    using keeps(1,3) inflight len ps ph by (auto simp: es_accounts_def Let_def es_done_def)
qed

lemma es_accounts_client:
  assumes "es_accounts ser p" "client_step bq (ep_pipe p) s'" "conserved pend s'"
  shows "es_accounts ser (p\<lparr>ep_pipe := s'\<rparr>)"
  using assms(1,3) client_step_keeps [OF assms(2)] by (simp add: es_accounts_def Let_def conserved_def)

lemma es_step_pipeline:
  assumes "es_step ser bq p p'" "es_accounts ser p"
  shows "pipeline_steps bq (ep_pipe p) (ep_pipe p')"
proof -
  obtain q0 where q0: "out_queue (ep_pipe p) = Some q0" using es_accountsD(7) [OF assms(2)] by blast
  have call: "pipeline_steps bq (ep_pipe p) (ack_batch bq i [1] (ep_pipe p))" if "i < length (ep_pending p)" for i
    using ack_batch_steps [OF q0, of i bq "[1]"] that es_accountsD(1,2) [OF assms(2)] by (simp add: output_steps_pipeline)
  from assms(1) show ?thesis
  proof cases
    case (refuse e es t i)
    have "i < length (ep_pending p)" using es_accountsD(3) [OF assms(2) refuse(2)] refuse(4) by simp
    with refuse(1) call show ?thesis by (simp add: es_done_def)
  next
    case (callback i n)
    with call [of i] show ?thesis by (simp add: es_done_def)
  qed (auto intro!: r_into_rtranclp pipeline_step.by_output output_step.get output_step.get_fails)
qed

lemma es_accounts_take:
  assumes a: "es_accounts ser p" and ph: "ep_phase p = EsTaking" and q: "out_queue (ep_pipe p) = Some q"
    and f: "fresh_batch w (batch_events w)"
  shows "es_accounts ser (p\<lparr>ep_pipe := (set_out_queue (ep_pipe p) q')\<lparr>pl_inflight := pl_inflight (ep_pipe p) @ [w],
      pl_batches := pl_batches (ep_pipe p) @ [w]\<rparr>,
    ep_phase := EsAdding (batch_events w), ep_pending := ep_pending p @ [0], ep_wg := ep_wg p + 1\<rparr>)"
proof -
  let ?bs = "pl_batches (ep_pipe p)" and ?ws = "pl_inflight (ep_pipe p)" and ?ps = "ep_pending p"
  let ?ph = "EsAdding (batch_events w)"
  note len = es_accountsD(1,2) [OF a]
  have "batch_account ser ((?bs @ [w]) ! i) ((?ws @ [w]) ! i) (es_owed ser ?ph (?ps @ [0]) i)" if "i < Suc (length ?bs)" for i
  proof (cases "i = length ?bs")
    case True
    have "batch_account ser w w (count_if (serializable ser) (batch_events w))"
      using f by (simp add: batch_account_def fresh_batch_def)
    with True len show ?thesis by (simp add: es_owed_def es_left_def nth_append)
  next
    case False
    with that have "i < length ?bs" by simp
    with es_accountsD(4) [OF a, of i] len ph show ?thesis by (simp add: es_owed_def es_left_def nth_append split: if_splits)
  qed
  moreover have "open_batch w"
    using f by (simp add: open_batch_def fresh_batch_def batch_Count_def)
  ultimately show ?thesis
    using len es_accountsD(5) [OF a] ph out_queue_set [OF q, of q'] by (simp add: es_accounts_def Let_def)
qed

text \<open>Steps that leave the pipeline's batches and the accounts as they are.\<close>

lemma es_accounts_phase:
  assumes a: "es_accounts ser p" and ps: "length ps = length (ep_pending p)"
    and owed: "\<And>i. i < length (ep_pending p) \<Longrightarrow> es_owed ser ph ps i = es_owed ser (ep_phase p) (ep_pending p) i"
    and ph: "ep_phase p \<noteq> EsEnded" "\<And>es. ph = EsAdding es \<Longrightarrow> 0 < length (ep_pending p)"
      "ph = EsEnded \<Longrightarrow> sum_list ps = 0"
    and s: "pl_inflight s = pl_inflight (ep_pipe p)" "pl_batches s = pl_batches (ep_pipe p)" "out_queue s \<noteq> None"
    and wg: "wg = ep_wg p - of_bool (ph = EsEnded)"
  shows "es_accounts ser (p\<lparr>ep_pipe := s, ep_phase := ph, ep_pending := ps, ep_wg := wg\<rparr>)"
  using es_accountsD(1,2,4,5) [OF a] ps owed ph s wg by (auto simp: es_accounts_def Let_def)

lemma es_accounts_step:
  assumes step: "es_step ser bq p p'" and a: "es_accounts ser p" and laws: "queue_laws bq pend"
  shows "es_accounts ser p'"
  using step
proof cases
  case (take q q' w)
  obtain es where "fresh_batch w es" using queue_Get_fresh [OF laws take(4)] by blast
  then have "fresh_batch w (batch_events w)" using fresh_taken by metis
  with take a es_accounts_take show ?thesis by blast
next
  case (skip e es err)
  have "es_accounts ser (p\<lparr>ep_pipe := ep_pipe p, ep_phase := EsAdding es, ep_pending := ep_pending p, ep_wg := ep_wg p\<rparr>)"
    using skip es_accountsD(3,7) [OF a] by (intro es_accounts_phase [OF a]) (auto simp: es_owed_def es_left_def)
  with skip show ?thesis by simp
next
  case (add e es t i)
  have "0 < length (ep_pending p)" using es_accountsD(3) [OF a add(2)] .
  then have "es_accounts ser (p\<lparr>ep_pipe := ep_pipe p, ep_phase := EsAdding es,
      ep_pending := (ep_pending p)[i := Suc (ep_pending p ! i)], ep_wg := ep_wg p\<rparr>)"
    using add es_accountsD(7) [OF a]
    by (intro es_accounts_phase [OF a]) (auto simp: es_owed_def es_left_def nth_list_update)
  with add show ?thesis by simp
next
  case (refuse e es t i)
  have n: "0 < length (ep_pending p)" using es_accountsD(3) [OF a refuse(2)] .
  have "es_accounts ser (es_done bq i (p\<lparr>ep_phase := EsAdding es, ep_pending := ep_pending p\<rparr>))"
    using refuse n by (intro es_accounts_done [OF a]) (auto simp: es_owed_def es_left_def)
  with refuse show ?thesis by simp
next
  case again
  have "es_accounts ser (p\<lparr>ep_pipe := ep_pipe p, ep_phase := EsTaking, ep_pending := ep_pending p, ep_wg := ep_wg p\<rparr>)"
    using again es_accountsD(7) [OF a] by (intro es_accounts_phase [OF a]) (auto simp: es_owed_def es_left_def)
  with again show ?thesis by simp
next
  case (callback i n)
  have "sum_list (ep_pending p) \<noteq> 0" using callback(3) nth_mem [OF callback(2)] by (auto simp: sum_list_eq_0_iff intro: bexI [of _ "Suc n"])
  then have "ep_phase p \<noteq> EsEnded" using es_accountsD(6) [OF a] by auto
  then have "es_accounts ser (es_done bq i (p\<lparr>ep_phase := ep_phase p, ep_pending := (ep_pending p)[i := n]\<rparr>))"
    using callback by (intro es_accounts_done [OF a]) (auto simp: es_owed_def)
  with callback show ?thesis by simp
next
  case (stop q q' err)
  have "es_accounts ser (p\<lparr>ep_pipe := set_out_queue (ep_pipe p) q', ep_phase := EsClosing, ep_pending := ep_pending p, ep_wg := ep_wg p\<rparr>)"
    using stop out_queue_set [OF stop(3), of q'] by (intro es_accounts_phase [OF a]) (auto simp: es_owed_def es_left_def)
  with stop show ?thesis by simp
next
  case finish
  have "es_accounts ser (p\<lparr>ep_pipe := ep_pipe p, ep_phase := EsEnded, ep_pending := ep_pending p, ep_wg := ep_wg p - 1\<rparr>)"
    using finish es_accountsD(7) [OF a] by (intro es_accounts_phase [OF a]) (auto simp: es_owed_def es_left_def)
  with finish show ?thesis by simp
qed

lemma es_system_invariant:
  assumes "(es_system ser bq)\<^sup>*\<^sup>* (es_init r) p" "queue_laws bq pend" "sr_queue r = Some q0" "pend (eventQueue q0) = []"
  shows "es_accounts ser p \<and> conserved pend (ep_pipe p) \<and> pipeline_steps bq (pipeline_init r) (ep_pipe p)"
  using assms(1)
proof (induction rule: rtranclp_induct)
  case base
  have "conserved pend (pipeline_init r)" by (rule conserved_init [of r q0 pend, OF assms(3,4)])
  then show ?case by (simp add: es_accounts_def es_init_def pipeline_init_def conserved_def)
next
  case (step p p')
  then have inv: "es_accounts ser p" "conserved pend (ep_pipe p)" "pipeline_steps bq (pipeline_init r) (ep_pipe p)" by blast+
  from step.hyps(2) show ?case
  proof cases
    case by_output
    have run: "pipeline_steps bq (ep_pipe p) (ep_pipe p')" by (rule es_step_pipeline [OF by_output inv(1)])
    with inv show ?thesis
      using es_accounts_step [OF by_output inv(1) assms(2)] conserved_steps [OF run inv(2) assms(2)] by (auto intro: rtranclp_trans)
  next
    case (by_client s')
    have "pipeline_step bq (ep_pipe p) s'" by (rule client_step_pipeline [OF by_client(2)])
    with inv assms(2) have "conserved pend s'" "pipeline_steps bq (pipeline_init r) s'"
      by (auto intro: conserved_step rtranclp.rtrancl_into_rtrancl)
    with by_client es_accounts_client [OF inv(1) by_client(2)] show ?thesis by simp
  qed
qed

section \<open>The goroutine ends\<close>

definition es_rank :: "('q, 'x, 'e) es_process \<Rightarrow> nat" where
  "es_rank p = sum_list (ep_pending p) +
     (case ep_phase p of EsAdding es \<Rightarrow> 2 * length es + 3 | EsTaking \<Rightarrow> 2 | EsClosing \<Rightarrow> 1 | EsEnded \<Rightarrow> 0)"

lemma waiting_ack: "queue_laws bq pend \<Longrightarrow> waiting pend (ack_batch bq i ns s) = waiting pend s"
  by (auto simp: ack_batch_def waiting_def out_queue_set queue_effects_pending split: option.split prod.split)

lemma sum_list_update_nat:
  "i < length ps \<Longrightarrow> sum_list (ps[i := n]) + ps ! i = sum_list ps + (n :: nat)"
proof (induction ps arbitrary: i)
  case (Cons m ps)
  then show ?case by (cases i) auto
qed simp

lemma es_step_decreases:
  assumes "es_step ser bq p p'" "es_accounts ser p" "queue_laws bq pend"
  shows "((length (waiting pend (ep_pipe p')), es_rank p'), (length (waiting pend (ep_pipe p)), es_rank p))
    \<in> less_than <*lex*> less_than"
  using assms(1)
proof cases
  case (take q q' w)
  obtain es where "fresh_batch w es" "pend (eventQueue q) = es @ pend (eventQueue q')"
    using queue_Get_fresh [OF assms(3) take(4)] by metis
  with take waiting_set [OF take(3), of pend q'] show ?thesis by (auto simp: waiting_def fresh_batch_def)
next
  case (add e es t i)
  have "i < length (ep_pending p)" using es_accountsD(3) [OF assms(2) add(2)] add(4) by simp
  with add sum_list_update_nat [of i "ep_pending p" "Suc (ep_pending p ! i)"] show ?thesis by (simp add: es_rank_def)
next
  case (refuse e es t i)
  then show ?thesis by (simp add: es_rank_def es_done_def waiting_ack [OF assms(3)])
next
  case (callback i n)
  with sum_list_update_nat [of i "ep_pending p" n] show ?thesis
    by (simp add: es_rank_def es_done_def waiting_ack [OF assms(3)])
next
  case (stop q q' err)
  with waiting_set [OF stop(3), of pend q'] queue_Get_fails_pending [OF assms(3) stop(5)] show ?thesis
    by (simp add: waiting_def es_rank_def)
qed (simp_all add: es_rank_def)

lemma es_terminates:
  assumes "queue_laws bq pend"
  shows "wfP (\<lambda>p' p. es_accounts ser p \<and> es_step ser bq p p')"
proof -
  let ?m = "\<lambda>p. (length (waiting pend (ep_pipe p)), es_rank p)"
  have "{(p', p). es_accounts ser p \<and> es_step ser bq p p'} \<subseteq> inv_image (less_than <*lex*> less_than) ?m"
    using es_step_decreases [OF _ _ assms] by (auto simp: inv_image_def)
  then show ?thesis unfolding wfp_def by (rule wf_subset [rotated]) (intro wf_inv_image wf_lex_prod wf_less_than)
qed

lemma es_steps_invariant:
  assumes "(es_step ser bq)\<^sup>*\<^sup>* p p'" "es_accounts ser p" "queue_laws bq pend"
  shows "es_accounts ser p'"
  using assms by (induction rule: rtranclp_induct) (auto intro: es_accounts_step)

lemma es_step_keeps_closed:
  assumes "es_step ser bq p p'" "sr_queue (pl_runner (ep_pipe p)) = None"
  shows "sr_queue (pl_runner (ep_pipe p')) = None"
  using assms by cases (auto simp: set_out_queue_def es_done_def ack_batch_def split: option.splits prod.splits)

lemma es_progress:
  assumes "es_accounts ser p" "sr_queue (pl_runner (ep_pipe p)) = None" "ep_phase p \<noteq> EsEnded"
  shows "\<exists>p'. es_step ser bq p p'"
proof (cases "ep_phase p")
  case EsTaking
  obtain q where q: "out_queue (ep_pipe p) = Some q" using es_accountsD(7) [OF assms(1)] by blast
  obtain q' and res :: "(('a, unit) wrapped_batch) result" where g: "queue_Get bq q 100 = (q', res)" by force
  show ?thesis
  proof (cases res)
    case (Inl err)
    with g show ?thesis by (blast intro: es_step.stop [OF EsTaking q assms(2)])
  next
    case (Inr w)
    with g show ?thesis by (blast intro: es_step.take [OF EsTaking q])
  qed
next
  case (EsAdding es)
  show ?thesis
  proof (cases es)
    case Nil
    with EsAdding show ?thesis by (blast intro: es_step.again)
  next
    case (Cons e es')
    with EsAdding show ?thesis by (cases "ser e") (blast intro: es_step.skip es_step.add)+
  qed
next
  case EsClosing
  show ?thesis
  proof (cases "sum_list (ep_pending p) = 0")
    case True
    with EsClosing show ?thesis by (blast intro: es_step.finish)
  next
    case False
    then obtain i where "i < length (ep_pending p)" "ep_pending p ! i \<noteq> 0" by (auto simp: sum_list_eq_0_iff in_set_conv_nth)
    then show ?thesis by (metis es_step.callback not0_implies_Suc)
  qed
qed (use assms(3) in simp)

lemma closed_es_reaches_end:
  assumes "queue_laws bq pend" "es_accounts ser p" "sr_queue (pl_runner (ep_pipe p)) = None"
  shows "\<exists>p'. (es_step ser bq)\<^sup>*\<^sup>* p p' \<and> ep_phase p' = EsEnded"
  using assms(2,3)
proof (induction p rule: wfp_induct_rule [OF es_terminates [OF assms(1), of ser]])
  case (1 p)
  show ?case
  proof (cases "ep_phase p = EsEnded")
    case False
    obtain p1 where s: "es_step ser bq p p1" using es_progress [OF "1.prems" False] by blast
    with "1.IH" [of p1] "1.prems" es_accounts_step [OF s _ assms(1)] es_step_keeps_closed [OF s] show ?thesis
      by (meson converse_rtranclp_into_rtranclp)
  qed auto
qed

text \<open>At its end the wait group counts the batches that hold an event which does not serialize.\<close>

lemma ended_wait_group:
  assumes a: "es_accounts ser p" and e: "ep_phase p = EsEnded"
  shows "ep_wg p = 0 \<longleftrightarrow> (\<forall>w \<in> set (pl_batches (ep_pipe p)). \<forall>e \<in> set (batch_events w). serializable ser e)"
proof -
  let ?bs = "pl_batches (ep_pipe p)" and ?ws = "pl_inflight (ep_pipe p)"
  note len = es_accountsD(1,2) [OF a]
  have zero: "ep_pending p ! i = 0" if "i < length (ep_pending p)" for i
    using es_accountsD(6) [OF a e] nth_mem [OF that] by (simp add: sum_list_eq_0_iff)
  have "open_batch (?ws ! i) \<longleftrightarrow> \<not> (\<forall>e \<in> set (batch_events (?bs ! i)). serializable ser e)" if i: "i < length ?bs" for i
  proof -
    let ?es = "batch_events (?bs ! i)"
    have "batch_account ser (?bs ! i) (?ws ! i) 0"
      using es_accountsD(4) [OF a, of i] zero [of i] i len e by (simp add: es_owed_def es_left_def split: if_splits)
    then have w: "?ws ! i = (?bs ! i)\<lparr>doneCount := doneCount (?ws ! i)\<rparr>"
        and n: "unat (doneCount (?ws ! i)) = count_if (serializable ser) ?es"
      by (simp_all add: batch_account_def)
    have "batch_Count (wb_batch (?ws ! i)) = length ?es"
      by (subst w) (simp add: batch_Count_def WrappedBatch_Events_entries)
    then have "open_batch (?ws ! i) \<longleftrightarrow> count_if (serializable ser) ?es < length ?es" using n by (simp add: open_batch_def)
    also have "\<dots> \<longleftrightarrow> \<not> (\<forall>e \<in> set ?es. serializable ser e)"
      by (rule count_if_less)
    finally show ?thesis .
  qed
  then have "count_if open_batch ?ws = 0 \<longleftrightarrow> (\<forall>i < length ?bs. \<forall>e \<in> set (batch_events (?bs ! i)). serializable ser e)"
    using len by (simp add: filter_empty_conv all_set_conv_all_nth)
  then show ?thesis using es_accountsD(5) [OF a] e by (simp add: all_set_conv_all_nth)
qed

section \<open>The index catches up\<close>

text \<open>A batch acknowledged in full has been released to the queue.\<close>

definition full_completed :: "('q, 'x, 'e) pipeline \<Rightarrow> bool" where
  "full_completed s \<longleftrightarrow>
     (\<forall>i < length (pl_inflight s). \<not> open_batch (pl_inflight s ! i) \<longrightarrow> wb_id (pl_inflight s ! i) \<in> set (pl_completed s))"

lemma full_completed_done:
  assumes a: "es_accounts ser p" and i: "i < length (ep_pending p)" and c: "full_completed (ep_pipe p)"
    and owed: "es_owed ser (ep_phase p) (ep_pending p) i = Suc n"
  shows "full_completed (ack_batch bq i [1] (ep_pipe p))"
proof -
  let ?s = "ep_pipe p" and ?w = "pl_inflight (ep_pipe p) ! i"
  let ?w' = "?w\<lparr>doneCount := doneCount ?w + 1\<rparr>"
  obtain q where q: "out_queue ?s = Some q" using es_accountsD(7) [OF a] by blast
  have "batch_account ser (pl_batches ?s ! i) ?w (Suc n)" using es_accountsD(4) [OF a i] owed by simp
  note d = batch_account_Done(1) [OF this]
  note keeps = ack_batch_keeps [OF q, of bq i "[1]"]
  have "pl_inflight (ack_batch bq i [1] ?s) = (pl_inflight ?s)[i := ?w']" using keeps(4) d by simp
  moreover have "pl_completed (ack_batch bq i [1] ?s) = pl_completed ?s @ (if open_batch ?w' then [] else [wb_id ?w])"
    using keeps(5) d batches_done_completion [of ?w] by (simp add: batches_done_def)
  moreover have "wb_id ((pl_inflight ?s)[i := ?w'] ! j) \<in> set (pl_completed ?s @ (if open_batch ?w' then [] else [wb_id ?w]))"
    if "j < length (pl_inflight ?s)" "\<not> open_batch ((pl_inflight ?s)[i := ?w'] ! j)" for j
    using c that by (cases "j = i") (simp_all add: full_completed_def)
  ultimately show ?thesis by (simp add: full_completed_def)
qed

lemma full_completed_step:
  assumes step: "es_step ser bq p p'" and a: "es_accounts ser p" and laws: "queue_laws bq pend" and c: "full_completed (ep_pipe p)"
  shows "full_completed (ep_pipe p')"
  using step
proof cases
  case (take q q' w)
  obtain es where "fresh_batch w es" using queue_Get_fresh [OF laws take(4)] by blast
  then have "open_batch w" by (simp add: open_batch_def fresh_batch_def batch_Count_def)
  with take c show ?thesis by (auto simp: full_completed_def nth_append less_Suc_eq)
next
  case (refuse e es t i)
  have "i < length (ep_pending p)" "es_owed ser (ep_phase p) (ep_pending p) i = Suc (ep_pending p ! i + count_if (serializable ser) es)"
    using es_accountsD(3) [OF a refuse(2)] refuse by (simp_all add: es_owed_def es_left_def)
  from full_completed_done [OF a this(1) c this(2)] refuse show ?thesis by (simp add: es_done_def)
next
  case (callback i n)
  then have "\<exists>m. es_owed ser (ep_phase p) (ep_pending p) i = Suc m" by (simp add: es_owed_def)
  with full_completed_done [OF a callback(2) c] callback show ?thesis by (auto simp: es_done_def)
qed (use c in \<open>auto simp: full_completed_def\<close>)

lemma full_completed_system:
  assumes "(es_system ser bq)\<^sup>*\<^sup>* (es_init r) p" "queue_laws bq pend" "sr_queue r = Some q0" "pend (eventQueue q0) = []"
  shows "full_completed (ep_pipe p)"
  using assms(1)
proof (induction rule: rtranclp_induct)
  case base
  show ?case by (simp add: full_completed_def es_init_def pipeline_init_def)
next
  case (step p p')
  have a: "es_accounts ser p" using es_system_invariant [OF step.hyps(1) assms(2-4)] by blast
  from step.hyps(2) show ?case
  proof cases
    case by_output
    then show ?thesis using full_completed_step [OF _ a assms(2) step.IH] by blast
  next
    case (by_client s')
    with step.IH client_step_keeps [OF by_client(2)] show ?thesis by (simp add: full_completed_def)
  qed
qed

text \<open>No event of a batch is to be handed over, and no callback is to come.\<close>

definition es_quiet :: "('q, 'x, 'e) es_process \<Rightarrow> bool" where
  "es_quiet p \<longleftrightarrow> (case ep_phase p of EsAdding es \<Rightarrow> False | _ \<Rightarrow> sum_list (ep_pending p) = 0)"

lemma quiet_released:
  assumes a: "es_accounts ser p" and q: "es_quiet p" and c: "full_completed (ep_pipe p)"
    and ser: "\<forall>e \<in> set (taken (ep_pipe p)). serializable ser e"
  shows "released_count (ep_pipe p) = length (taken (ep_pipe p))"
proof -
  let ?s = "ep_pipe p"
  note len = es_accountsD(1,2) [OF a]
  have zero: "ep_pending p ! i = 0" if "i < length (ep_pending p)" for i
    using q nth_mem [OF that] by (auto simp: es_quiet_def sum_list_eq_0_iff split: es_phase.splits)
  have "wb_id (pl_batches ?s ! i) \<in> set (pl_completed ?s)" if i: "i < length (pl_batches ?s)" for i
  proof -
    let ?w = "pl_inflight ?s ! i" and ?es = "batch_events (pl_batches ?s ! i)"
    have "batch_account ser (pl_batches ?s ! i) ?w 0"
      using es_accountsD(4) [OF a, of i] zero [of i] i len q
      by (auto simp: es_owed_def es_left_def es_quiet_def split: es_phase.splits if_splits)
    then have w: "?w = (pl_batches ?s ! i)\<lparr>doneCount := doneCount ?w\<rparr>"
        and n: "unat (doneCount ?w) = count_if (serializable ser) ?es"
      by (simp_all add: batch_account_def)
    have "\<forall>e \<in> set ?es. serializable ser e" using ser nth_mem [OF i] by (auto simp: taken_def)
    then have "\<not> count_if (serializable ser) ?es < length ?es" by (simp only: count_if_less simp_thms)
    moreover have "batch_Count (wb_batch ?w) = length ?es" by (subst w) (simp add: batch_Count_def WrappedBatch_Events_entries)
    ultimately have "\<not> open_batch ?w" using n by (simp add: open_batch_def)
    then have "wb_id ?w \<in> set (pl_completed ?s)" using c i len by (simp add: full_completed_def)
    then show ?thesis by (subst (asm) w) simp
  qed
  then have "takeWhile (\<lambda>w. wb_id w \<in> set (pl_completed ?s)) (pl_batches ?s) = pl_batches ?s"
    by (auto simp: takeWhile_eq_all_conv in_set_conv_nth)
  then show ?thesis
    unfolding released_count_def released_entries by (simp only:) (simp add: taken_def length_concat comp_def)
qed

lemma es_settles_step:
  assumes a: "es_accounts ser p" and q: "\<not> es_quiet p"
  shows "\<exists>p'. es_step ser bq p p' \<and> pl_batches (ep_pipe p') = pl_batches (ep_pipe p) \<and> es_rank p' < es_rank p"
proof (cases "\<exists>es. ep_phase p = EsAdding es")
  case True
  then obtain es where ph: "ep_phase p = EsAdding es" by blast
  show ?thesis
  proof (cases es)
    case Nil
    with ph show ?thesis by (intro exI [of _ "p\<lparr>ep_phase := EsTaking\<rparr>"]) (auto intro: es_step.again simp: es_rank_def)
  next
    case (Cons e es')
    let ?i = "length (ep_pending p) - 1"
    have i: "?i < length (ep_pending p)" using es_accountsD(3) [OF a ph] by simp
    show ?thesis
    proof (cases "ser e")
      case (Inl err)
      with es_step.skip [of p e es' ser err bq] ph Cons show ?thesis
        by (intro exI [of _ "p\<lparr>ep_phase := EsAdding es'\<rparr>"]) (simp add: es_rank_def)
    next
      case (Inr t)
      with es_step.add [of p e es' ser t ?i bq] ph Cons sum_list_update_nat [OF i, of "Suc (ep_pending p ! ?i)"]
      show ?thesis
        by (intro exI [of _ "p\<lparr>ep_phase := EsAdding es', ep_pending := (ep_pending p)[?i := Suc (ep_pending p ! ?i)]\<rparr>"])
          (simp add: es_rank_def)
    qed
  qed
next
  case False
  with q have "sum_list (ep_pending p) \<noteq> 0" by (auto simp: es_quiet_def split: es_phase.splits)
  then obtain i where "i < length (ep_pending p)" "ep_pending p ! i \<noteq> 0" by (auto simp: sum_list_eq_0_iff in_set_conv_nth)
  then obtain n where i: "i < length (ep_pending p)" "ep_pending p ! i = Suc n" using not0_implies_Suc by blast
  obtain q where "out_queue (ep_pipe p) = Some q" using es_accountsD(7) [OF a] by blast
  note keeps = ack_batch_keeps(1) [OF this, of bq i "[1]"]
  from es_step.callback [OF i, of ser bq] sum_list_update_nat [OF i(1), of n] i(2) keeps show ?thesis
    by (intro exI [of _ "es_done bq i (p\<lparr>ep_pending := (ep_pending p)[i := n]\<rparr>)"]) (simp add: es_rank_def es_done_def)
qed

lemma es_settles:
  assumes "es_accounts ser p" "queue_laws bq pend"
  shows "\<exists>p'. (es_step ser bq)\<^sup>*\<^sup>* p p' \<and> es_quiet p' \<and> pl_batches (ep_pipe p') = pl_batches (ep_pipe p)"
  using assms(1)
proof (induction p rule: measure_induct_rule [of es_rank])
  case (less p)
  show ?case
  proof (cases "es_quiet p")
    case False
    then obtain p1 where p1: "es_step ser bq p p1" "pl_batches (ep_pipe p1) = pl_batches (ep_pipe p)" "es_rank p1 < es_rank p"
      using es_settles_step [OF less.prems] by blast
    with less.IH [OF p1(3) es_accounts_step [OF p1(1) less.prems assms(2)]] show ?thesis
      by (metis converse_rtranclp_into_rtranclp)
  qed auto
qed

section \<open>Properties\<close>

text \<open>C9: with the Elasticsearch output the persisted index catches up with what was taken, if the events taken serialize
  and the queue is a memory queue. In every state that clients, goroutine and callbacks can reach, the
  callbacks having come in any order: when no event of a batch is left to hand over and no callback is to
  come, the index lies behind all events taken. And from every reachable state the goroutine and the
  indexer can reach such a state without taking another batch.\<close>

theorem es_index_catches_up:
  assumes "queue_laws bq pend" "release_laws bq ledger first"
    and "sr_queue r = Some q0" "pend (eventQueue q0) = []" "ledger (eventQueue q0) = []" "\<not> useDiskQueue (queue_cfg q0)"
    and "(es_system ser bq)\<^sup>*\<^sup>* (es_init r) p" "\<forall>e \<in> set (taken (ep_pipe p)). \<exists>t. ser e = Inr t"
  shows "(es_quiet p \<longrightarrow> (\<forall>idx. runner_PersistedIndex bq (pl_runner (ep_pipe p)) = Inr idx \<longrightarrow>
      idx = word_of_nat (first + length (taken (ep_pipe p))))) \<and>
    (\<exists>p'. (es_step ser bq)\<^sup>*\<^sup>* p p' \<and> es_quiet p' \<and> taken (ep_pipe p') = taken (ep_pipe p) \<and>
      (\<forall>idx. runner_PersistedIndex bq (pl_runner (ep_pipe p')) = Inr idx \<longrightarrow>
        idx = word_of_nat (first + length (taken (ep_pipe p)))))"
proof -
  have covers: "idx = word_of_nat (first + length (taken (ep_pipe p)))"
    if run: "(es_system ser bq)\<^sup>*\<^sup>* (es_init r) p" and "es_quiet p" "\<forall>e \<in> set (taken (ep_pipe p)). \<exists>t. ser e = Inr t"
      and idx: "runner_PersistedIndex bq (pl_runner (ep_pipe p)) = Inr idx" for p idx
  proof -
    have inv: "es_accounts ser p" "pipeline_steps bq (pipeline_init r) (ep_pipe p)"
      using es_system_invariant [OF run assms(1,3,4)] by blast+
    have "ledger_ok ledger (ep_pipe p)"
      by (rule ledger_ok_steps [OF inv(2) ledger_ok_init [of r q0 ledger, OF assms(3,5)] assms(2)])
    moreover have "map_option queue_cfg (out_queue (ep_pipe p)) = Some (queue_cfg q0)"
      using steps_history [OF inv(2)] assms(3) by (simp add: pipeline_init_def out_queue_def)
    ultimately have "idx = word_of_nat (first + released_count (ep_pipe p))"
      using idx by (intro reading_is_released [OF assms(2) _ _ _ assms(6)])
    with quiet_released [OF inv(1) that(2) full_completed_system [OF run assms(1,3,4)] that(3)] show ?thesis by simp
  qed
  have "es_accounts ser p" using es_system_invariant [OF assms(7,1,3,4)] by blast
  then obtain p' where p': "(es_step ser bq)\<^sup>*\<^sup>* p p'" "es_quiet p'" "pl_batches (ep_pipe p') = pl_batches (ep_pipe p)"
    using es_settles [OF _ assms(1)] by blast
  have "(es_system ser bq)\<^sup>*\<^sup>* p p'" using p'(1) by (rule mono_rtranclp [rule_format, rotated]) (rule es_system.by_output)
  with assms(7) have run: "(es_system ser bq)\<^sup>*\<^sup>* (es_init r) p'" by (rule rtranclp_trans)
  have "taken (ep_pipe p') = taken (ep_pipe p)" using p'(3) by (simp add: taken_def)
  with p' covers [OF run] covers [OF assms(7)] assms(8) show ?thesis by metis
qed

text \<open>C12: the wait group of the Elasticsearch output is exact: in every state that clients, the goroutine and the
  indexer's callbacks can reach, in any order, it counts the goroutine until its end and each batch
  taken with events that are not acknowledged yet. So it is never negative, which would be a panic.\<close>

theorem es_wait_group_exact:
  assumes "queue_laws bq pend" "sr_queue r = Some q0" "pend (eventQueue q0) = []"
    and "(es_system ser bq)\<^sup>*\<^sup>* (es_init r) p"
  shows "ep_wg p = (if ep_phase p = EsEnded then 0 else 1) +
      int (length (filter (\<lambda>w. unat (doneCount w) < length (WrappedBatch_Events w)) (pl_inflight (ep_pipe p)))) \<and>
    0 \<le> ep_wg p"
  using es_accountsD(5) [of ser p] es_system_invariant [OF assms(4,1-3)] by (simp add: open_batch_events)

text \<open>C11: when \<open>Wait\<close> of the Elasticsearch output returns: from every reachable state in which the runner is
  closed, goroutine and callbacks can run to the end of the goroutine and cannot run forever; and at
  the end the wait group is zero, so that \<open>Wait\<close> returns, exactly if every event the output ever took could be
  serialized.\<close>

theorem closed_es_wait:
  assumes "queue_laws bq pend" "sr_queue r = Some q0" "pend (eventQueue q0) = []"
    and "(es_system ser bq)\<^sup>*\<^sup>* (es_init r) p" "\<not> runner_IsInitialized (pl_runner (ep_pipe p))"
  shows "(\<exists>p'. (es_step ser bq)\<^sup>*\<^sup>* p p' \<and> ep_phase p' = EsEnded) \<and>
    (\<forall>p'. (es_step ser bq)\<^sup>*\<^sup>* p p' \<longrightarrow> ep_phase p' = EsEnded \<longrightarrow>
      (ep_wg p' = 0 \<longleftrightarrow> (\<forall>e \<in> set (taken (ep_pipe p')). \<exists>t. ser e = Inr t))) \<and>
    \<not> (\<exists>f. f 0 = p \<and> (\<forall>i. es_step ser bq (f i) (f (Suc i))))"
proof (intro conjI allI impI notI)
  have a: "es_accounts ser p" using es_system_invariant [OF assms(4,1-3)] by blast
  show "\<exists>p'. (es_step ser bq)\<^sup>*\<^sup>* p p' \<and> ep_phase p' = EsEnded"
    using closed_es_reaches_end [OF assms(1) a] assms(5) by (simp add: runner_IsInitialized_def)
  show "ep_wg p' = 0 \<longleftrightarrow> (\<forall>e \<in> set (taken (ep_pipe p')). \<exists>t. ser e = Inr t)"
    if "(es_step ser bq)\<^sup>*\<^sup>* p p'" "ep_phase p' = EsEnded" for p'
    using ended_wait_group [OF es_steps_invariant [OF that(1) a assms(1)] that(2)] by (simp add: taken_def)
  assume "\<exists>f. f 0 = p \<and> (\<forall>i. es_step ser bq (f i) (f (Suc i)))"
  then obtain f where f: "f 0 = p" "\<And>i. es_step ser bq (f i) (f (Suc i))" by blast
  have "es_accounts ser (f i)" for i
    by (induction i) (use f a es_accounts_step [OF _ _ assms(1)] in auto)
  with f(2) es_terminates [OF assms(1), of ser] show False
    unfolding wfp_def wf_iff_no_infinite_down_chain by blast
qed

section \<open>Examples\<close>

text \<open>One event published, then the runner closed, before the output takes anything.\<close>

lemma published_closed:
  fixes ser :: "nat \<Rightarrow> string result"
  defines "r \<equiv> tracked_runner (fifo_new 3) [] :: (nat tracked, unit) server_runner"
  shows "\<exists>p. (es_system ser tracked_queue)\<^sup>*\<^sup>* (es_init r) p \<and> \<not> runner_IsInitialized (pl_runner (ep_pipe p)) \<and>
    pl_accepted (ep_pipe p) = [7] \<and> ep_phase p = EsTaking"
proof -
  obtain r1 res where pub: "runner_Publish tracked_queue r 7 = (r1, res)" by force
  let ?s1 = "(pipeline_init r)\<lparr>pl_runner := r1, pl_accepted := accepted_events 7 res\<rparr>"
  have acc: "accepted_events 7 res = [7]" and q1: "\<exists>q. sr_queue r1 = Some q"
    using pub by (auto simp: r_def tracked_runner_def runner_Publish_def queue_Publish_def tracked_queue_def tracked_put_def
        fifo_put_def fifo_new_def accepted_events_def)
  have "client_step tracked_queue (pipeline_init r) ?s1"
    using client_step.publish [of tracked_queue "pipeline_init r" 7 r1 res] pub by (simp add: pipeline_init_def)
  then have "es_system ser tracked_queue (es_init r) ((es_init r)\<lparr>ep_pipe := ?s1\<rparr>)"
    by (intro es_system.by_client) (simp add: es_init_def)
  moreover from q1 obtain r2 q2 effs where c: "runner_Close tracked_queue r1 = (r2, Some q2, effs)" "sr_queue r2 = None"
    by (auto simp: runner_Close_def)
  have "client_step tracked_queue ?s1 (?s1\<lparr>pl_runner := r2, pl_closed := Some q2\<rparr>)"
    using c by (intro client_step.close) simp
  then have "es_system ser tracked_queue ((es_init r)\<lparr>ep_pipe := ?s1\<rparr>)
      ((es_init r)\<lparr>ep_pipe := ?s1\<lparr>pl_runner := r2, pl_closed := Some q2\<rparr>\<rparr>)"
    using es_system.by_client [of tracked_queue "(es_init r)\<lparr>ep_pipe := ?s1\<rparr>"] by simp
  ultimately have "(es_system ser tracked_queue)\<^sup>*\<^sup>* (es_init r)
      ((es_init r)\<lparr>ep_pipe := ?s1\<lparr>pl_runner := r2, pl_closed := Some q2\<rparr>\<rparr>)"
    by (meson converse_rtranclp_into_rtranclp r_into_rtranclp)
  then show ?thesis using c acc by (intro exI conjI) (auto simp: runner_IsInitialized_def es_init_def)
qed

text \<open>One event published, taken, handed to the indexer and answered by it.\<close>

lemma taken_one_es:
  fixes e :: 'e
  shows "(es_system ser tracked_queue)\<^sup>*\<^sup>* (es_init (tracked_runner (fifo_new 3) []))
    \<lparr>ep_pipe = taken_one e, ep_phase = EsAdding [e], ep_pending = [0], ep_wg = 2\<rparr>"
proof -
  let ?f = "\<lambda>es. \<lparr>fifo_pending = es, fifo_newest = 1, fifo_cap = 3, fifo_closed = False\<rparr>"
  let ?q = "\<lambda>es l. \<lparr>queue_cfg = queue_DefaultConfig, eventQueue = (?f es, l)\<rparr>"
  let ?p0 = "es_init (tracked_runner (fifo_new 3) []) :: ('e tracked, unit, 'e) es_process"
  let ?s0 = "pipeline_init (tracked_runner (fifo_new 3) []) :: ('e tracked, unit, 'e) pipeline"
  let ?w = "\<lparr>wb_batch = \<lparr>batch_id = 1, batch_entries = [Some e]\<rparr>, doneCount = 0, CompletionCallback = (None :: unit option)\<rparr>"
  let ?s1 = "?s0\<lparr>pl_runner := tracked_runner (?f [e]) [], pl_accepted := pl_accepted ?s0 @ accepted_events e (Inr 1)\<rparr>"
  let ?p1 = "?p0\<lparr>ep_pipe := ?s1\<rparr>"
  note defs = pipeline_init_def tracked_runner_def NewOutputServer_def fifo_new_def runner_Publish_def
    queue_Publish_def tracked_queue_def tracked_put_def tracked_get_def fifo_put_def out_queue_def set_out_queue_def
    queue_Get_def fifo_get_def taken_one_def es_init_def
  have "client_step tracked_queue ?s0 ?s1" by (rule client_step.publish) (simp add: defs)
  then have "es_system ser tracked_queue ?p0 ?p1" by (intro es_system.by_client) (simp add: es_init_def)
  moreover have "es_step ser tracked_queue ?p1 (?p1\<lparr>ep_pipe := (set_out_queue (ep_pipe ?p1) (?q [] [(1, 1, False)]))\<lparr>
        pl_inflight := pl_inflight (ep_pipe ?p1) @ [?w], pl_batches := pl_batches (ep_pipe ?p1) @ [?w]\<rparr>,
      ep_phase := EsAdding (map the (WrappedBatch_Events ?w)), ep_pending := ep_pending ?p1 @ [0], ep_wg := ep_wg ?p1 + 1\<rparr>)"
    by (rule es_step.take [where q = "?q [e] []"]) (simp_all add: defs Let_def)
  moreover have "?p1\<lparr>ep_pipe := (set_out_queue (ep_pipe ?p1) (?q [] [(1, 1, False)]))\<lparr>
        pl_inflight := pl_inflight (ep_pipe ?p1) @ [?w], pl_batches := pl_batches (ep_pipe ?p1) @ [?w]\<rparr>,
      ep_phase := EsAdding (map the (WrappedBatch_Events ?w)), ep_pending := ep_pending ?p1 @ [0], ep_wg := ep_wg ?p1 + 1\<rparr> =
      \<lparr>ep_pipe = taken_one e, ep_phase = EsAdding [e], ep_pending = [0], ep_wg = 2\<rparr>"
    by (simp add: defs accepted_events_def Let_def WrappedBatch_Events_entries)
  ultimately show ?thesis
    by (metis (no_types, lifting) es_system.by_output converse_rtranclp_into_rtranclp r_into_rtranclp)
qed

lemma answered_one_es:
  assumes "ser e = Inr t"
  shows "\<exists>p. (es_system ser tracked_queue)\<^sup>*\<^sup>* (es_init (tracked_runner (fifo_new 3) [])) p \<and>
    ep_pipe p = ack_batch tracked_queue 0 [1] (taken_one e) \<and> ep_phase p = EsTaking \<and> ep_pending p = [0]"
proof -
  let ?p = "\<lambda>ph ps. \<lparr>ep_pipe = taken_one e, ep_phase = ph, ep_pending = ps, ep_wg = 2\<rparr>"
  have "es_step ser tracked_queue (?p (EsAdding [e]) [0]) (?p (EsAdding []) [1])"
    using es_step.add [of "?p (EsAdding [e]) [0]" e "[]" ser t 0 tracked_queue] assms by simp
  moreover have "es_step ser tracked_queue (?p (EsAdding []) [1]) (?p EsTaking [1])"
    using es_step.again [of "?p (EsAdding []) [1]" ser tracked_queue] by simp
  moreover have "es_step ser tracked_queue (?p EsTaking [1]) (es_done tracked_queue 0 (?p EsTaking [0]))"
    using es_step.callback [of 0 "?p EsTaking [1]" 0 ser tracked_queue] by simp
  ultimately have "(es_system ser tracked_queue)\<^sup>*\<^sup>* (es_init (tracked_runner (fifo_new 3) [])) (es_done tracked_queue 0 (?p EsTaking [0]))"
    using taken_one_es [of ser e] by (meson es_system.by_output rtranclp.rtrancl_into_rtrancl)
  then show ?thesis by (intro exI conjI) (assumption, simp_all add: es_done_def)
qed

theorem es_index_catches_up_witness:
  "\<exists>p. (es_system (\<lambda>_. Inr ''{}'') tracked_queue)\<^sup>*\<^sup>* (es_init (tracked_runner (fifo_new 3) [])) p \<and> es_quiet p \<and>
     taken (ep_pipe p) = [7 :: nat] \<and> runner_PersistedIndex tracked_queue (pl_runner (ep_pipe p)) = Inr (word_of_nat (1 + 1)) \<and>
   (\<exists>p'. (es_step (\<lambda>_. Inr ''{}'') tracked_queue)\<^sup>*\<^sup>*
      \<lparr>ep_pipe = taken_one (7 :: nat), ep_phase = EsAdding [7], ep_pending = [0], ep_wg = 2\<rparr> p' \<and> es_quiet p' \<and> taken (ep_pipe p') = [7])"
proof -
  let ?ser = "\<lambda>_ :: nat. Inr ''{}'' :: string result"
  let ?q = "\<lparr>queue_cfg = queue_DefaultConfig, eventQueue = (fifo_new 3, [])\<rparr> :: nat tracked queue"
  let ?r = "tracked_runner (fifo_new 3) [] :: (nat tracked, unit) server_runner"
  have q: "sr_queue ?r = Some ?q" "(fifo_pending \<circ> fst) (eventQueue ?q) = []" "snd (eventQueue ?q) = []" "\<not> useDiskQueue (queue_cfg ?q)"
    by (simp_all add: tracked_runner_def fifo_new_def queue_DefaultConfig_def useDiskQueue_def)
  note catches_up = es_index_catches_up [OF tracked_laws tracked_release q, of ?ser]
  have taken: "taken (taken_one (7 :: nat)) = [7]" "taken (ack_batch tracked_queue 0 [1] (taken_one (7 :: nat))) = [7]"
    by (simp_all add: taken_one_def taken_def Let_def ack_batch_def out_queue_def tracked_runner_def WrappedBatch_Events_entries
        split: prod.split)
  obtain p where p: "(es_system ?ser tracked_queue)\<^sup>*\<^sup>* (es_init ?r) p" "ep_pipe p = ack_batch tracked_queue 0 [1] (taken_one 7)"
      "es_quiet p"
    using answered_one_es [of ?ser "7 :: nat"] by (auto simp: es_quiet_def)
  with catches_up [OF p(1)] acked_one_index [of "7 :: nat"] taken(2)
  have "runner_PersistedIndex tracked_queue (pl_runner (ep_pipe p)) = Inr (word_of_nat (1 + 1))" by simp
  moreover obtain p' where "(es_step ?ser tracked_queue)\<^sup>*\<^sup>*
      \<lparr>ep_pipe = taken_one (7 :: nat), ep_phase = EsAdding [7], ep_pending = [0], ep_wg = 2\<rparr> p'" "es_quiet p'" "taken (ep_pipe p') = [7]"
    using catches_up [OF taken_one_es [of ?ser 7]] taken(1) by auto
  ultimately show ?thesis using p taken(2) by (intro exI [of _ p]) auto
qed

theorem es_wait_group_exact_witness:
  "\<exists>p. (es_system (\<lambda>_. Inr ''{}'') tracked_queue)\<^sup>*\<^sup>* (es_init (tracked_runner (fifo_new 3) [])) p \<and>
     pl_accepted (ep_pipe p) = [7 :: nat] \<and> 0 \<le> ep_wg p"
proof -
  obtain p where p: "(es_system (\<lambda>_. Inr ''{}'') tracked_queue)\<^sup>*\<^sup>* (es_init (tracked_runner (fifo_new 3) [])) p"
      "pl_accepted (ep_pipe p) = [7 :: nat]"
    using published_closed [of "\<lambda>_. Inr ''{}''"] by blast
  with es_wait_group_exact [OF tracked_laws _ _ p(1)] show ?thesis by (auto simp: tracked_runner_def fifo_new_def)
qed

theorem closed_es_wait_witness:
  "\<exists>p p'. (es_system (\<lambda>_. Inl (NewError ''bad'')) tracked_queue)\<^sup>*\<^sup>* (es_init (tracked_runner (fifo_new 3) [])) p \<and>
     pl_accepted (ep_pipe p) = [7 :: nat] \<and> (es_step (\<lambda>_. Inl (NewError ''bad'')) tracked_queue)\<^sup>*\<^sup>* p p' \<and> ep_phase p' = EsEnded \<and>
     (ep_wg p' = 0 \<longleftrightarrow> taken (ep_pipe p') = [])"
proof -
  let ?ser = "\<lambda>_ :: nat. Inl (NewError ''bad'') :: string result"
  obtain p where p: "(es_system ?ser tracked_queue)\<^sup>*\<^sup>* (es_init (tracked_runner (fifo_new 3) [])) p"
      "\<not> runner_IsInitialized (pl_runner (ep_pipe p))" "pl_accepted (ep_pipe p) = [7]"
    using published_closed [of ?ser] by blast
  obtain p' where "(es_step ?ser tracked_queue)\<^sup>*\<^sup>* p p'" "ep_phase p' = EsEnded" "ep_wg p' = 0 \<longleftrightarrow> taken (ep_pipe p') = []"
    using closed_es_wait [OF tracked_laws _ _ p(1,2)] by (auto simp: tracked_runner_def fifo_new_def)
  with p show ?thesis by blast
qed

end
