(* ===== verification/Input_Handler.thy ===== *)
theory Input_Handler
  imports Grpc_Server Build_Env
begin

text \<open>
  \<^verbatim>\<open>src/grpcserver/inputhandler.go\<close> with \<^verbatim>\<open>util_unix.go\<close> and \<^verbatim>\<open>util_windows.go\<close>: starting and stopping
  the gRPC endpoint. The answers of the operating system during one \<open>Start\<close> are a record \<open>start_io\<close>.
  The start mutex is part of the state, because one of the paths returns with it locked; a call that
  has to wait for it has no result (\<open>None\<close>).
\<close>

section \<open>The handler\<close>

datatype grpc_server_state = NotServing | Serving

record input_handler =
  ih_Shipper :: "shipper_server option"
  ih_server :: "grpc_server_state option"
  ih_locked :: bool
  listenerAddress :: string

record start_io =
  io_NewV4 :: "string result"
  io_Dir :: "string \<Rightarrow> string"
  io_dir_missing :: bool
  io_MkdirAll :: "go_error option"
  io_addr_exists :: bool
  io_Remove :: "go_error option"
  io_newListener :: "go_error option"
  io_DialTestAddr :: "go_error option"

datatype handler_effect = MkdirAll string | RemoveFile string | Serve string | StopServer
  | CloseShipper | GracefulStop

definition NewGRPCServer :: input_handler where
  "NewGRPCServer = \<lparr>ih_Shipper = None, ih_server = None, ih_locked = False, listenerAddress = []\<rparr>"

text \<open>The part of \<open>Start\<close> that runs with the mutex held, for a handler that holds it.\<close>

definition listen_and_serve ::
    "start_io \<Rightarrow> input_handler \<Rightarrow> string \<Rightarrow> handler_effect list \<Rightarrow>
     input_handler \<times> handler_effect list \<times> go_error option" where
  "listen_and_serve io h addr eff =
     (case io_newListener io of
        Some err \<Rightarrow> (h\<lparr>ih_locked := False\<rparr>, eff,
                     Some (Wrapped (''failed to listen on '' @ addr @ '': '') err))
      | None \<Rightarrow>
          (case io_DialTestAddr io of
             Some err \<Rightarrow> (h\<lparr>ih_locked := False\<rparr>, eff @ [Serve addr, StopServer],
               Some (Wrapped (''failed to test connection with the gRPC server on '' @ addr @ '': '') err))
           | None \<Rightarrow> (h\<lparr>ih_locked := False, ih_server := Some Serving\<rparr>, eff @ [Serve addr], None)))"

definition remove_stale_socket ::
    "start_io \<Rightarrow> input_handler \<Rightarrow> string \<Rightarrow> handler_effect list \<Rightarrow>
     input_handler \<times> handler_effect list \<times> go_error option" where
  "remove_stale_socket io h addr eff =
     (if io_addr_exists io
      then (case io_Remove io of
              Some err \<Rightarrow> (h, eff @ [RemoveFile addr],
                           Some (Wrapped (''error removing unix socket '' @ addr @ '': '') err))
            | None \<Rightarrow> listen_and_serve io h addr (eff @ [RemoveFile addr]))
      else listen_and_serve io h addr eff)"

definition start_locked ::
    "start_io \<Rightarrow> input_handler \<Rightarrow> string \<Rightarrow> input_handler \<times> handler_effect list \<times> go_error option" where
  "start_locked io h addr =
     (let dir = io_Dir io addr in
      if io_dir_missing io
      then (case io_MkdirAll io of
              Some err \<Rightarrow> (h\<lparr>ih_locked := False\<rparr>, [MkdirAll dir],
                Some (Wrapped (''could not create directory for unix socket '' @ dir @ '': '') err))
            | None \<Rightarrow> remove_stale_socket io h addr [MkdirAll dir])
      else remove_stale_socket io h addr [])"

definition handler_Start ::
    "start_io \<Rightarrow> input_handler \<Rightarrow> string \<Rightarrow> (input_handler \<times> handler_effect list \<times> go_error option) option" where
  "handler_Start io h endpoint =
     (if ih_server h \<noteq> None then Some (h, [], None)
      else
        let listenAddr = strings_TrimPrefix endpoint ''unix://'';
            h = h\<lparr>listenerAddress := listenAddr, ih_server := Some NotServing\<rparr>
        in case NewShipperServer (io_NewV4 io) of
             Inl err \<Rightarrow> Some (h\<lparr>ih_Shipper := None\<rparr>, [], Some (Wrapped ''could not initialize gRPC: '' err))
           | Inr shipper \<Rightarrow>
               if ih_locked h then None
               else Some (start_locked io (h\<lparr>ih_Shipper := Some shipper, ih_locked := True\<rparr>) listenAddr))"

definition InitHasFailed :: "input_handler \<Rightarrow> string \<Rightarrow> input_handler" where
  "InitHasFailed h e = h\<lparr>ih_Shipper := map_option (\<lambda>s. SetInitError s e) (ih_Shipper h)\<rparr>"

text \<open>\<open>Stop\<close>; \<open>None\<close> when it waits forever for the mutex. Otherwise this is its result when \<open>GracefulStop\<close> returns, that is when
  the calls in progress end; in \<open>Controller\<close> a \<open>GracefulStop\<close> that does not return blocks the caller.\<close>

definition handler_Stop :: "input_handler \<Rightarrow> (input_handler \<times> handler_effect list) option" where
  "handler_Stop h =
     (if ih_locked h then None
      else Some (h\<lparr>ih_Shipper := None, ih_server := None\<rparr>,
                 (case ih_Shipper h of None \<Rightarrow> [] | Some _ \<Rightarrow> [CloseShipper]) @
                 (case ih_server h of None \<Rightarrow> [] | Some _ \<Rightarrow> [GracefulStop]) @
                 [RemoveFile (listenerAddress h)]))"

section \<open>The pipe's security descriptor\<close>

definition NTAUTHORITY_SYSTEM :: string where "NTAUTHORITY_SYSTEM = ''S-1-5-18''"
definition ADMINISTRATORS_GROUP :: string where "ADMINISTRATORS_GROUP = ''S-1-5-32-544''"

definition strings_EqualFold :: "string \<Rightarrow> string \<Rightarrow> bool" where
  "strings_EqualFold s t \<longleftrightarrow> strings_ToLower s = strings_ToLower t"

definition equalsSystemGroup :: "string \<Rightarrow> bool" where
  "equalsSystemGroup s \<longleftrightarrow> strings_EqualFold s NTAUTHORITY_SYSTEM \<or> strings_EqualFold s ADMINISTRATORS_GROUP"

record os_user =
  usr_Username :: string
  usr_Uid :: string
  usr_Gid :: string
  usr_GroupIds :: "(string list) result"

definition isWindowsAdmin :: "os_user \<Rightarrow> bool result" where
  "isWindowsAdmin u =
     (if usr_Username u = ''NT AUTHORITY'' @ [CHR 0x5C] @ ''SYSTEM'' then Inr True
      else if equalsSystemGroup (usr_Uid u) \<or> equalsSystemGroup (usr_Gid u) then Inr True
      else case usr_GroupIds u of
             Inl err \<Rightarrow> Inl (Wrapped ''failed to get current user groups: '' err)
           | Inr groups \<Rightarrow> Inr (list_ex equalsSystemGroup groups))"

definition securityDescriptor :: "os_user result \<Rightarrow> string result" where
  "securityDescriptor current =
     (case current of
        Inl err \<Rightarrow> Inl (Wrapped ''failed to get current user: '' err)
      | Inr u \<Rightarrow>
          (let descriptor = ''D:P(A;;GA;;;'' @ usr_Uid u @ '')''
           in case isWindowsAdmin u of
                Inl err \<Rightarrow> Inr descriptor
              | Inr isAdmin \<Rightarrow>
                  Inr (if isAdmin then descriptor @ ''(A;;GA;;;'' @ ADMINISTRATORS_GROUP @ '')''
                       else descriptor)))"

text \<open>\<open>newListener\<close> on either system, for the call of the library that opens the socket or the pipe: the
  listener, or the error that \<open>Start\<close> sees as \<open>io_newListener\<close>.\<close>

definition newListener_unix :: "(string \<Rightarrow> string \<Rightarrow> 'l result) \<Rightarrow> string \<Rightarrow> 'l result" where
  "newListener_unix net_Listen addr = net_Listen ''unix'' addr"

definition newListener_windows ::
    "os_user result \<Rightarrow> (string \<Rightarrow> string \<Rightarrow> 'l result) \<Rightarrow> string \<Rightarrow> 'l result" where
  "newListener_windows current npipe_NewListener addr =
     (case securityDescriptor current of
        Inl err \<Rightarrow> Inl err
      | Inr sd \<Rightarrow> npipe_NewListener addr sd)"

section \<open>Test connections\<close>

text \<open>\<^verbatim>\<open>src/tools\<close>: the connection \<open>Start\<close> makes to see whether the server answers (\<open>io_DialTestAddr\<close> is its error),
  and the addresses of endpoints for tests, for the escaping of paths in URLs and the hexadecimal digest.\<close>

definition DialTestAddr_unix :: "(string \<Rightarrow> string \<Rightarrow> 'conn result) \<Rightarrow> string \<Rightarrow> 'conn result" where
  "DialTestAddr_unix net_Dial addr = net_Dial ''unix'' (strings_TrimPrefix addr ''unix://'')"

definition GenerateTestAddr_unix :: "(string \<Rightarrow> string) \<Rightarrow> string \<Rightarrow> string" where
  "GenerateTestAddr_unix escape path = ''unix'' @ ''://'' @ escape (filepath_Join [path, ''grpc.sock''])"

definition DialTestAddr_windows :: "(string \<Rightarrow> 'conn result) \<Rightarrow> string \<Rightarrow> 'conn result" where
  "DialTestAddr_windows winio_DialPipe addr = winio_DialPipe addr"

definition GenerateTestAddr_windows :: "(string \<Rightarrow> string) \<Rightarrow> string \<Rightarrow> string" where
  "GenerateTestAddr_windows sha256_hex path =
     [CHR 0x5C, CHR 0x5C] @ ''.'' @ [CHR 0x5C] @ ''pipe'' @ [CHR 0x5C] @ ''shipper-'' @ sha256_hex path @ ''-pipe''"

text \<open>\<^verbatim>\<open>src/integration\<close>: how the integration tests connect to the endpoint: without transport security, and on
  Windows with a dialer for the named pipe, which gets the address and no network.\<close>

datatype 'dialer dial_option = WithInsecureCredentials | WithContextDialer 'dialer

definition npipeDialer ::
    "(string \<Rightarrow> 'ctx \<Rightarrow> string \<Rightarrow> string \<Rightarrow> 'conn result) \<Rightarrow> 'ctx \<Rightarrow> string \<Rightarrow> 'conn result" where
  "npipeDialer npipe_DialContext ctx addr = npipe_DialContext addr ctx [] []"

definition getDialOptions_unix :: "('dialer dial_option) list" where
  "getDialOptions_unix = [WithInsecureCredentials]"

definition getDialOptions_windows ::
    "(string \<Rightarrow> 'ctx \<Rightarrow> string \<Rightarrow> string \<Rightarrow> 'conn result) \<Rightarrow> (('ctx \<Rightarrow> string \<Rightarrow> 'conn result) dial_option) list" where
  "getDialOptions_windows npipe_DialContext =
     [WithInsecureCredentials, WithContextDialer (npipeDialer npipe_DialContext)]"

text \<open>\<open>Start\<close> listens on the very path at which it then dials, and which a generated address names.\<close>

lemma dial_listens_same:
  "DialTestAddr_unix dial (GenerateTestAddr_unix escape path) = dial ''unix'' (escape (filepath_Join [path, ''grpc.sock'']))"
  "strings_TrimPrefix (GenerateTestAddr_unix escape path) ''unix://'' = escape (filepath_Join [path, ''grpc.sock''])"
  by (simp_all add: DialTestAddr_unix_def GenerateTestAddr_unix_def strings_TrimPrefix_def)

section \<open>Properties\<close>

lemmas start_defs = start_locked_def remove_stale_socket_def listen_and_serve_def Let_def

lemma start_locked_result:
  assumes "start_locked io h addr = (h', eff, err)"
  shows "h' = h\<lparr>ih_locked := ih_locked h', ih_server := ih_server h'\<rparr> \<and>
    (err = None \<longrightarrow> ih_server h' = Some Serving \<and> \<not> ih_locked h' \<and> eff \<noteq> [] \<and> last eff = Serve addr) \<and>
    (err \<noteq> None \<longrightarrow> ih_server h' = ih_server h) \<and>
    (ih_locked h' \<longleftrightarrow> ih_locked h \<and> (io_dir_missing io \<longrightarrow> io_MkdirAll io = None) \<and>
       io_addr_exists io \<and> io_Remove io \<noteq> None)"
proof -
  consider (mkdir) "io_dir_missing io" "io_MkdirAll io \<noteq> None"
    | (remove) "\<not> (io_dir_missing io \<and> io_MkdirAll io \<noteq> None)" "io_addr_exists io" "io_Remove io \<noteq> None"
    | (listen) eff0 where "\<not> (io_dir_missing io \<and> io_MkdirAll io \<noteq> None)"
        "\<not> (io_addr_exists io \<and> io_Remove io \<noteq> None)"
        "start_locked io h addr = listen_and_serve io h addr eff0"
    by (cases "io_MkdirAll io"; cases "io_Remove io"; cases "io_dir_missing io"; cases "io_addr_exists io")
      (simp_all add: start_locked_def remove_stale_socket_def)
  then show ?thesis
  proof cases
    case mkdir
    with assms show ?thesis by (auto simp: start_defs)
  next
    case remove
    with assms show ?thesis by (auto simp: start_defs split: if_splits)
  next
    case listen
    with assms show ?thesis
      by (cases "io_newListener io"; cases "io_DialTestAddr io") (auto simp: listen_and_serve_def)
  qed
qed

lemma start_locked_shipper:
  "start_locked io h addr = (h', eff, err) \<Longrightarrow>
   ih_Shipper h' = ih_Shipper h \<and> listenerAddress h' = listenerAddress h"
  using start_locked_result [of io h addr h' eff err]
  by (metis input_handler.select_convs(1,4) input_handler.surjective input_handler.update_convs(2,3))

lemma handler_Start_cases:
  assumes "handler_Start io h endpoint = Some (h', eff, err)" "ih_server h = None"
  obtains (uuid) e where "io_NewV4 io = Inl e" "err \<noteq> None" "ih_locked h' = ih_locked h"
      "ih_server h' = Some NotServing"
    | (locked) u h0 where "io_NewV4 io = Inr u" "\<not> ih_locked h" "ih_locked h0"
      "ih_server h0 = Some NotServing" "ih_Shipper h0 \<noteq> None"
      "listenerAddress h0 = strings_TrimPrefix endpoint ''unix://''"
      "start_locked io h0 (strings_TrimPrefix endpoint ''unix://'') = (h', eff, err)"
proof (cases "io_NewV4 io")
  case (Inl e)
  with assms show thesis by (intro uuid) (auto simp: handler_Start_def NewShipperServer_def Let_def)
next
  case (Inr u)
  let ?h0 = "h\<lparr>listenerAddress := strings_TrimPrefix endpoint ''unix://'', ih_server := Some NotServing,
      ih_Shipper := Some \<lparr>srv_uuid = u, srv_closed = False, srv_stopped = 0, strictMode = False,
        initErrMsg = []\<rparr>, ih_locked := True\<rparr>"
  have "\<not> ih_locked h" "start_locked io ?h0 (strings_TrimPrefix endpoint ''unix://'') = (h', eff, err)"
    using assms Inr by (auto simp: handler_Start_def NewShipperServer_def Let_def split: if_splits)
  with Inr show thesis by (intro locked [of u ?h0]) simp_all
qed

text \<open>C35: a successful \<open>Start\<close> of a stopped handler leaves the endpoint serving on the address of the
  configuration without its scheme, and the following \<open>Stop\<close> closes the service, stops the server
  gracefully and removes the socket, in this order, and leaves a handler that can be started again.\<close>

theorem handler_start_stop:
  assumes "handler_Start io h endpoint = Some (h', eff, None)" "ih_server h = None"
  shows "ih_server h' = Some Serving \<and> eff \<noteq> [] \<and> last eff = Serve (strings_TrimPrefix endpoint ''unix://'') \<and>
    (\<exists>h''. handler_Stop h' = Some (h'', [CloseShipper, GracefulStop,
        RemoveFile (strings_TrimPrefix endpoint ''unix://'')]) \<and>
      ih_server h'' = None \<and> ih_Shipper h'' = None \<and> \<not> ih_locked h'')"
proof -
  obtain u h0 where "ih_locked h0" and sh: "ih_Shipper h0 \<noteq> None"
      and addr: "listenerAddress h0 = strings_TrimPrefix endpoint ''unix://''"
      and st: "start_locked io h0 (strings_TrimPrefix endpoint ''unix://'') = (h', eff, None)"
    by (rule handler_Start_cases [OF assms]) auto
  note r = start_locked_result [OF st]
  with start_locked_shipper [OF st] sh addr show ?thesis by (auto simp: handler_Stop_def)
qed

definition good_io :: start_io where
  "good_io = \<lparr>io_NewV4 = Inr ''u'', io_Dir = \<lambda>p. ''/run'', io_dir_missing = False, io_MkdirAll = None,
     io_addr_exists = True, io_Remove = None, io_newListener = None, io_DialTestAddr = None\<rparr>"

theorem handler_start_stop_witness:
  "\<exists>h' eff. handler_Start good_io NewGRPCServer ''unix:///run/s'' = Some (h', eff, None) \<and>
     ih_server h' = Some Serving \<and> (\<exists>h''. handler_Stop h' = Some (h'', [CloseShipper, GracefulStop, RemoveFile ''/run/s'']))"
proof -
  have addr: "strings_TrimPrefix ''unix:///run/s'' ''unix://'' = ''/run/s''" by code_simp
  obtain h' eff where s: "handler_Start good_io NewGRPCServer ''unix:///run/s'' = Some (h', eff, None)"
    by (simp add: handler_Start_def NewShipperServer_def good_io_def NewGRPCServer_def start_defs)
  with handler_start_stop [OF s] addr show ?thesis by (auto simp: NewGRPCServer_def)
qed

text \<open>After a \<open>Start\<close> that failed, whatever the reason, the handler counts as started: the next
  \<open>Start\<close>, even one whose calls would all succeed, returns no error and does nothing, though
  nothing is being served.\<close>

theorem failed_start_blocks_restart:
  assumes "handler_Start io h endpoint = Some (h', eff, Some err)" "ih_server h = None"
  shows "ih_server h' = Some NotServing \<and> handler_Start io' h' endpoint' = Some (h', [], None)"
proof -
  have "ih_server h' = Some NotServing"
    by (rule handler_Start_cases [OF assms]) (auto dest: start_locked_result)
  then show ?thesis by (simp add: handler_Start_def)
qed

theorem failed_start_blocks_restart_witness:
  "\<exists>h' eff err. handler_Start (good_io\<lparr>io_newListener := Some (NewError ''in use'')\<rparr>) NewGRPCServer ''unix:///run/s'' =
      Some (h', eff, Some err) \<and> handler_Start good_io h' ''unix:///run/s'' = Some (h', [], None)"
proof -
  obtain h' eff err where s: "handler_Start (good_io\<lparr>io_newListener := Some (NewError ''in use'')\<rparr>)
      NewGRPCServer ''unix:///run/s'' = Some (h', eff, Some err)"
    by (simp add: handler_Start_def NewShipperServer_def good_io_def NewGRPCServer_def start_defs)
  with failed_start_blocks_restart [OF s, of good_io "''unix:///run/s''"] show ?thesis
    by (auto simp: NewGRPCServer_def)
qed

text \<open>C37: \<open>Stop\<close> after a \<open>Start\<close> of a fresh handler waits forever exactly when a stale socket existed and
  could not be removed: that path returns without releasing the mutex.\<close>

theorem stop_deadlocks_iff_socket_stuck:
  assumes "handler_Start io NewGRPCServer endpoint = Some (h', eff, err)"
  shows "handler_Stop h' = None \<longleftrightarrow>
    (\<exists>u. io_NewV4 io = Inr u) \<and> (io_dir_missing io \<longrightarrow> io_MkdirAll io = None) \<and>
    io_addr_exists io \<and> io_Remove io \<noteq> None"
proof (rule handler_Start_cases [OF assms])
  show "ih_server NewGRPCServer = None" by (simp add: NewGRPCServer_def)
next
  fix e
  assume "io_NewV4 io = Inl e" "ih_locked h' = ih_locked NewGRPCServer"
  then show ?thesis by (simp add: handler_Stop_def NewGRPCServer_def)
next
  fix u h0
  assume "io_NewV4 io = Inr u" "ih_locked h0"
    and "start_locked io h0 (strings_TrimPrefix endpoint ''unix://'') = (h', eff, err)"
  then show ?thesis using start_locked_result by (auto simp: handler_Stop_def)
qed

theorem stop_deadlocks_iff_socket_stuck_witness:
  "\<exists>h' eff err. handler_Start (good_io\<lparr>io_Remove := Some (NewError ''busy'')\<rparr>) NewGRPCServer ''unix:///run/s'' =
      Some (h', eff, Some err) \<and> handler_Stop h' = None"
proof -
  obtain h' eff err where s: "handler_Start (good_io\<lparr>io_Remove := Some (NewError ''busy'')\<rparr>)
      NewGRPCServer ''unix:///run/s'' = Some (h', eff, Some err)"
    by (simp add: handler_Start_def NewShipperServer_def good_io_def NewGRPCServer_def start_defs)
  with stop_deadlocks_iff_socket_stuck [OF s] show ?thesis by (auto simp: good_io_def)
qed

section \<open>The states of a handler\<close>

text \<open>The calls the controller makes: each that returns is a step.\<close>

inductive handler_step :: "input_handler \<Rightarrow> input_handler \<Rightarrow> bool" where
  start: "handler_Start io h endpoint = Some (h', eff, err) \<Longrightarrow> handler_step h h'"
| init_failed: "handler_step h (InitHasFailed h e)"
| stop: "handler_Stop h = Some (h', eff) \<Longrightarrow> handler_step h h'"

definition handler_wf :: "input_handler \<Rightarrow> bool" where
  "handler_wf h \<longleftrightarrow>
     (case ih_server h of
        None \<Rightarrow> ih_Shipper h = None \<and> \<not> ih_locked h
      | Some NotServing \<Rightarrow> ih_locked h \<longrightarrow> ih_Shipper h \<noteq> None
      | Some Serving \<Rightarrow> ih_Shipper h \<noteq> None \<and> \<not> ih_locked h)"

lemma handler_Start_wf:
  assumes "handler_wf h" "handler_Start io h endpoint = Some (h', eff, err)"
  shows "handler_wf h'"
proof (cases "ih_server h = None")
  case True
  with assms(1) have free: "\<not> ih_locked h" by (simp add: handler_wf_def)
  from assms(2) True show ?thesis
  proof (cases rule: handler_Start_cases)
    case (uuid e)
    with free show ?thesis by (simp add: handler_wf_def)
  next
    case (locked u h0)
    with start_locked_result [OF locked(7)] start_locked_shipper [OF locked(7)] show ?thesis
      by (cases err) (auto simp: handler_wf_def)
  qed
next
  case False
  with assms show ?thesis by (simp add: handler_Start_def)
qed

lemma handler_step_wf: "handler_step h h' \<Longrightarrow> handler_wf h \<Longrightarrow> handler_wf h'"
proof (induction rule: handler_step.induct)
  case (start io h endpoint h' eff err)
  then show ?case using handler_Start_wf by blast
next
  case (init_failed h e)
  then show ?case
    by (auto simp: handler_wf_def InitHasFailed_def split: option.splits grpc_server_state.splits)
next
  case (stop h h' eff)
  then show ?case by (auto simp: handler_wf_def handler_Stop_def split: if_splits)
qed

text \<open>C36: whatever the controller calls, and whatever the operating system answers, a handler that serves has
  its service and can be stopped; a handler without a server has no service either and can be started;
  and one whose mutex was left locked has a server that does not serve.\<close>

theorem handler_states_well_formed:
  assumes "handler_step\<^sup>*\<^sup>* NewGRPCServer h"
  shows "(ih_server h = Some Serving \<longrightarrow> ih_Shipper h \<noteq> None \<and> handler_Stop h \<noteq> None) \<and>
    (ih_server h = None \<longrightarrow> ih_Shipper h = None \<and> handler_Start io h endpoint \<noteq> None) \<and>
    (ih_locked h \<longrightarrow> ih_server h = Some NotServing \<and> ih_Shipper h \<noteq> None)"
proof -
  have "handler_wf h"
    using assms
    by (induction rule: rtranclp_induct) (auto simp: handler_step_wf, simp add: handler_wf_def NewGRPCServer_def)
  then show ?thesis
    by (auto simp: handler_wf_def handler_Stop_def handler_Start_def Let_def
        split: option.splits grpc_server_state.splits sum.splits) (metis prod_cases3)
qed

theorem handler_states_well_formed_witness:
  "\<exists>h. handler_step\<^sup>*\<^sup>* NewGRPCServer h \<and> ih_server h = Some Serving \<and> ih_Shipper h \<noteq> None \<and>
     handler_Stop h \<noteq> None"
proof -
  obtain h eff where s: "handler_Start good_io NewGRPCServer ''unix:///run/s'' = Some (h, eff, None)"
      and serving: "ih_server h = Some Serving"
    by (simp add: handler_Start_def NewShipperServer_def good_io_def NewGRPCServer_def start_defs)
  from s have r: "handler_step\<^sup>*\<^sup>* NewGRPCServer h" by (blast intro: handler_step.start)
  with handler_states_well_formed [OF r] serving show ?thesis by blast
qed

end
