(* ===== verification/Unit_Map.thy ===== *)
theory Unit_Map
  imports Shipper_Prelude "HOL-Library.AList"
begin

text \<open>
  \<^verbatim>\<open>src/controller/units.go\<close>: the map of the agent's units. Every operation holds the map's mutex, and
  is one step. The Go map of input units is an association list with distinct keys; the unit object
  itself is shared with the agent's client and is represented by its id, while the configuration the
  map saved is a value \<open>'src\<close>. The locale \<open>unit_store\<close> is what the controller needs of the map.
\<close>

datatype unit_type = UnitTypeInput | UnitTypeOutput

datatype unit_state = Starting | Configuring | Healthy | Degraded | Failed | Stopping | Stopped

text \<open>A unit, with what its \<open>Expected\<close> method returns.\<close>

record ('src, 'lvl) agent_unit =
  u_ID :: string
  u_Type :: unit_type
  u_State :: unit_state
  u_LogLevel :: 'lvl
  u_Source :: 'src

record 'src shipper_unit =
  su_Unit :: "string option"
  su_config :: "'src option"

record 'src unit_map =
  inputUnits :: "(string \<times> 'src shipper_unit) list"
  outputUnit :: "'src shipper_unit"

definition empty_unit :: "'src shipper_unit" where
  "empty_unit = \<lparr>su_Unit = None, su_config = None\<rparr>"

definition NewUnitMap :: "'src unit_map" where
  "NewUnitMap = \<lparr>inputUnits = [], outputUnit = empty_unit\<rparr>"

definition AddUnit :: "'src unit_map \<Rightarrow> ('src, 'lvl) agent_unit \<Rightarrow> 'src unit_map" where
  "AddUnit c u =
     (let su = \<lparr>su_Unit = Some (u_ID u), su_config = Some (u_Source u)\<rparr> in
      if u_Type u = UnitTypeOutput then c\<lparr>outputUnit := su\<rparr>
      else c\<lparr>inputUnits := AList.update (u_ID u) su (inputUnits c)\<rparr>)"

definition UpdateUnit :: "'src unit_map \<Rightarrow> ('src, 'lvl) agent_unit \<Rightarrow> 'src unit_map" where
  "UpdateUnit c u =
     (if u_Type u = UnitTypeInput
      then (case map_of (inputUnits c) (u_ID u) of
              None \<Rightarrow> c
            | Some current \<Rightarrow>
                c\<lparr>inputUnits := AList.update (u_ID u) (current\<lparr>su_config := Some (u_Source u)\<rparr>) (inputUnits c)\<rparr>)
      else c\<lparr>outputUnit := (outputUnit c)\<lparr>su_config := Some (u_Source u)\<rparr>\<rparr>)"

definition AvailableUnitCount :: "'src unit_map \<Rightarrow> nat" where
  "AvailableUnitCount c = length (inputUnits c)"

definition DeleteUnit :: "'src unit_map \<Rightarrow> ('src, 'lvl) agent_unit \<Rightarrow> 'src unit_map" where
  "DeleteUnit c u =
     (if u_Type u = UnitTypeOutput then c\<lparr>outputUnit := empty_unit\<rparr>
      else c\<lparr>inputUnits := AList.delete (u_ID u) (inputUnits c)\<rparr>)"

definition GetUnit :: "'src unit_map \<Rightarrow> string \<Rightarrow> unit_type \<Rightarrow> 'src shipper_unit" where
  "GetUnit c i t =
     (if t = UnitTypeOutput then outputUnit c
      else case map_of (inputUnits c) i of None \<Rightarrow> empty_unit | Some current \<Rightarrow> current)"

definition GetOutput :: "'src unit_map \<Rightarrow> string option" where
  "GetOutput c = su_Unit (outputUnit c)"

text \<open>The change events of the agent's client, and their effect on the map.\<close>

datatype unit_change = UnitChangedAdded | UnitChangedModified | UnitChangedRemoved

definition apply_change :: "'src unit_map \<Rightarrow> unit_change \<times> ('src, 'lvl) agent_unit \<Rightarrow> 'src unit_map" where
  "apply_change c ku =
     (case ku of (k, u) \<Rightarrow>
        (case k of UnitChangedAdded \<Rightarrow> AddUnit c u | UnitChangedModified \<Rightarrow> UpdateUnit c u
         | UnitChangedRemoved \<Rightarrow> DeleteUnit c u))"

section \<open>The contract\<close>

text \<open>The set of input units that are live after a change.\<close>

definition live_step :: "string set \<Rightarrow> unit_change \<times> ('src, 'lvl) agent_unit \<Rightarrow> string set" where
  "live_step ids ku =
     (case ku of (k, u) \<Rightarrow>
        if u_Type u \<noteq> UnitTypeInput then ids
        else case k of UnitChangedAdded \<Rightarrow> insert (u_ID u) ids | UnitChangedModified \<Rightarrow> ids
          | UnitChangedRemoved \<Rightarrow> ids - {u_ID u})"

text \<open>What the controller relies on: a view of the saved configurations, the inputs that are known,
  and that counting tells whether any input is left.\<close>

locale unit_store =
  fixes add :: "'m \<Rightarrow> ('src, 'lvl) agent_unit \<Rightarrow> 'm"
    and update :: "'m \<Rightarrow> ('src, 'lvl) agent_unit \<Rightarrow> 'm"
    and remove :: "'m \<Rightarrow> ('src, 'lvl) agent_unit \<Rightarrow> 'm"
    and saved :: "'m \<Rightarrow> string \<Rightarrow> unit_type \<Rightarrow> 'src option"
    and count :: "'m \<Rightarrow> nat"
    and inputs :: "'m \<Rightarrow> string set"
    and wf :: "'m \<Rightarrow> bool"
    and empty :: 'm
  assumes wf_empty: "wf empty"
    and inputs_empty: "inputs empty = {}"
    and add_wf: "wf m \<Longrightarrow> wf (add m u)"
    and update_wf: "wf m \<Longrightarrow> wf (update m u)"
    and remove_wf: "wf m \<Longrightarrow> wf (remove m u)"
    and inputs_add: "inputs (add m u) = (if u_Type u = UnitTypeInput then insert (u_ID u) (inputs m) else inputs m)"
    and inputs_update: "inputs (update m u) = inputs m"
    and inputs_remove: "inputs (remove m u) = (if u_Type u = UnitTypeInput then inputs m - {u_ID u} else inputs m)"
    and count_inputs: "wf m \<Longrightarrow> count m = card (inputs m)"
    and finite_inputs: "finite (inputs m)"
    and saved_add: "saved (add m u) (u_ID u) (u_Type u) = Some (u_Source u)"
begin

lemma change_inputs:
  "inputs (case k of UnitChangedAdded \<Rightarrow> add m u | UnitChangedModified \<Rightarrow> update m u
      | UnitChangedRemoved \<Rightarrow> remove m u) = live_step (inputs m) (k, u)"
  by (cases k) (simp_all add: live_step_def inputs_add inputs_update inputs_remove)

lemma changes_inputs:
  assumes "wf m"
    and "\<And>m k u. step m (k, u) = (case k of UnitChangedAdded \<Rightarrow> add m u
        | UnitChangedModified \<Rightarrow> update m u | UnitChangedRemoved \<Rightarrow> remove m u)"
  shows "wf (foldl step m cs) \<and> inputs (foldl step m cs) = foldl live_step (inputs m) cs"
  using assms(1)
proof (induction cs arbitrary: m)
  case (Cons c cs)
  obtain k u where c: "c = (k, u)" by force
  have "wf (step m (k, u))"
    using Cons.prems by (cases k) (simp_all add: assms(2) add_wf update_wf remove_wf)
  moreover have "inputs (step m (k, u)) = live_step (inputs m) (k, u)"
    by (simp only: assms(2) change_inputs)
  ultimately show ?case using Cons.IH [of "step m (k, u)"] by (simp add: c)
qed simp

lemma count_zero: "wf m \<Longrightarrow> count m = 0 \<longleftrightarrow> inputs m = {}"
  using count_inputs finite_inputs by simp

end

definition unit_map_wf :: "'src unit_map \<Rightarrow> bool" where
  "unit_map_wf c \<longleftrightarrow> distinct (map fst (inputUnits c))"

definition input_ids :: "'src unit_map \<Rightarrow> string set" where
  "input_ids c = fst ` set (inputUnits c)"

definition saved_config :: "'src unit_map \<Rightarrow> string \<Rightarrow> unit_type \<Rightarrow> 'src option" where
  "saved_config c i t = su_config (GetUnit c i t)"

interpretation units: unit_store AddUnit UpdateUnit DeleteUnit saved_config AvailableUnitCount
    input_ids unit_map_wf NewUnitMap
proof
  show "input_ids (UpdateUnit m u) = input_ids m"
    for m :: "'src unit_map" and u :: "('src, 'lvl) agent_unit"
    by (auto simp: UpdateUnit_def input_ids_def dom_update dest: map_of_SomeD split: option.splits)
      (metis fst_conv image_eqI map_of_SomeD)+
  show "input_ids (AddUnit m u) =
      (if u_Type u = UnitTypeInput then insert (u_ID u) (input_ids m) else input_ids m)"
    for m :: "'src unit_map" and u :: "('src, 'lvl) agent_unit"
    by (cases "u_Type u") (auto simp: AddUnit_def input_ids_def dom_update Let_def)
  show "input_ids (DeleteUnit m u) =
      (if u_Type u = UnitTypeInput then input_ids m - {u_ID u} else input_ids m)"
    for m :: "'src unit_map" and u :: "('src, 'lvl) agent_unit"
    by (cases "u_Type u") (auto simp: DeleteUnit_def input_ids_def AList.delete_eq)
  show "AvailableUnitCount m = card (input_ids m)" if "unit_map_wf m" for m :: "'src unit_map"
    using that distinct_card [of "map fst (inputUnits m)"]
    by (simp add: unit_map_wf_def AvailableUnitCount_def input_ids_def)
qed (auto simp: unit_map_wf_def input_ids_def NewUnitMap_def AddUnit_def UpdateUnit_def DeleteUnit_def
    saved_config_def GetUnit_def Let_def dom_update update_conv' distinct_update distinct_delete
    split: option.splits unit_type.splits if_splits)

text \<open>The configurations the map is to remember, as a function of the unit's key: its id for an input, and one
  key for all outputs. An update of an input that is not known is ignored.\<close>

definition unit_key :: "string \<Rightarrow> unit_type \<Rightarrow> string option" where
  "unit_key i t = (if t = UnitTypeOutput then None else Some i)"

definition config_step :: "(string option \<rightharpoonup> 'src) \<Rightarrow> unit_change \<times> ('src, 'lvl) agent_unit \<Rightarrow> (string option \<rightharpoonup> 'src)" where
  "config_step m ku =
     (case ku of (k, u) \<Rightarrow>
        let i = unit_key (u_ID u) (u_Type u) in
        case k of
          UnitChangedAdded \<Rightarrow> m(i \<mapsto> u_Source u)
        | UnitChangedModified \<Rightarrow> if u_Type u = UnitTypeInput \<and> m i = None then m else m(i \<mapsto> u_Source u)
        | UnitChangedRemoved \<Rightarrow> m(i := None))"

text \<open>The abstraction: what is saved under each key.\<close>

definition saved_configs :: "'src unit_map \<Rightarrow> (string option \<rightharpoonup> 'src)" where
  "saved_configs c i =
     (case i of None \<Rightarrow> su_config (outputUnit c)
      | Some j \<Rightarrow> (case map_of (inputUnits c) j of None \<Rightarrow> None | Some su \<Rightarrow> su_config su))"

definition inputs_configured :: "'src unit_map \<Rightarrow> bool" where
  "inputs_configured c \<longleftrightarrow> (\<forall>j su. map_of (inputUnits c) j = Some su \<longrightarrow> su_config su \<noteq> None)"

lemma saved_config_key: "saved_config c i t = saved_configs c (unit_key i t)"
  by (auto simp: saved_config_def saved_configs_def GetUnit_def unit_key_def empty_unit_def split: option.split)

lemma apply_change_saved:
  assumes "inputs_configured c"
  shows "inputs_configured (apply_change c ku) \<and> saved_configs (apply_change c ku) = config_step (saved_configs c) ku"
proof -
  obtain k u where ku: "ku = (k, u)" by force
  show ?thesis
  proof (cases "u_Type u")
    case UnitTypeInput
    have "inputs_configured (apply_change c ku)"
      using assms ku UnitTypeInput
      by (cases k) (auto simp: apply_change_def AddUnit_def UpdateUnit_def DeleteUnit_def inputs_configured_def Let_def
          update_conv' delete_conv' split: option.splits if_splits)
    moreover have "saved_configs (apply_change c ku) i = config_step (saved_configs c) ku i" for i
      using assms ku UnitTypeInput
      by (cases k; cases i) (auto simp: apply_change_def AddUnit_def UpdateUnit_def DeleteUnit_def inputs_configured_def
          saved_configs_def config_step_def unit_key_def Let_def update_conv' delete_conv' split: option.splits)
    ultimately show ?thesis by auto
  next
    case UnitTypeOutput
    with assms ku show ?thesis
      by (cases k) (auto simp: apply_change_def AddUnit_def UpdateUnit_def DeleteUnit_def inputs_configured_def
          saved_configs_def config_step_def unit_key_def empty_unit_def Let_def fun_eq_iff split: option.splits)
  qed
qed

text \<open>C25: looking up a unit gives back what was stored last: after any sequence of unit changes \<open>GetUnit\<close>
  returns what a map of configurations holds that each change steps. For an input unit, by its id, this
  is the configuration of its last addition, or of the last update after it, and none if it was never
  added or was removed since; an update without an addition is ignored. All output units share one
  entry: it is the configuration of the last addition or update of any output, added before or not, and none after the removal of any
  output.\<close>

theorem lookup_returns_last_saved:
  fixes cs :: "(unit_change \<times> ('src, 'lvl) agent_unit) list"
  shows "su_config (GetUnit (foldl apply_change NewUnitMap cs) i t) = foldl config_step Map.empty cs (unit_key i t)"
proof -
  have "inputs_configured (foldl apply_change c cs) \<and>
      saved_configs (foldl apply_change c cs) = foldl config_step (saved_configs c) cs"
    if "inputs_configured c" for c :: "'src unit_map" and cs :: "(unit_change \<times> ('src, 'lvl) agent_unit) list"
    using that
  proof (induction cs arbitrary: c)
    case (Cons ku cs)
    then show ?case using apply_change_saved [of c ku] by simp
  qed simp
  from this [of NewUnitMap cs] have "saved_configs (foldl apply_change NewUnitMap cs) =
      foldl config_step (saved_configs NewUnitMap) cs" by (simp add: inputs_configured_def NewUnitMap_def)
  moreover have "saved_configs (NewUnitMap :: 'src unit_map) = Map.empty"
    by (auto simp: saved_configs_def NewUnitMap_def empty_unit_def split: option.split)
  ultimately show ?thesis using saved_config_key [of "foldl apply_change NewUnitMap cs" i t]
    by (simp add: saved_config_def)
qed

text \<open>After any sequence of unit changes the map's count is the number of input units that were
  added and not removed since; a unit added twice counts once, an update of an unknown unit and all
  changes of output units do not change the count.\<close>

theorem unit_count_is_live_inputs:
  "AvailableUnitCount (foldl apply_change NewUnitMap cs) = card (foldl live_step {} cs)"
proof -
  let ?m = "foldl apply_change NewUnitMap cs"
  have "unit_map_wf ?m \<and> input_ids ?m = foldl live_step {} cs"
    using units.changes_inputs [OF units.wf_empty, of apply_change cs]
    by (simp add: apply_change_def units.inputs_empty)
  then show ?thesis using units.count_inputs [of ?m] by simp
qed

end
