(* ===== verification/Controller.thy ===== *)
theory Controller
  imports Publisher_Server Input_Handler Unit_Map ES_Watcher
begin

text \<open>
  \<^verbatim>\<open>src/controller\<close>: the controller of managed mode (\<^verbatim>\<open>controller_client.go\<close>, \<^verbatim>\<open>helpers.go\<close>, \<^verbatim>\<open>run.go\<close>)
  handles the unit changes the agent sends, one after the other, and drives the runner and the gRPC
  endpoint; \<^verbatim>\<open>run.go\<close> also has the unmanaged mode. A handler's result is its new state with the
  effects in order, or that it waits forever (\<open>Blocked\<close>), for the endpoint's mutex, for the runner's \<open>Close\<close> or for the
  endpoint's \<open>GracefulStop\<close>, or that it panics.
  Units are assumed to carry a configuration. The operating system's answers to a start of the
  endpoint come with each change.
\<close>

datatype 'a handled = Handled 'a | Blocked | Crashed string

record ('q, 'x, 'src) controller =
  ct_units :: "'src unit_map"
  ct_grpc :: input_handler
  ct_runner :: "('q, 'x) server_runner"
  ct_level :: zap_level

text \<open>Beside the libraries, whether what other goroutines do lets two calls return: \<open>Close\<close> of a runner waits for the
  queue's mutex, which a publishing client may hold, and then for the output; \<open>GracefulStop\<close> of the endpoint's server waits for
  the calls in progress. \<open>Runner_Lock\<close>, \<open>Output_Process\<close> and \<open>ES_Process\<close> say when the waits of \<open>Close\<close> end.\<close>

record ('q, 'e, 'x, 'src, 'raw) controller_env =
  env_bq :: "('q, 'e) beats_queue"
  env_runner :: "('q, 'x) runner_lib"
  env_config :: "('src, 'raw, 'x) config_lib"
  env_Close_returns :: "('q, 'x) server_runner \<Rightarrow> bool"
  env_calls_end :: "input_handler \<Rightarrow> bool"

type_synonym 'src ctl_unit = "('src, unit_log_level) agent_unit"

text \<open>What the handlers do that can be seen from outside. A start of the runner is recorded with whether it has a queue
  then, a close with what it did.\<close>

datatype 'x ctl_effect = UpdateState string unit_state string | RegisterHook string string
  | RunnerStarted bool | RunnerClosed "'x close_effect list" | GrpcEffects "handler_effect list"

type_synonym ('q, 'x, 'src) ctl_result = "(('q, 'x, 'src) controller \<times> 'x ctl_effect list) handled"

definition newClientHandler :: "zap_level \<Rightarrow> ('q, 'x, 'src) controller" where
  "newClientHandler lvl = \<lparr>ct_units = NewUnitMap, ct_grpc = NewGRPCServer, ct_runner = NewOutputServer,
     ct_level = lvl\<rparr>"

text \<open>Effects of one handler step before those of the next.\<close>

fun after :: "'x ctl_effect list \<Rightarrow> ('q, 'x, 'src) ctl_result \<Rightarrow> ('q, 'x, 'src) ctl_result" where
  "after eff (Handled (c, eff')) = Handled (c, eff @ eff')"
| "after eff Blocked = Blocked"
| "after eff (Crashed e) = Crashed e"

fun andThen ::
    "('q, 'x, 'src) ctl_result \<Rightarrow> (('q, 'x, 'src) controller \<Rightarrow> ('q, 'x, 'src) ctl_result) \<Rightarrow> ('q, 'x, 'src) ctl_result" where
  "andThen (Handled (c, eff)) next_step = after eff (next_step c)"
| "andThen Blocked next_step = Blocked"
| "andThen (Crashed e) next_step = Crashed e"

definition reportError :: "string \<Rightarrow> go_error \<Rightarrow> 'src ctl_unit \<Rightarrow> 'x ctl_effect list" where
  "reportError errorMsg err u = [UpdateState (u_ID u) Failed (errorMsg @ '': '' @ Error_text err)]"

definition onlyLogLevelUpdated :: "'src option \<Rightarrow> 'src option \<Rightarrow> unit_log_level \<Rightarrow> zap_level \<Rightarrow> bool" where
  "onlyLogLevelUpdated newUnit currentUnit newLog level \<longleftrightarrow>
     newUnit \<noteq> None \<and> currentUnit \<noteq> None \<and> newUnit = currentUnit \<and> ZapFromUnitLogLevel newLog \<noteq> level"

section \<open>The output\<close>

definition stopShipper ::
    "('q, 'e, 'x, 'src, 'raw) controller_env \<Rightarrow> ('q, 'x, 'src) controller \<Rightarrow> ('q, 'x, 'src) ctl_result" where
  "stopShipper env c =
     (if env_Close_returns env (ct_runner c)
      then (case runner_Close (env_bq env) (ct_runner c) of
              (r, _, eff) \<Rightarrow> Handled (c\<lparr>ct_runner := r\<rparr>, [RunnerClosed eff]))
      else Blocked)"

definition startShipper ::
    "('q, 'e, 'x, 'src, 'raw) controller_env \<Rightarrow> ('q, 'x, 'src) controller \<Rightarrow> 'src ctl_unit \<Rightarrow>
     ('q, 'x, 'src) ctl_result" where
  "startShipper env c u = after [UpdateState (u_ID u) Configuring ''reading shipper config'']
     (case ShipperConfigFromUnitConfig (env_config env) (ct_level c) (u_LogLevel u) (u_Source u) of
        (lvl, Inl err) \<Rightarrow>
          Handled (c\<lparr>ct_level := lvl, ct_grpc := InitHasFailed (ct_grpc c) ''error configuring shipper''\<rparr>,
                   reportError ''error configuring shipper'' err u)
      | (lvl, Inr cfg) \<Rightarrow>
          (case runner_Start (env_runner env) (ct_runner c) cfg of
             Panic e \<Rightarrow> Crashed e
           | Return (r, Some err) \<Rightarrow>
               Handled (c\<lparr>ct_level := lvl, ct_runner := r,
                          ct_grpc := InitHasFailed (ct_grpc c) ''error starting output server shipper''\<rparr>,
                        RunnerStarted (sr_queue r \<noteq> None) # reportError ''error starting output server shipper'' err u)
           | Return (r, None) \<Rightarrow>
               Handled (c\<lparr>ct_level := lvl, ct_runner := r\<rparr>,
                        [RunnerStarted (sr_queue r \<noteq> None), RegisterHook (u_ID u) ''queue'',
                         UpdateState (u_ID u) Healthy ''outputs initialized''])))"

definition updateShipperOutput ::
    "('q, 'e, 'x, 'src, 'raw) controller_env \<Rightarrow> ('q, 'x, 'src) controller \<Rightarrow> 'src ctl_unit \<Rightarrow>
     ('q, 'x, 'src) ctl_result" where
  "updateShipperOutput env c u =
     (if u_Type u \<noteq> UnitTypeOutput then Handled (c, [])
      else
        let c = c\<lparr>ct_units := UpdateUnit (ct_units c) u\<rparr> in
        if u_State u = Healthy
        then after [UpdateState (u_ID u) Stopping ''shipper is restarting'']
               (andThen (stopShipper env c) (\<lambda>c. startShipper env c u))
        else if u_State u = Stopped
        then after [UpdateState (u_ID u) Stopping ''shipper is stopping'']
               (andThen (stopShipper env c) (\<lambda>c. Handled (c, [UpdateState (u_ID u) Stopped ''shipper is stopped''])))
        else Handled (c, []))"

text \<open>The reporter handed to the Elasticsearch output.\<close>

definition createOutputHealthReporter :: "'src ctl_unit \<Rightarrow> watch_report \<Rightarrow> 'x ctl_effect" where
  "createOutputHealthReporter u report =
     (case report of (state, msg) \<Rightarrow>
      if state = WatchDegraded then UpdateState (u_ID u) Degraded (''elasticsearch has failed with: '' @ msg)
      else UpdateState (u_ID u) Healthy ''elasticsearch has recovered'')"

section \<open>The inputs\<close>

definition startgRPC ::
    "start_io \<Rightarrow> ('q, 'x, 'src) controller \<Rightarrow> 'src ctl_unit \<Rightarrow> shipper_connection_config \<Rightarrow>
     ('q, 'x, 'src) ctl_result" where
  "startgRPC io c u conn = after [UpdateState (u_ID u) Configuring ''starting gRPC server'']
     (case handler_Start io (ct_grpc c) (cc_Server conn) of
        None \<Rightarrow> Blocked
      | Some (h, eff, Some err) \<Rightarrow>
          Handled (c\<lparr>ct_grpc := h\<rparr>, GrpcEffects eff # reportError ''failed to start grpc server'' err u)
      | Some (h, eff, None) \<Rightarrow>
          Handled (c\<lparr>ct_grpc := h\<rparr>, [GrpcEffects eff, UpdateState (u_ID u) Healthy ''gRPC started'']))"

definition stopGRPC ::
    "('q, 'e, 'x, 'src, 'raw) controller_env \<Rightarrow> ('q, 'x, 'src) controller \<Rightarrow> ('q, 'x, 'src) ctl_result" where
  "stopGRPC env c =
     (case handler_Stop (ct_grpc c) of
        None \<Rightarrow> Blocked
      | Some (h, eff) \<Rightarrow>
          if GracefulStop \<in> set eff \<and> \<not> env_calls_end env (ct_grpc c) then Blocked
          else Handled (c\<lparr>ct_grpc := h\<rparr>, [GrpcEffects eff]))"

definition addInput ::
    "('q, 'e, 'x, 'src, 'raw) controller_env \<Rightarrow> start_io \<Rightarrow> ('q, 'x, 'src) controller \<Rightarrow> 'src ctl_unit \<Rightarrow>
     ('q, 'x, 'src) ctl_result" where
  "addInput env io c u =
     (case cl_NewConfigFrom (env_config env) (u_Source u) of
        Inl err \<Rightarrow> Handled (c, reportError ''error creating config object'' err u)
      | Inr cfgObj \<Rightarrow>
          (case cl_Unpack_conn (env_config env) cfgObj
                  \<lparr>cc_Server = [], cc_TLS = \<lparr>tls_CAs = [], tls_Cert = [], tls_Key = []\<rparr>\<rparr> of
             Inl err \<Rightarrow> Handled (c, reportError ''error unpacking input config'' err u)
           | Inr conn \<Rightarrow> after [UpdateState (u_ID u) Healthy ''healthy''] (startgRPC io c u conn)))"

definition updateInput ::
    "('q, 'x, 'src) controller \<Rightarrow> 'src ctl_unit \<Rightarrow> ('q, 'x, 'src) controller \<times> 'x ctl_effect list" where
  "updateInput c u =
     (c\<lparr>ct_units := UpdateUnit (ct_units c) u\<rparr>,
      if u_State u = Stopped then [UpdateState (u_ID u) Stopped ''unit has stopped''] else [])"

section \<open>The handlers of unit changes\<close>

definition handleUnitAdded ::
    "('q, 'e, 'x, 'src, 'raw) controller_env \<Rightarrow> start_io \<Rightarrow> ('q, 'x, 'src) controller \<Rightarrow> 'src ctl_unit \<Rightarrow>
     ('q, 'x, 'src) ctl_result" where
  "handleUnitAdded env io c u =
     (let c = c\<lparr>ct_units := AddUnit (ct_units c) u\<rparr> in
      case u_Type u of
        UnitTypeOutput \<Rightarrow> startShipper env c u
      | UnitTypeInput \<Rightarrow> addInput env io c u)"

definition handleUnitUpdated ::
    "('q, 'e, 'x, 'src, 'raw) controller_env \<Rightarrow> ('q, 'x, 'src) controller \<Rightarrow> 'src ctl_unit \<Rightarrow>
     ('q, 'x, 'src) ctl_result" where
  "handleUnitUpdated env c u =
     (let currentUnit = GetUnit (ct_units c) (u_ID u) (u_Type u) in
      if onlyLogLevelUpdated (Some (u_Source u)) (su_config currentUnit) (u_LogLevel u) (ct_level c) \<and>
         u_Type u = UnitTypeOutput
      then Handled (c\<lparr>ct_level := ZapFromUnitLogLevel (u_LogLevel u)\<rparr>,
                    [UpdateState (u_ID u) Healthy ''log level changed''])
      else case u_Type u of
             UnitTypeOutput \<Rightarrow> updateShipperOutput env c u
           | UnitTypeInput \<Rightarrow> Handled (updateInput c u))"

definition handleUnitRemoved ::
    "('q, 'e, 'x, 'src, 'raw) controller_env \<Rightarrow> ('q, 'x, 'src) controller \<Rightarrow> 'src ctl_unit \<Rightarrow> ('q, 'x, 'src) ctl_result" where
  "handleUnitRemoved env c u =
     (let c = c\<lparr>ct_units := DeleteUnit (ct_units c) u\<rparr> in
      if AvailableUnitCount (ct_units c) = 0
      then andThen (stopGRPC env c)
             (\<lambda>c. Handled (c, [UpdateState (u_ID u) Stopped ''gRPC server stopped'',
                               UpdateState (u_ID u) Stopped ''unit removed'']))
      else Handled (c, [UpdateState (u_ID u) Stopped ''unit removed'']))"

definition handle_change ::
    "('q, 'e, 'x, 'src, 'raw) controller_env \<Rightarrow> start_io \<Rightarrow> ('q, 'x, 'src) controller \<Rightarrow>
     unit_change \<times> 'src ctl_unit \<Rightarrow> ('q, 'x, 'src) ctl_result" where
  "handle_change env io c ku =
     (case ku of (k, u) \<Rightarrow>
        (case k of
           UnitChangedAdded \<Rightarrow> handleUnitAdded env io c u
         | UnitChangedModified \<Rightarrow> handleUnitUpdated env c u
         | UnitChangedRemoved \<Rightarrow> handleUnitRemoved env c u))"

text \<open>The run loop: what its \<open>select\<close> receives is a list; it has not returned (\<open>False\<close>) when the list
  ends without a signal or the end of the context.\<close>

datatype 'src ctl_input = Change start_io "unit_change \<times> 'src ctl_unit" | Signal | ContextDone

definition shutdown ::
    "('q, 'e, 'x, 'src, 'raw) controller_env \<Rightarrow> ('q, 'x, 'src) controller \<Rightarrow> ('q, 'x, 'src) ctl_result" where
  "shutdown env c = andThen (stopGRPC env c) (stopShipper env)"

fun run_loop ::
    "('q, 'e, 'x, 'src, 'raw) controller_env \<Rightarrow> ('q, 'x, 'src) controller \<Rightarrow> 'src ctl_input list \<Rightarrow>
     (('q, 'x, 'src) ctl_result \<times> bool)" where
  "run_loop env c [] = (Handled (c, []), False)"
| "run_loop env c (Signal # inputs) = (shutdown env c, True)"
| "run_loop env c (ContextDone # inputs) = (shutdown env c, True)"
| "run_loop env c (Change io ku # inputs) =
     (case handle_change env io c ku of
        Handled (c', eff) \<Rightarrow>
          (case run_loop env c' inputs of (res, returned) \<Rightarrow> (after eff res, returned))
      | Blocked \<Rightarrow> (Blocked, False)
      | Crashed e \<Rightarrow> (Crashed e, False))"

text \<open>\<open>runController\<close> and \<open>RunManaged\<close>: connecting to the agent may fail before the loop; the logger's level
  is the one set by then.\<close>

definition runController ::
    "('q, 'e, 'x, 'src, 'raw) controller_env \<Rightarrow> go_error option \<Rightarrow> zap_level \<Rightarrow> 'src ctl_input list \<Rightarrow>
     (('q, 'x, 'src) ctl_result \<times> bool) result" where
  "runController env agent_Start lvl inputs =
     (case agent_Start of
        Some err \<Rightarrow> Inl (NewError ''error starting connection to client'')
      | None \<Rightarrow> Inr (run_loop env (newClientHandler lvl) inputs))"

definition RunManaged ::
    "('q, 'e, 'x, 'src, 'raw) controller_env \<Rightarrow> go_error option \<Rightarrow> go_error option \<Rightarrow> zap_level \<Rightarrow>
     'src ctl_input list \<Rightarrow> (('q, 'x, 'src) ctl_result \<times> bool) result" where
  "RunManaged env NewV2FromReader agent_Start lvl inputs =
     (case NewV2FromReader of
        Some err \<Rightarrow> Inl (Wrapped ''error reading control config from agent: '' err)
      | None \<Rightarrow> runController env agent_Start lvl inputs)"

section \<open>Unmanaged mode\<close>

text \<open>The global settings, for the results of unpacking the overwrites and of the library's set-up.\<close>

text \<open>\<open>reportErrors\<close>: the error messages it logs before its context is done, and whether it has returned.\<close>

datatype error_input = ErrorsDone | AgentError go_error

fun reportErrors :: "error_input list \<Rightarrow> string list \<times> bool" where
  "reportErrors [] = ([], False)"
| "reportErrors (ErrorsDone # ins) = ([], True)"
| "reportErrors (AgentError err # ins) =
     (case reportErrors ins of (logged, returned) \<Rightarrow>
        ((''Got error from controller: '' @ Error_text err) # logged, returned))"

definition setPaths :: "'p result \<Rightarrow> ('p \<Rightarrow> go_error option) \<Rightarrow> go_error option" where
  "setPaths overwrites InitPaths =
     (case overwrites of
        Inl err \<Rightarrow> Some (Wrapped ''error extracting default paths: '' err)
      | Inr path \<Rightarrow> map_option (Wrapped ''error setting default paths: '') (InitPaths path))"

definition setLogging :: "'p result \<Rightarrow> ('p \<Rightarrow> go_error option) \<Rightarrow> go_error option" where
  "setLogging overwrites configure_Logging =
     (case overwrites of
        Inl err \<Rightarrow> Some (Wrapped ''error unpacking CLI overwrites for logger: '' err)
      | Inr cfg \<Rightarrow> map_option (Wrapped ''error setting up logging config: '') (configure_Logging cfg))"

datatype 'x run_mode = RunUnmanagedMode "'x root_config" | RunManagedMode | LoadFails go_error

definition LoadAndRun ::
    "go_error option \<Rightarrow> go_error option \<Rightarrow> ('src, 'raw, 'x) config_lib \<Rightarrow> string \<Rightarrow> 'x run_mode" where
  "LoadAndRun paths_err logging_err lib configFilePath =
     (case paths_err of
        Some err \<Rightarrow> LoadFails (Wrapped ''error setting paths from -E overwrites: '' err)
      | None \<Rightarrow>
     (case logging_err of
        Some err \<Rightarrow> LoadFails (Wrapped ''error configuring logging: '' err)
      | None \<Rightarrow>
     (case ReadConfigFromFile lib configFilePath of
        Inr cfg \<Rightarrow> RunUnmanagedMode cfg
      | Inl err \<Rightarrow> if errors_Is err ErrConfigIsNotSet then RunManagedMode else LoadFails err)))"

text \<open>\<open>RunUnmanaged\<close>: the runner and the endpoint when it returns (after a signal or the end of the
  context, if it got that far), and the error; \<open>Blocked\<close> when it waits forever.\<close>

definition RunUnmanaged ::
    "('q, 'e, 'x, 'src, 'raw) controller_env \<Rightarrow> (string \<Rightarrow> string \<Rightarrow> go_error option) \<Rightarrow> start_io \<Rightarrow>
     'x root_config \<Rightarrow> (('q, 'x) server_runner \<times> input_handler \<times> go_error option) handled" where
  "RunUnmanaged env NewServerTLSFromFile io cfg =
     (case cl_Overwrites (env_config env) cfg of
        Inl err \<Rightarrow> Handled (NewOutputServer, NewGRPCServer, Some (Wrapped ''error unpacking CLI overwrites: '' err))
      | Inr cfg \<Rightarrow>
          (let tls = cc_TLS (sh_Server (rt_Shipper cfg)) in
           case (if tls_Cert tls \<noteq> [] \<and> tls_Key tls \<noteq> []
                 then NewServerTLSFromFile (tls_Cert tls) (tls_Key tls) else None) of
             Some err \<Rightarrow> Handled (NewOutputServer, NewGRPCServer, Some (Wrapped ''failed to generate credentials '' err))
           | None \<Rightarrow>
               (case runner_Start (env_runner env) NewOutputServer cfg of
                  Panic e \<Rightarrow> Crashed e
                | Return (r, Some err) \<Rightarrow>
                    Handled (r, NewGRPCServer, Some (Wrapped ''error starting publisher server: '' err))
                | Return (r, None) \<Rightarrow>
                    (case handler_Start io NewGRPCServer (cc_Server (sh_Server (rt_Shipper cfg))) of
                       None \<Rightarrow> Blocked
                     | Some (h, _, Some err) \<Rightarrow>
                         Handled (r, h, Some (Wrapped ''error starting grpc server: '' err))
                     | Some (h, _, None) \<Rightarrow>
                         if env_Close_returns env r then Handled (fst (runner_Close (env_bq env) r), h, None)
                         else Blocked))))"

section \<open>Properties\<close>

lemma after_Handled:
  "after eff res = Handled (c, eff') \<longleftrightarrow> (\<exists>eff''. res = Handled (c, eff'') \<and> eff' = eff @ eff'')"
  by (cases "(eff, res)" rule: after.cases) auto

lemma andThen_Handled:
  "andThen res f = Handled (c', eff) \<longleftrightarrow>
   (\<exists>c eff1 eff2. res = Handled (c, eff1) \<and> f c = Handled (c', eff2) \<and> eff = eff1 @ eff2)"
  by (cases "(res, f)" rule: andThen.cases) (auto simp: after_Handled)

lemma startShipper_Handled:
  assumes "startShipper env c u = Handled (c', eff)"
  shows "ct_units c' = ct_units c \<and> ct_level c' = ZapFromUnitLogLevel (u_LogLevel u)"
proof -
  have "fst (ShipperConfigFromUnitConfig (env_config env) (ct_level c) (u_LogLevel u) (u_Source u)) =
      ZapFromUnitLogLevel (u_LogLevel u)"
    by (simp add: ShipperConfigFromUnitConfig_def Let_def)
  with assms show ?thesis
    by (auto simp: startShipper_def after_Handled split: prod.splits sum.splits outcome.splits option.splits)
qed

lemma startgRPC_units: "startgRPC io c u conn = Handled (c', eff) \<Longrightarrow> ct_units c' = ct_units c"
  by (auto simp: startgRPC_def after_Handled split: option.splits prod.splits)

lemma addInput_units: "addInput env io c u = Handled (c', eff) \<Longrightarrow> ct_units c' = ct_units c"
  by (auto simp: addInput_def after_Handled dest: startgRPC_units split: sum.splits)

lemma stopShipper_fields:
  "stopShipper env c = Handled (c', eff) \<Longrightarrow>
   ct_units c' = ct_units c \<and> ct_grpc c' = ct_grpc c \<and> \<not> runner_IsInitialized (ct_runner c') \<and>
   ct_runner c' = fst (runner_Close (env_bq env) (ct_runner c)) \<and>
   eff = [RunnerClosed (snd (snd (runner_Close (env_bq env) (ct_runner c))))]"
  by (auto simp: stopShipper_def runner_Close_def runner_IsInitialized_def split: if_splits)

lemma updateShipperOutput_units:
  "updateShipperOutput env c u = Handled (c', eff) \<Longrightarrow> u_Type u = UnitTypeOutput \<Longrightarrow>
   ct_units c' = UpdateUnit (ct_units c) u"
  by (auto simp: updateShipperOutput_def Let_def after_Handled andThen_Handled dest!: stopShipper_fields startShipper_Handled
      split: if_splits)

lemma stopGRPC_Handled:
  "stopGRPC env c = Handled (c', eff) \<Longrightarrow>
   ct_units c' = ct_units c \<and> ct_runner c' = ct_runner c \<and> ih_server (ct_grpc c') = None \<and>
   ih_Shipper (ct_grpc c') = None \<and> (\<exists>effs. eff = [GrpcEffects effs])"
  by (auto simp: stopGRPC_def handler_Stop_def split: if_splits option.splits prod.splits)

lemma handleUnitRemoved_Handled:
  assumes "handleUnitRemoved env c u = Handled (c', eff)"
  shows "ct_units c' = DeleteUnit (ct_units c) u \<and> ct_runner c' = ct_runner c \<and>
    (if AvailableUnitCount (DeleteUnit (ct_units c) u) = 0
     then ih_server (ct_grpc c') = None \<and> ih_Shipper (ct_grpc c') = None else ct_grpc c' = ct_grpc c)"
proof (cases "AvailableUnitCount (DeleteUnit (ct_units c) u) = 0")
  case True
  then obtain eff' where "stopGRPC env (c\<lparr>ct_units := DeleteUnit (ct_units c) u\<rparr>) = Handled (c', eff')"
    using assms by (auto simp: handleUnitRemoved_def Let_def andThen_Handled)
  from stopGRPC_Handled [OF this] True show ?thesis by simp
next
  case False
  with assms show ?thesis by (auto simp: handleUnitRemoved_def Let_def)
qed

lemma handle_change_inputs:
  assumes "handle_change env io c (k, u) = Handled (c', eff)" "unit_map_wf (ct_units c)"
  shows "unit_map_wf (ct_units c') \<and> input_ids (ct_units c') = live_step (input_ids (ct_units c)) (k, u)"
proof (cases k)
  case UnitChangedAdded
  then have "ct_units c' = AddUnit (ct_units c) u"
    using assms(1) by (auto simp: handle_change_def handleUnitAdded_def Let_def
      dest!: startShipper_Handled addInput_units split: unit_type.splits)
  with UnitChangedAdded assms(2) show ?thesis by (simp add: live_step_def units.add_wf units.inputs_add)
next
  case UnitChangedModified
  then have "ct_units c' = UpdateUnit (ct_units c) u \<or> ct_units c' = ct_units c"
    using assms(1) by (auto simp: handle_change_def handleUnitUpdated_def Let_def updateInput_def
      dest!: updateShipperOutput_units split: unit_type.splits if_splits)
  with UnitChangedModified assms(2) show ?thesis
    by (auto simp: live_step_def units.update_wf units.inputs_update)
next
  case UnitChangedRemoved
  then have "ct_units c' = DeleteUnit (ct_units c) u"
    using assms(1) by (auto simp: handle_change_def dest!: handleUnitRemoved_Handled)
  with UnitChangedRemoved assms(2) show ?thesis by (simp add: live_step_def units.remove_wf units.inputs_remove)
qed

fun change_of :: "'src ctl_input \<Rightarrow> (unit_change \<times> 'src ctl_unit) list" where
  "change_of (Change io ku) = [ku]"
| "change_of _ = []"

lemma run_loop_inputs:
  assumes "run_loop env c inputs = (Handled (c', eff), False)" "unit_map_wf (ct_units c)"
  shows "unit_map_wf (ct_units c') \<and>
    input_ids (ct_units c') = foldl live_step (input_ids (ct_units c)) (concat (map change_of inputs))"
  using assms
proof (induction env c inputs arbitrary: eff rule: run_loop.induct)
  case (4 env c io ku inputs)
  obtain k u where ku: "ku = (k, u)" by force
  obtain c1 eff1 where h: "handle_change env io c (k, u) = Handled (c1, eff1)"
    using 4(2) ku by (cases "handle_change env io c ku") auto
  obtain eff2 where r: "run_loop env c1 inputs = (Handled (c', eff2), False)"
    using 4(2) ku h by (auto simp: after_Handled split: prod.splits)
  note step = handle_change_inputs [OF h 4(3)]
  from 4(1) [OF _ refl r] h ku step show ?case by simp
qed auto

text \<open>C24: in managed mode the controller knows exactly the input units that are live: after any
  sequence of unit changes that it handled, its unit map counts the input units added and not
  removed since, whatever happened to the output and to the endpoint meanwhile.\<close>

theorem controller_tracks_live_inputs:
  assumes "runController env None lvl inputs = Inr (Handled (c', eff), False)"
  shows "AvailableUnitCount (ct_units c') = card (foldl live_step {} (concat (map change_of inputs)))"
proof -
  have "run_loop env (newClientHandler lvl) inputs = (Handled (c', eff), False)"
    using assms by (simp add: runController_def)
  from run_loop_inputs [OF this] show ?thesis
    using units.count_inputs [of "ct_units c'"]
    by (simp add: newClientHandler_def units.wf_empty units.inputs_empty)
qed

text \<open>Removing a unit stops the gRPC endpoint exactly when no live input unit is left, and the
  output keeps running in any case; while another input is live the endpoint is not touched.\<close>

theorem last_input_removed_stops_endpoint:
  assumes "handleUnitRemoved env c u = Handled (c', eff)" "unit_map_wf (ct_units c)"
  shows "ct_runner c' = ct_runner c \<and>
    (if live_step (input_ids (ct_units c)) (UnitChangedRemoved, u) = {}
     then ih_server (ct_grpc c') = None \<and> ih_Shipper (ct_grpc c') = None
     else ct_grpc c' = ct_grpc c)"
proof -
  have "AvailableUnitCount (DeleteUnit (ct_units c) u) = 0 \<longleftrightarrow>
      live_step (input_ids (ct_units c)) (UnitChangedRemoved, u) = {}"
    using units.count_zero [OF units.remove_wf [OF assms(2)], of u]
    by (simp add: live_step_def units.inputs_remove)
  with handleUnitRemoved_Handled [OF assms(1)] show ?thesis by simp
qed

lemma shutdown_Handled:
  assumes "shutdown env c = Handled (c', eff)"
  shows "ih_server (ct_grpc c') = None \<and> ih_Shipper (ct_grpc c') = None \<and>
    \<not> runner_IsInitialized (ct_runner c') \<and> (\<exists>geff ceff. eff = [GrpcEffects geff, RunnerClosed ceff])"
  using assms by (auto simp: shutdown_def andThen_Handled dest!: stopGRPC_Handled stopShipper_fields)

lemma run_loop_shutdown:
  assumes "run_loop env c inputs = (Handled (c', eff), True)"
  shows "ih_server (ct_grpc c') = None \<and> ih_Shipper (ct_grpc c') = None \<and>
    \<not> runner_IsInitialized (ct_runner c') \<and>
    (\<exists>before geff ceff. eff = before @ [GrpcEffects geff, RunnerClosed ceff])"
  using assms
proof (induction env c inputs arbitrary: eff rule: run_loop.induct)
  case (4 env c io ku inputs)
  obtain c1 eff1 where h: "handle_change env io c ku = Handled (c1, eff1)"
    using 4(2) by (cases "handle_change env io c ku") auto
  obtain eff2 where r: "run_loop env c1 inputs = (Handled (c', eff2), True)" and "eff = eff1 @ eff2"
    using 4(2) h by (auto simp: after_Handled split: prod.splits)
  with 4(1) [OF h refl r] show ?case by (metis append.assoc)
qed (auto dest: shutdown_Handled)

text \<open>C26: when the run loop ends on a signal or because its context is done, and the endpoint can be
  stopped, then whatever unit changes came before, the endpoint is stopped before the runner is
  closed, and in the end there is no server, no service and no queue.\<close>

theorem controller_shutdown:
  assumes "runController env agent_Start lvl inputs = Inr (Handled (c', eff), True)"
  shows "ih_server (ct_grpc c') = None \<and> ih_Shipper (ct_grpc c') = None \<and>
    \<not> runner_IsInitialized (ct_runner c') \<and>
    (\<exists>before geff ceff. eff = before @ [GrpcEffects geff, RunnerClosed ceff])"
proof -
  have "run_loop env (newClientHandler lvl) inputs = (Handled (c', eff), True)"
    using assms by (simp add: runController_def split: option.splits)
  then show ?thesis by (rule run_loop_shutdown)
qed

text \<open>A log level change does not restart anything: after an output unit was added, an update with
  the same configuration and a level that maps to another logger level sets the logger and reports
  the unit healthy, and leaves the runner, the endpoint and the units as they are.\<close>

theorem log_level_update_restarts_nothing:
  assumes "handleUnitAdded env io c u = Handled (c1, eff1)" "u_Type u = UnitTypeOutput"
    and "ZapFromUnitLogLevel lvl \<noteq> ZapFromUnitLogLevel (u_LogLevel u)"
  shows "handleUnitUpdated env c1 (u\<lparr>u_LogLevel := lvl\<rparr>) =
    Handled (c1\<lparr>ct_level := ZapFromUnitLogLevel lvl\<rparr>, [UpdateState (u_ID u) Healthy ''log level changed''])"
proof -
  have "startShipper env (c\<lparr>ct_units := AddUnit (ct_units c) u\<rparr>) u = Handled (c1, eff1)"
    using assms(1,2) by (simp add: handleUnitAdded_def)
  from startShipper_Handled [OF this] have "ct_units c1 = AddUnit (ct_units c) u"
    "ct_level c1 = ZapFromUnitLogLevel (u_LogLevel u)" by simp_all
  with assms(2,3) show ?thesis
    by (simp add: handleUnitUpdated_def onlyLogLevelUpdated_def GetUnit_def AddUnit_def)
qed

text \<open>In unmanaged mode a run that reached its end and was told to stop has closed the runner, but
  the gRPC endpoint is still serving: it is never stopped and its socket never removed.\<close>

theorem unmanaged_run_leaves_endpoint:
  assumes "RunUnmanaged env tls io cfg = Handled (r, h, None)"
  shows "\<not> runner_IsInitialized r \<and> ih_server h = Some Serving \<and> ih_Shipper h \<noteq> None"
proof -
  obtain endpoint r0 eff where "handler_Start io NewGRPCServer endpoint = Some (h, eff, None)"
      and r: "r = fst (runner_Close (env_bq env) r0)"
    using assms unfolding RunUnmanaged_def Let_def
    by (auto split: sum.splits option.splits outcome.splits prod.splits if_splits)
  from this(1) have "ih_server h = Some Serving \<and> ih_Shipper h \<noteq> None"
    by (rule handler_Start_cases) (auto simp: NewGRPCServer_def dest!: start_locked_result
      intro: start_locked_shipper)
  with r show ?thesis by (simp add: runner_Close_def runner_IsInitialized_def)
qed

lemma runner_Start_new_queue:
  assumes "runner_Start lib r cfg = Return (r', err)" "sr_queue r' = Some q"
  shows "queue_New (rl_DefaultSettings lib) (rl_pbkdf2_Key lib) (rl_diskqueue lib) (rl_memqueue lib)
    (sh_Queue (rt_Shipper cfg)) = Return (Inr q)"
  using assms
  by (auto simp: runner_Start_def start_output_def Let_def
      split: outcome.splits sum.splits option.splits if_splits)

definition uuid_of :: "('q, 'x, 'src) controller \<Rightarrow> string option" where
  "uuid_of c = map_option srv_uuid (ih_Shipper (ct_grpc c))"

lemma InitHasFailed_uuid [simp]: "map_option srv_uuid (ih_Shipper (InitHasFailed h e)) = map_option srv_uuid (ih_Shipper h)"
  by (simp add: InitHasFailed_def SetInitError_def option.map_comp comp_def)

lemma startShipper_restart:
  assumes "startShipper env c u = Handled (c', eff)" "\<not> runner_IsInitialized (ct_runner c)"
  shows "uuid_of c' = uuid_of c \<and>
    (\<forall>q. sr_queue (ct_runner c') = Some q \<longrightarrow>
      (\<exists>qc. queue_New (rl_DefaultSettings (env_runner env)) (rl_pbkdf2_Key (env_runner env))
        (rl_diskqueue (env_runner env)) (rl_memqueue (env_runner env)) qc = Return (Inr q)))"
  using assms
  by (auto simp: startShipper_def after_Handled uuid_of_def runner_IsInitialized_def dest: runner_Start_new_queue
      split: prod.splits sum.splits outcome.splits option.splits)

text \<open>A restart of the output gives the clients a new queue under the old name: when an output unit
  is updated, the runner is closed with its queue before anything else, and what it has afterwards is
  no queue or a newly created one, whose entry ids start over; the service keeps its UUID, so the
  UUID check of a request cannot tell a client that its indexes are void.\<close>

theorem output_restart_keeps_uuid:
  assumes "updateShipperOutput env c u = Handled (c', eff)" "u_Type u = UnitTypeOutput" "u_State u = Healthy"
  shows "map_option srv_uuid (ih_Shipper (ct_grpc c')) = map_option srv_uuid (ih_Shipper (ct_grpc c)) \<and>
    (\<exists>ceff eff'. eff = UpdateState (u_ID u) Stopping ''shipper is restarting'' # RunnerClosed ceff # eff') \<and>
    (\<forall>q. sr_queue (ct_runner c') = Some q \<longrightarrow>
      (\<exists>qc. queue_New (rl_DefaultSettings (env_runner env)) (rl_pbkdf2_Key (env_runner env))
        (rl_diskqueue (env_runner env)) (rl_memqueue (env_runner env)) qc = Return (Inr q)))"
proof -
  obtain c1 eff1 eff2 where stop: "stopShipper env (c\<lparr>ct_units := UpdateUnit (ct_units c) u\<rparr>) = Handled (c1, eff1)"
      and start: "startShipper env c1 u = Handled (c', eff2)"
      and eff: "eff = UpdateState (u_ID u) Stopping ''shipper is restarting'' # eff1 @ eff2"
    using assms by (auto simp: updateShipperOutput_def Let_def after_Handled andThen_Handled)
  have "ct_grpc c1 = ct_grpc c" "\<not> runner_IsInitialized (ct_runner c1)" "\<exists>ceff. eff1 = [RunnerClosed ceff]"
    using stopShipper_fields [OF stop] by auto
  with startShipper_restart [OF start] eff show ?thesis by (auto simp: uuid_of_def)
qed

section \<open>The run loop returns\<close>

text \<open>A start of the endpoint that finds a stale socket and cannot remove it.\<close>

definition socket_stuck :: "start_io \<Rightarrow> bool" where
  "socket_stuck io \<longleftrightarrow>
     (case io_NewV4 io of Inl _ \<Rightarrow> False | Inr _ \<Rightarrow> True) \<and> \<not> (io_dir_missing io \<and> io_MkdirAll io \<noteq> None) \<and>
     io_addr_exists io \<and> io_Remove io \<noteq> None"

fun removable_socket :: "'src ctl_input \<Rightarrow> bool" where
  "removable_socket (Change io ku) \<longleftrightarrow> \<not> socket_stuck io"
| "removable_socket _ \<longleftrightarrow> True"

text \<open>No unit configuration makes the start of the runner panic.\<close>

definition starts_safely :: "('q, 'e, 'x, 'src, 'raw) controller_env \<Rightarrow> bool" where
  "starts_safely env \<longleftrightarrow>
     (\<forall>lvl new src lvl' cfg r e.
        ShipperConfigFromUnitConfig (env_config env) lvl new src = (lvl', Inr cfg) \<longrightarrow>
        runner_Start (env_runner env) r cfg \<noteq> Panic e)"

text \<open>Every \<open>Close\<close> of the runner gets the mutex and sees the output finish, and the calls in progress end after every
  \<open>GracefulStop\<close>.\<close>

definition waits_end :: "('q, 'e, 'x, 'src, 'raw) controller_env \<Rightarrow> bool" where
  "waits_end env \<longleftrightarrow> (\<forall>r. env_Close_returns env r) \<and> (\<forall>h. env_calls_end env h)"

text \<open>A handler's result that leaves the endpoint's mutex free.\<close>

fun unlocked :: "('q, 'x, 'src) ctl_result \<Rightarrow> bool" where
  "unlocked (Handled (c, eff)) \<longleftrightarrow> \<not> ih_locked (ct_grpc c)"
| "unlocked _ \<longleftrightarrow> False"

lemma unlocked_after [simp]: "unlocked (after eff res) = unlocked res"
  by (cases "(eff, res)" rule: after.cases) simp_all

lemma unlockedE:
  assumes "unlocked res"
  obtains c eff where "res = Handled (c, eff)" "\<not> ih_locked (ct_grpc c)"
  using assms by (cases res rule: unlocked.cases) auto

lemma handler_Start_unlocked:
  assumes "\<not> ih_locked h" "\<not> socket_stuck io"
  shows "\<exists>h' eff err. handler_Start io h endpoint = Some (h', eff, err) \<and> \<not> ih_locked h'"
proof (cases "ih_server h = None \<and> (\<exists>u. io_NewV4 io = Inr u)")
  case True
  then obtain u where u: "io_NewV4 io = Inr u" and s: "ih_server h = None" by blast
  then obtain h' eff err where st: "handler_Start io h endpoint = Some (h', eff, err)"
    using assms(1) by (simp add: handler_Start_def NewShipperServer_def Let_def) (metis prod_cases3)
  have "\<not> ih_locked h'"
    by (rule handler_Start_cases [OF st s]) (use assms u in \<open>auto dest!: start_locked_result simp: socket_stuck_def\<close>)
  with st show ?thesis by blast
next
  case False
  with assms(1) show ?thesis
    by (auto simp: handler_Start_def NewShipperServer_def Let_def split: sum.splits)
qed

lemma startShipper_unlocked:
  assumes "\<not> ih_locked (ct_grpc c)" "starts_safely env"
  shows "unlocked (startShipper env c u)"
proof (cases "ShipperConfigFromUnitConfig (env_config env) (ct_level c) (u_LogLevel u) (u_Source u)")
  case (Pair lvl res)
  show ?thesis
  proof (cases res)
    case (Inl err)
    with Pair assms show ?thesis by (simp add: startShipper_def InitHasFailed_def)
  next
    case (Inr cfg)
    with Pair assms(2) have "\<nexists>e. runner_Start (env_runner env) (ct_runner c) cfg = Panic e"
      by (auto simp: starts_safely_def)
    then obtain r err where "runner_Start (env_runner env) (ct_runner c) cfg = Return (r, err)"
      by (metis outcome.exhaust surj_pair)
    with Pair Inr assms(1) show ?thesis
      by (cases err) (simp_all add: startShipper_def InitHasFailed_def)
  qed
qed

lemma startgRPC_unlocked:
  assumes "\<not> ih_locked (ct_grpc c)" "\<not> socket_stuck io"
  shows "unlocked (startgRPC io c u conn)"
proof -
  obtain h' eff err where "handler_Start io (ct_grpc c) (cc_Server conn) = Some (h', eff, err)" "\<not> ih_locked h'"
    using handler_Start_unlocked [OF assms] by blast
  then show ?thesis by (cases err) (simp_all add: startgRPC_def)
qed

lemma unlocked_andThen: "unlocked res \<Longrightarrow> (\<And>c. \<not> ih_locked (ct_grpc c) \<Longrightarrow> unlocked (f c)) \<Longrightarrow> unlocked (andThen res f)"
  by (auto elim!: unlockedE)

lemma stop_unlocked:
  assumes "\<not> ih_locked (ct_grpc c)" "waits_end env"
  shows "unlocked (stopGRPC env c)" "unlocked (stopShipper env c)"
  using assms by (auto simp: stopGRPC_def handler_Stop_def stopShipper_def waits_end_def split: prod.split)

lemma handle_change_unlocked:
  assumes "\<not> ih_locked (ct_grpc c)" "\<not> socket_stuck io" "starts_safely env" "waits_end env"
  shows "unlocked (handle_change env io c (k, u))"
proof (cases k)
  case UnitChangedAdded
  with assms show ?thesis
    by (cases "u_Type u") (auto simp: handle_change_def handleUnitAdded_def addInput_def Let_def
      startShipper_unlocked startgRPC_unlocked split: sum.splits)
next
  case UnitChangedModified
  with assms show ?thesis
    by (cases "u_Type u") (auto simp: handle_change_def handleUnitUpdated_def updateShipperOutput_def updateInput_def
      Let_def intro!: startShipper_unlocked unlocked_andThen stop_unlocked)
next
  case UnitChangedRemoved
  with assms show ?thesis
    by (auto simp: handle_change_def handleUnitRemoved_def Let_def intro!: unlocked_andThen stop_unlocked)
qed

lemma shutdown_returns:
  assumes "\<not> ih_locked (ct_grpc c)" "waits_end env"
  shows "\<exists>c' eff. shutdown env c = Handled (c', eff)"
proof -
  have "unlocked (shutdown env c)"
    unfolding shutdown_def using assms by (intro unlocked_andThen stop_unlocked)
  then show ?thesis by (auto elim: unlockedE)
qed

lemma run_loop_returns:
  assumes "\<not> ih_locked (ct_grpc c)" "starts_safely env" "waits_end env" "Signal \<in> set inputs \<or> ContextDone \<in> set inputs"
    and "list_all removable_socket inputs"
  shows "\<exists>c' eff. run_loop env c inputs = (Handled (c', eff), True)"
  using assms
proof (induction env c inputs rule: run_loop.induct)
  case (4 env c io ku inputs)
  obtain k u where ku: "ku = (k, u)" by force
  have "\<not> socket_stuck io" using "4.prems"(5) by simp
  from handle_change_unlocked [OF "4.prems"(1) this "4.prems"(2,3), of k u]
  obtain c1 eff1 where h: "handle_change env io c ku = Handled (c1, eff1)" "\<not> ih_locked (ct_grpc c1)"
    unfolding ku by (auto elim: unlockedE)
  obtain c' eff where "run_loop env c1 inputs = (Handled (c', eff), True)"
    using "4.IH" [OF h(1) refl h(2)] "4.prems" by auto
  with h show ?case by simp
qed (use shutdown_returns in auto)

text \<open>C27: in managed mode the run loop returns once it is told to: if a signal or the end of the
  context is among what it receives, if no start of the endpoint on the way finds a stale socket it
  cannot remove, no unit configuration makes the runner panic, and every \<open>Close\<close> of the runner and every
  \<open>GracefulStop\<close> returns, then every change before is handled
  and the loop ends with the shutdown, whatever the units and their errors: there is nothing else to wait for. The
  mutex of the endpoint, which a failed start can leave locked, is free at every stop.\<close>

theorem controller_returns:
  assumes "starts_safely env" "waits_end env" "Signal \<in> set inputs \<or> ContextDone \<in> set inputs"
    and "list_all removable_socket inputs"
  shows "\<exists>c' eff. runController env None lvl inputs = Inr (Handled (c', eff), True)"
  using run_loop_returns [OF _ assms, of "newClientHandler lvl"]
  by (simp add: runController_def newClientHandler_def NewGRPCServer_def)

section \<open>Queues are opened and closed in turn\<close>

datatype queue_event = QueueOpened | QueueClosed

fun queue_event_of :: "'x ctl_effect \<Rightarrow> queue_event list" where
  "queue_event_of (RunnerStarted has_queue) = (if has_queue then [QueueOpened] else [])"
| "queue_event_of (RunnerClosed ceff) = (if CloseQueue \<in> set ceff then [QueueClosed] else [])"
| "queue_event_of _ = []"

abbreviation queue_events :: "'x ctl_effect list \<Rightarrow> queue_event list" where
  "queue_events eff \<equiv> concat (map queue_event_of eff)"

text \<open>The automaton of the alternation: whether a queue is open, before and after.\<close>

fun turns :: "bool \<Rightarrow> queue_event list \<Rightarrow> bool option" where
  "turns b [] = Some b"
| "turns False (QueueOpened # es) = turns True es"
| "turns True (QueueClosed # es) = turns False es"
| "turns _ _ = None"

lemma turns_append: "turns b (xs @ ys) = (case turns b xs of None \<Rightarrow> None | Some b' \<Rightarrow> turns b' ys)"
  by (induction b xs rule: turns.induct) simp_all

lemma turns_alternate:
  "turns b es = Some b' \<Longrightarrow>
   \<exists>n. (if b then [QueueOpened] else []) @ es = concat (replicate n [QueueOpened, QueueClosed]) @ (if b' then [QueueOpened] else [])"
proof (induction b es rule: turns.induct)
  case (1 b)
  then show ?case by (intro exI [of _ 0]) auto
next
  case (3 es)
  then obtain n where "es = concat (replicate n [QueueOpened, QueueClosed]) @ (if b' then [QueueOpened] else [])" by auto
  then show ?case by (intro exI [of _ "Suc n"]) simp
qed auto

text \<open>A handler that keeps to the alternation.\<close>

definition in_turn :: "('q, 'x, 'src) controller \<Rightarrow> 'x ctl_effect list \<Rightarrow> ('q, 'x, 'src) controller \<Rightarrow> bool" where
  "in_turn c eff c' \<longleftrightarrow> turns (runner_IsInitialized (ct_runner c)) (queue_events eff) = Some (runner_IsInitialized (ct_runner c'))"

lemma in_turn_trans: "in_turn c eff c1 \<Longrightarrow> in_turn c1 eff' c' \<Longrightarrow> in_turn c (eff @ eff') c'"
  by (simp add: in_turn_def turns_append)

lemma stopShipper_in_turn: "stopShipper env c = Handled (c', eff) \<Longrightarrow> in_turn c eff c'"
  by (auto simp: in_turn_def stopShipper_def runner_Close_def runner_IsInitialized_def split: if_splits option.splits)

lemma startShipper_in_turn:
  assumes "startShipper env c u = Handled (c', eff)" "\<not> runner_IsInitialized (ct_runner c)"
  shows "in_turn c eff c'"
  using assms
  by (auto simp: in_turn_def startShipper_def after_Handled reportError_def runner_IsInitialized_def
      split: prod.splits sum.splits outcome.splits option.splits)

lemma endpoint_in_turn:
  "addInput env io c u = Handled (c', eff) \<Longrightarrow> in_turn c eff c'"
  "stopGRPC env c = Handled (c', eff) \<Longrightarrow> in_turn c eff c'"
  by (auto simp: in_turn_def addInput_def startgRPC_def after_Handled reportError_def stopGRPC_def
      split: sum.splits option.splits prod.splits if_splits)

lemma updateShipperOutput_in_turn:
  assumes "updateShipperOutput env c u = Handled (c', eff)"
  shows "in_turn c eff c'"
proof -
  let ?c = "c\<lparr>ct_units := UpdateUnit (ct_units c) u\<rparr>"
  have state: "in_turn c [UpdateState i st m] ?c" "in_turn c1 [UpdateState i st m] c1" for i st m c1
    by (simp_all add: in_turn_def)
  consider "eff = []" "ct_runner c' = ct_runner c"
    | c1 eff1 eff2 where "stopShipper env ?c = Handled (c1, eff1)" "eff = [UpdateState (u_ID u) Stopping ''shipper is restarting''] @ (eff1 @ eff2)"
        "startShipper env c1 u = Handled (c', eff2)"
    | eff1 where "stopShipper env ?c = Handled (c', eff1)"
        "eff = [UpdateState (u_ID u) Stopping ''shipper is stopping''] @ (eff1 @ [UpdateState (u_ID u) Stopped ''shipper is stopped''])"
    using assms by (fastforce simp: updateShipperOutput_def Let_def after_Handled andThen_Handled split: if_splits)
  then show ?thesis
  proof cases
    case 1
    then show ?thesis by (simp add: in_turn_def)
  next
    case 2
    with startShipper_in_turn [OF 2(3)] stopShipper_fields [OF 2(1)] stopShipper_in_turn [OF 2(1)] show ?thesis
      unfolding 2(2) by (intro in_turn_trans [OF state(1)] in_turn_trans) auto
  next
    case 3
    show ?thesis
      unfolding 3(2) by (intro in_turn_trans [OF state(1)] in_turn_trans [OF stopShipper_in_turn [OF 3(1)]] state(2))
  qed
qed

lemma handle_change_in_turn:
  assumes "handle_change env io c (k, u) = Handled (c', eff)"
    and "k = UnitChangedAdded \<Longrightarrow> u_Type u = UnitTypeOutput \<Longrightarrow> \<not> runner_IsInitialized (ct_runner c)"
  shows "in_turn c eff c'"
proof (cases k)
  case UnitChangedAdded
  let ?c = "c\<lparr>ct_units := AddUnit (ct_units c) u\<rparr>"
  have "in_turn ?c eff c'"
    using assms UnitChangedAdded endpoint_in_turn(1) [of env io ?c] startShipper_in_turn [of env ?c]
    by (cases "u_Type u") (simp_all add: handle_change_def handleUnitAdded_def)
  then show ?thesis by (simp add: in_turn_def)
next
  case UnitChangedModified
  with assms(1) show ?thesis
    by (auto simp: handle_change_def handleUnitUpdated_def Let_def updateInput_def dest!: updateShipperOutput_in_turn
        split: unit_type.splits if_splits) (simp_all add: in_turn_def)
next
  case UnitChangedRemoved
  let ?c = "c\<lparr>ct_units := DeleteUnit (ct_units c) u\<rparr>"
  have "in_turn ?c eff c'"
    using assms(1) UnitChangedRemoved
    by (auto simp: handle_change_def handleUnitRemoved_def Let_def andThen_Handled split: if_splits
        intro!: in_turn_trans dest!: endpoint_in_turn(2)) (simp_all add: in_turn_def)
  then show ?thesis by (simp add: in_turn_def)
qed

text \<open>Output units are added only while the runner is not running.\<close>

fun added_when_stopped ::
    "('q, 'e, 'x, 'src, 'raw) controller_env \<Rightarrow> ('q, 'x, 'src) controller \<Rightarrow> 'src ctl_input list \<Rightarrow> bool" where
  "added_when_stopped env c (Change io (k, u) # inputs) \<longleftrightarrow>
     \<not> (k = UnitChangedAdded \<and> u_Type u = UnitTypeOutput \<and> runner_IsInitialized (ct_runner c)) \<and>
     (case handle_change env io c (k, u) of Handled (c', eff) \<Rightarrow> added_when_stopped env c' inputs | _ \<Rightarrow> True)"
| "added_when_stopped env c _ \<longleftrightarrow> True"

lemma shutdown_in_turn: "shutdown env c = Handled (c', eff) \<Longrightarrow> in_turn c eff c'"
  by (auto simp: shutdown_def andThen_Handled intro: in_turn_trans endpoint_in_turn(2) stopShipper_in_turn)

lemma run_loop_in_turn:
  assumes "run_loop env c inputs = (Handled (c', eff), returned)" "added_when_stopped env c inputs"
  shows "in_turn c eff c'"
  using assms
proof (induction env c inputs arbitrary: eff rule: run_loop.induct)
  case (4 env c io ku inputs)
  obtain k u where ku: "ku = (k, u)" by force
  obtain c1 eff1 where h: "handle_change env io c (k, u) = Handled (c1, eff1)"
    using 4(2) ku by (cases "handle_change env io c ku") auto
  obtain eff2 where r: "run_loop env c1 inputs = (Handled (c', eff2), returned)" and eff: "eff = eff1 @ eff2"
    using 4(2) ku h by (auto simp: after_Handled split: prod.splits)
  have "in_turn c eff1 c1" using 4(3) ku by (intro handle_change_in_turn [OF h]) auto
  moreover have "in_turn c1 eff2 c'" using 4(1) [OF _ refl r] 4(3) h ku by simp
  ultimately show ?case unfolding eff by (rule in_turn_trans)
qed (auto dest: shutdown_in_turn simp: in_turn_def)

text \<open>C5: a managed run never has two queues open and leaves none behind: whatever units come, with whatever errors of
  their starts, if output units are only added while the runner is not running, the queues are opened and closed in turn, and
  the last one is open exactly if the runner is initialized then; when the loop returns, every queue that was
  opened has been closed. In particular every restart closes the old queue before it opens the new one.\<close>

theorem queues_open_and_close_in_turn:
  assumes "runController env None lvl inputs = Inr (Handled (c', eff), returned)"
    and "added_when_stopped env (newClientHandler lvl) inputs"
  shows "(\<exists>n. concat (map queue_event_of eff) = concat (replicate n [QueueOpened, QueueClosed]) @
      (if runner_IsInitialized (ct_runner c') then [QueueOpened] else [])) \<and>
    (returned \<longrightarrow> \<not> runner_IsInitialized (ct_runner c'))"
proof -
  have run: "run_loop env (newClientHandler lvl) inputs = (Handled (c', eff), returned)"
    using assms(1) by (simp add: runController_def)
  from run_loop_in_turn [OF this assms(2)] have "turns False (queue_events eff) = Some (runner_IsInitialized (ct_runner c'))"
    by (simp add: in_turn_def newClientHandler_def NewOutputServer_def runner_IsInitialized_def)
  from turns_alternate [OF this] run show ?thesis by (cases returned) (auto dest: run_loop_shutdown)
qed

section \<open>Examples\<close>

definition example_env :: "(nat fifo, nat, string, string, string) controller_env" where
  "example_env = \<lparr>env_bq = fifo_queue, env_runner = example_runner_lib, env_config = example_config_lib,
     env_Close_returns = \<lambda>_. True, env_calls_end = \<lambda>_. True\<rparr>"

lemma example_waits_end: "waits_end example_env"
  by (simp add: waits_end_def example_env_def)

definition example_unit :: "unit_type \<Rightarrow> string ctl_unit" where
  "example_unit t = \<lparr>u_ID = ''u1'', u_Type = t, u_State = Healthy, u_LogLevel = UnitLogLevelInfo,
     u_Source = ''console''\<rparr>"

lemma example_added:
  "\<exists>c eff. handleUnitAdded example_env good_io (newClientHandler InfoLevel) (example_unit UnitTypeInput) =
     Handled (c, eff)"
  by (simp add: handleUnitAdded_def example_unit_def newClientHandler_def addInput_def example_env_def
      example_config_lib_def startgRPC_def handler_Start_def NewShipperServer_def good_io_def
      NewGRPCServer_def start_defs)

theorem controller_tracks_live_inputs_witness:
  "\<exists>c' eff. runController example_env None InfoLevel
       [Change good_io (UnitChangedAdded, example_unit UnitTypeInput)] = Inr (Handled (c', eff), False) \<and>
     AvailableUnitCount (ct_units c') = 1"
proof -
  obtain c eff where "handleUnitAdded example_env good_io (newClientHandler InfoLevel)
      (example_unit UnitTypeInput) = Handled (c, eff)" using example_added by blast
  then have run: "runController example_env None InfoLevel
      [Change good_io (UnitChangedAdded, example_unit UnitTypeInput)] = Inr (Handled (c, eff), False)"
    by (simp add: handle_change_def runController_def)
  from controller_tracks_live_inputs [OF run] run show ?thesis by (simp add: live_step_def example_unit_def)
qed

theorem last_input_removed_stops_endpoint_witness:
  "\<exists>c' eff. handleUnitRemoved example_env (newClientHandler InfoLevel)
       (example_unit UnitTypeInput) = Handled (c', eff) \<and> ih_server (ct_grpc c') = None"
proof -
  let ?c = "newClientHandler InfoLevel :: (nat fifo, string, string) controller"
  obtain c' eff where h: "handleUnitRemoved example_env ?c (example_unit UnitTypeInput) = Handled (c', eff)"
    by (simp add: handleUnitRemoved_def newClientHandler_def NewUnitMap_def DeleteUnit_def
        AvailableUnitCount_def example_unit_def stopGRPC_def handler_Stop_def NewGRPCServer_def)
  have "unit_map_wf (ct_units ?c)" "input_ids (ct_units ?c) = {}"
    by (simp_all add: newClientHandler_def units.wf_empty units.inputs_empty)
  with last_input_removed_stops_endpoint [OF h] h show ?thesis by (auto simp: live_step_def)
qed

theorem controller_shutdown_witness:
  "\<exists>c' eff. runController example_env None InfoLevel [Signal] = Inr (Handled (c', eff), True) \<and>
     \<not> runner_IsInitialized (ct_runner c')"
proof -
  obtain c' eff where h: "runController example_env None InfoLevel [Signal] = Inr (Handled (c', eff), True)"
    by (simp add: runController_def shutdown_def stopGRPC_def handler_Stop_def newClientHandler_def NewGRPCServer_def
        stopShipper_def runner_Close_def example_env_def)
  with controller_shutdown [OF h] show ?thesis by blast
qed

lemma example_console_start:
  "\<exists>r. runner_Start example_runner_lib (NewOutputServer :: (nat fifo, string) server_runner)
     (root_DefaultConfig\<lparr>rt_Type := ''console'',
        rt_Shipper := (rt_Shipper root_DefaultConfig)\<lparr>sh_Output :=
          (sh_Output (rt_Shipper root_DefaultConfig))\<lparr>oc_Console := Some True\<rparr>\<rparr>\<rparr>) = Return (r, None)"
  by (simp add: runner_Start_def example_runner_lib_def root_DefaultConfig_def queue_New_def
      queue_DefaultConfig_def useDiskQueue_def NewFromConfig_def start_output_def outputFromConfig_def)

theorem log_level_update_restarts_nothing_witness:
  "\<exists>c1 eff1. handleUnitAdded example_env good_io (newClientHandler InfoLevel) (example_unit UnitTypeOutput) =
       Handled (c1, eff1) \<and>
     handleUnitUpdated example_env c1 ((example_unit UnitTypeOutput)\<lparr>u_LogLevel := UnitLogLevelDebug\<rparr>) =
       Handled (c1\<lparr>ct_level := DebugLevel\<rparr>, [UpdateState ''u1'' Healthy ''log level changed''])"
proof -
  obtain r where r: "runner_Start example_runner_lib (NewOutputServer :: (nat fifo, string) server_runner)
     (root_DefaultConfig\<lparr>rt_Type := ''console'',
        rt_Shipper := (rt_Shipper root_DefaultConfig)\<lparr>sh_Output :=
          (sh_Output (rt_Shipper root_DefaultConfig))\<lparr>oc_Console := Some True\<rparr>\<rparr>\<rparr>) = Return (r, None)"
    using example_console_start by blast
  obtain c1 eff1 where h: "handleUnitAdded example_env good_io (newClientHandler InfoLevel)
      (example_unit UnitTypeOutput) = Handled (c1, eff1)"
    using r by (simp add: handleUnitAdded_def example_unit_def newClientHandler_def startShipper_def
      example_env_def ShipperConfigFromUnitConfig_def example_config_lib_def unpack_output_def
      esKey_def kafaKey_def consoleKey_def)
  from log_level_update_restarts_nothing [OF h, of UnitLogLevelDebug] h show ?thesis
    by (auto simp: example_unit_def)
qed

theorem unmanaged_run_leaves_endpoint_witness:
  "\<exists>r h. RunUnmanaged example_env (\<lambda>c k. None) good_io (root_DefaultConfig\<lparr>rt_Type := ''console'',
        rt_Shipper := (rt_Shipper root_DefaultConfig)\<lparr>sh_Output :=
          (sh_Output (rt_Shipper root_DefaultConfig))\<lparr>oc_Console := Some True\<rparr>\<rparr>\<rparr>) = Handled (r, h, None) \<and>
     ih_server h = Some Serving"
proof -
  let ?cfg = "(root_DefaultConfig :: string root_config)\<lparr>rt_Type := ''console'',
        rt_Shipper := (rt_Shipper root_DefaultConfig)\<lparr>sh_Output :=
          (sh_Output (rt_Shipper root_DefaultConfig))\<lparr>oc_Console := Some True\<rparr>\<rparr>\<rparr>"
  obtain r where r: "runner_Start example_runner_lib (NewOutputServer :: (nat fifo, string) server_runner) ?cfg =
      Return (r, None)"
    using example_console_start by blast
  obtain h eff where s: "handler_Start good_io NewGRPCServer (cc_Server (sh_Server (rt_Shipper ?cfg))) =
      Some (h, eff, None)"
    by (simp add: handler_Start_def NewShipperServer_def good_io_def NewGRPCServer_def start_defs)
  have run: "RunUnmanaged example_env (\<lambda>c k. None) good_io ?cfg =
      Handled (fst (runner_Close fifo_queue r), h, None)"
    using r s by (simp add: RunUnmanaged_def example_env_def example_config_lib_def)
  with unmanaged_run_leaves_endpoint [OF run] show ?thesis by blast
qed

lemma example_starts_safely: "starts_safely example_env"
proof -
  have "\<exists>b. cfg = set_output (\<lambda>o'. o'\<lparr>oc_Console := b\<rparr>) (root_DefaultConfig\<lparr>rt_Type := src\<rparr>)"
    if "ShipperConfigFromUnitConfig example_config_lib lvl new src = (lvl', Inr cfg)" for lvl new src lvl' cfg
    using that
    by (auto simp: ShipperConfigFromUnitConfig_def Let_def example_config_lib_def unpack_output_def
        root_DefaultConfig_def split: if_splits)
  then show ?thesis
    by (fastforce simp: starts_safely_def example_env_def runner_Start_def example_runner_lib_def
        root_DefaultConfig_def queue_New_def queue_DefaultConfig_def useDiskQueue_def NewFromConfig_def
        start_output_def outputFromConfig_def split: option.splits)
qed

theorem controller_returns_witness:
  "\<exists>c' eff. runController example_env None InfoLevel
     [Change (good_io\<lparr>io_newListener := Some (NewError ''in use'')\<rparr>) (UnitChangedAdded, example_unit UnitTypeInput),
      Change good_io (UnitChangedAdded, (example_unit UnitTypeOutput)\<lparr>u_ID := ''u2''\<rparr>), Signal] =
     Inr (Handled (c', eff), True)"
  by (rule controller_returns [OF example_starts_safely example_waits_end]) (simp_all add: socket_stuck_def good_io_def)

theorem queues_open_and_close_in_turn_witness:
  "\<exists>c' eff. runController example_env None InfoLevel
       [Change good_io (UnitChangedAdded, example_unit UnitTypeOutput),
        Change good_io (UnitChangedModified, example_unit UnitTypeOutput), Signal] = Inr (Handled (c', eff), True) \<and>
     concat (map queue_event_of eff) = concat (replicate 2 [QueueOpened, QueueClosed]) \<and>
     \<not> runner_IsInitialized (ct_runner c')"
proof -
  let ?inputs = "[Change good_io (UnitChangedAdded, example_unit UnitTypeOutput),
        Change good_io (UnitChangedModified, example_unit UnitTypeOutput), Signal]"
  have cfg: "ShipperConfigFromUnitConfig example_config_lib lvl UnitLogLevelInfo ''console'' = (InfoLevel, Inr
      (root_DefaultConfig\<lparr>rt_Type := ''console'',
        rt_Shipper := (rt_Shipper root_DefaultConfig)\<lparr>sh_Output :=
          (sh_Output (rt_Shipper root_DefaultConfig))\<lparr>oc_Console := Some True\<rparr>\<rparr>\<rparr>))" for lvl
    by (simp add: ShipperConfigFromUnitConfig_def Let_def example_config_lib_def unpack_output_def esKey_def kafaKey_def consoleKey_def)
  let ?r = "\<lparr>sr_queue = Some \<lparr>queue_cfg = queue_DefaultConfig, eventQueue = fifo_new 4096\<rparr>,
    sr_monitoring = Some \<lparr>logReporter = '''', httpHandler = None, queueLimitCount = 0\<rparr>, sr_out = Some ConsoleOutput\<rparr>
    :: (nat fifo, string) server_runner"
  have r: "runner_Start example_runner_lib r0
     (root_DefaultConfig\<lparr>rt_Type := ''console'',
        rt_Shipper := (rt_Shipper root_DefaultConfig)\<lparr>sh_Output :=
          (sh_Output (rt_Shipper root_DefaultConfig))\<lparr>oc_Console := Some True\<rparr>\<rparr>\<rparr>) = Return (?r, None)" for r0
    by (cases r0) (simp add: runner_Start_def example_runner_lib_def root_DefaultConfig_def
      queue_New_def queue_DefaultConfig_def useDiskQueue_def NewFromConfig_def start_output_def outputFromConfig_def Let_def)
  obtain c' eff where run: "runController example_env None InfoLevel ?inputs = Inr (Handled (c', eff), True)"
      and four: "length (queue_events eff) = 4"
    using r
    by (simp add: runController_def handle_change_def handleUnitAdded_def handleUnitUpdated_def updateShipperOutput_def
      example_unit_def example_env_def startShipper_def cfg newClientHandler_def Let_def
      onlyLogLevelUpdated_def shutdown_def stopGRPC_def handler_Stop_def NewGRPCServer_def stopShipper_def runner_Close_def)
  have "added_when_stopped example_env (newClientHandler InfoLevel) ?inputs"
    by (simp add: newClientHandler_def NewOutputServer_def runner_IsInitialized_def split: handled.split)
  with queues_open_and_close_in_turn [OF run] obtain n where
    n: "queue_events eff = concat (replicate n [QueueOpened, QueueClosed])" "\<not> runner_IsInitialized (ct_runner c')"
    by auto
  have "length (concat (replicate n [QueueOpened, QueueClosed])) = 2 * n" by (induction n) simp_all
  with n(1) four have "n = 2" by simp
  with n run show ?thesis by blast
qed

theorem output_restart_keeps_uuid_witness:
  "\<exists>c' eff. updateShipperOutput example_env (newClientHandler InfoLevel) (example_unit UnitTypeOutput) = Handled (c', eff) \<and>
     (\<forall>q. sr_queue (ct_runner c') = Some q \<longrightarrow>
       (\<exists>qc. queue_New (rl_DefaultSettings (env_runner example_env)) (rl_pbkdf2_Key (env_runner example_env))
         (rl_diskqueue (env_runner example_env)) (rl_memqueue (env_runner example_env)) qc =
         Return (Inr q)))"
proof -
  have "unlocked (updateShipperOutput example_env (newClientHandler InfoLevel) (example_unit UnitTypeOutput))"
    by (simp add: updateShipperOutput_def example_unit_def Let_def newClientHandler_def NewGRPCServer_def
        startShipper_unlocked stop_unlocked unlocked_andThen example_starts_safely example_waits_end)
  then obtain c' eff where "updateShipperOutput example_env (newClientHandler InfoLevel) (example_unit UnitTypeOutput) =
      Handled (c', eff)" by (auto elim: unlockedE)
  with output_restart_keeps_uuid [OF this] show ?thesis by (simp add: example_unit_def)
qed

end
