(* ===== verification/Lifecycle.thy ===== *)
theory Lifecycle
  imports Persistence Controller
begin

text \<open>
  The runner over several configurations. Every \<open>Start\<close> of the runner (\<^verbatim>\<open>src/publisherserver/server.go\<close>) makes
  a new queue and a new output; the controller (\<^verbatim>\<open>src/controller/controller_client.go\<close>) calls it for every
  output unit that is added and, after a \<open>Close\<close>, for every one that is updated. The output of an earlier
  start goes on with the queue it was given. A generation is the pipeline of one start; the theory shows
  that each generation conserves its events, that the controller's handlers are runs of this machine,
  and what a restart means for accepted events and for subscribers of the persisted index.
\<close>

section \<open>Generations\<close>

text \<open>A generation: the runner as \<open>Start\<close> left it, and the pipeline since.\<close>

record ('q, 'x, 'e) generation =
  gn_start :: "('q, 'x) server_runner"
  gn_pipe :: "('q, 'x, 'e) pipeline"

record ('q, 'x, 'e) lifecycle =
  lf_now :: "('q, 'x, 'e) generation"
  lf_old :: "('q, 'x, 'e) generation list"

definition new_generation :: "('q, 'x) server_runner \<Rightarrow> ('q, 'x, 'e) generation" where
  "new_generation r = \<lparr>gn_start = r, gn_pipe = pipeline_init r\<rparr>"

abbreviation now_runner :: "('q, 'x, 'e) lifecycle \<Rightarrow> ('q, 'x) server_runner" where
  "now_runner s \<equiv> pl_runner (gn_pipe (lf_now s))"

inductive lifecycle_step ::
    "('q, 'x) runner_lib \<Rightarrow> ('q, 'e) beats_queue \<Rightarrow> ('q, 'x, 'e) lifecycle \<Rightarrow> ('q, 'x, 'e) lifecycle \<Rightarrow> bool"
    for lib bq where
  now: "pipeline_step bq (gn_pipe (lf_now s)) p \<Longrightarrow> lifecycle_step lib bq s (s\<lparr>lf_now := (lf_now s)\<lparr>gn_pipe := p\<rparr>\<rparr>)"
| old: "i < length (lf_old s) \<Longrightarrow> output_step bq (gn_pipe (lf_old s ! i)) p \<Longrightarrow>
    lifecycle_step lib bq s (s\<lparr>lf_old := (lf_old s)[i := (lf_old s ! i)\<lparr>gn_pipe := p\<rparr>]\<rparr>)"
| start: "runner_Start lib (now_runner s) cfg = Return (r, err) \<Longrightarrow>
    lifecycle_step lib bq s (s\<lparr>lf_now := new_generation r, lf_old := lf_old s @ [lf_now s]\<rparr>)"

abbreviation lifecycle_steps ::
    "('q, 'x) runner_lib \<Rightarrow> ('q, 'e) beats_queue \<Rightarrow> ('q, 'x, 'e) lifecycle \<Rightarrow> ('q, 'x, 'e) lifecycle \<Rightarrow> bool" where
  "lifecycle_steps lib bq \<equiv> (lifecycle_step lib bq)\<^sup>*\<^sup>*"

definition lifecycle_init :: "('q, 'x, 'e) lifecycle" where
  "lifecycle_init = \<lparr>lf_now = new_generation NewOutputServer, lf_old = []\<rparr>"

text \<open>What the queue of a generation held when it was opened: nothing for a memory queue; a disk queue resumes with
  the events left in its directory.\<close>

abbreviation resumed :: "('q \<Rightarrow> 'e list) \<Rightarrow> ('q, 'x, 'e) generation \<Rightarrow> 'e list" where
  "resumed pend g \<equiv> runner_pending pend (gn_start g)"

text \<open>A new memory queue is empty.\<close>

definition memory_starts_empty :: "('q, 'x) runner_lib \<Rightarrow> ('q \<Rightarrow> 'e list) \<Rightarrow> bool" where
  "memory_starts_empty lib pend \<longleftrightarrow> (\<forall>ms. pend (rl_memqueue lib ms) = [])"

lemma queue_New_memory:
  assumes "queue_New ds key disk mem qc = Return (Inr q)" "\<not> useDiskQueue (queue_cfg q)"
  shows "\<exists>ms. eventQueue q = mem ms"
  using assms by (auto simp: queue_New_def split: if_splits option.splits outcome.splits sum.splits)

lemma memory_start_empty:
  assumes "runner_Start lib r cfg = Return (r', err)" "memory_starts_empty lib pend"
    and "sr_queue r' = Some q" "\<not> useDiskQueue (queue_cfg q)"
  shows "runner_pending pend r' = []"
  using queue_New_memory [OF runner_Start_new_queue [OF assms(1,3)] assms(4)] assms(2,3)
  by (auto simp: runner_pending_def memory_starts_empty_def)

text \<open>The steps of a pipeline do not depend on what was accepted before them, so the resumed events can be counted
  as accepted first.\<close>

definition with_resumed :: "'e list \<Rightarrow> ('q, 'x, 'e) pipeline \<Rightarrow> ('q, 'x, 'e) pipeline" where
  "with_resumed es s = s\<lparr>pl_accepted := es @ pl_accepted s\<rparr>"

lemma with_resumed_fields [simp]:
  "pl_runner (with_resumed es s) = pl_runner s" "pl_closed (with_resumed es s) = pl_closed s"
  "pl_inflight (with_resumed es s) = pl_inflight s" "pl_batches (with_resumed es s) = pl_batches s"
  "pl_completed (with_resumed es s) = pl_completed s" "pl_accepted (with_resumed es s) = es @ pl_accepted s"
  "out_queue (with_resumed es s) = out_queue s"
  "set_out_queue (with_resumed es s) q = with_resumed es (set_out_queue s q)"
  by (simp_all add: with_resumed_def out_queue_def set_out_queue_def split: option.split)

lemma with_resumed_updates [simp]:
  "(with_resumed es s)\<lparr>pl_runner := r\<rparr> = with_resumed es (s\<lparr>pl_runner := r\<rparr>)"
  "(with_resumed es s)\<lparr>pl_closed := q\<rparr> = with_resumed es (s\<lparr>pl_closed := q\<rparr>)"
  "(with_resumed es s)\<lparr>pl_inflight := ws\<rparr> = with_resumed es (s\<lparr>pl_inflight := ws\<rparr>)"
  "(with_resumed es s)\<lparr>pl_batches := ws\<rparr> = with_resumed es (s\<lparr>pl_batches := ws\<rparr>)"
  "(with_resumed es s)\<lparr>pl_completed := ids\<rparr> = with_resumed es (s\<lparr>pl_completed := ids\<rparr>)"
  "(with_resumed es s)\<lparr>pl_accepted := es @ as\<rparr> = with_resumed es (s\<lparr>pl_accepted := as\<rparr>)"
  by (simp_all add: with_resumed_def)

lemma output_step_resumed:
  assumes "output_step bq s s'"
  shows "output_step bq (with_resumed es s) (with_resumed es s')"
  using assms
proof cases
  case (get q n q' w)
  with output_step.get [of "with_resumed es s" q bq n q' w] show ?thesis by simp
next
  case (get_fails q n q' err)
  with output_step.get_fails [of "with_resumed es s" q bq n q' err] show ?thesis by simp
next
  case (done_call q i n w effs)
  with output_step.done_call [of "with_resumed es s" q i n w effs bq] show ?thesis by simp
qed

lemma pipeline_step_resumed:
  assumes "pipeline_step bq s s'"
  shows "pipeline_step bq (with_resumed es s) (with_resumed es s')"
  using assms
proof cases
  case (publish e r res)
  with pipeline_step.publish [of bq "with_resumed es s" e r res] show ?thesis by simp
next
  case (try_publish e r res)
  with pipeline_step.try_publish [of bq "with_resumed es s" e r res] show ?thesis by simp
next
  case by_output
  then show ?thesis by (intro pipeline_step.by_output output_step_resumed)
next
  case (close r q effs)
  with pipeline_step.close [of bq "with_resumed es s" r q effs] show ?thesis by simp
next
  case (close_again r effs)
  with pipeline_step.close_again [of bq "with_resumed es s" r effs] show ?thesis by simp
qed

text \<open>A generation whose queue could not be created accepts nothing.\<close>

definition pipe_ok :: "('q \<Rightarrow> 'e list) \<Rightarrow> 'e list \<Rightarrow> ('q, 'x, 'e) pipeline \<Rightarrow> bool" where
  "pipe_ok pend es s \<longleftrightarrow>
     (if out_queue s = None then es = [] \<and> pl_accepted s = [] \<and> pl_batches s = [] else conserved pend (with_resumed es s))"

lemma pipe_ok_output:
  assumes "pipe_ok pend es s" "output_step bq s s'" "queue_laws bq pend"
  shows "pipe_ok pend es s'"
proof -
  have "out_queue s \<noteq> None" using assms(2) by cases auto
  with assms have "conserved pend (with_resumed es s')"
    using conserved_output_step [OF output_step_resumed [OF assms(2)]] by (auto simp: pipe_ok_def)
  then show ?thesis by (auto simp: pipe_ok_def conserved_def)
qed

lemma pipe_ok_step:
  assumes "pipe_ok pend es s" "pipeline_step bq s s'" "queue_laws bq pend"
  shows "pipe_ok pend es s'"
proof (cases "out_queue s = None")
  case False
  with assms have "conserved pend (with_resumed es s')"
    using conserved_step [OF pipeline_step_resumed [OF assms(2)]] by (auto simp: pipe_ok_def)
  then show ?thesis by (auto simp: pipe_ok_def conserved_def)
next
  case True
  then have none: "sr_queue (pl_runner s) = None" "pl_closed s = None"
    by (auto simp: out_queue_def split: option.splits)
  from assms(2) show ?thesis
  proof cases
    case (publish e r res)
    with none True assms(1) publish_runner_fields(1) [OF publish(2)] show ?thesis by (simp add: pipe_ok_def out_queue_def)
  next
    case (try_publish e r res)
    with none True assms(1) publish_runner_fields(2) [OF try_publish(2)] show ?thesis by (simp add: pipe_ok_def out_queue_def)
  next
    case by_output
    with assms pipe_ok_output show ?thesis by blast
  next
    case (close r q effs)
    with none show ?thesis by (auto simp: runner_Close_def)
  next
    case (close_again r effs)
    with none True assms(1) show ?thesis by (auto simp: runner_Close_def pipe_ok_def out_queue_def)
  qed
qed

lemma pipe_ok_init: "pipe_ok pend (runner_pending pend r) (pipeline_init r)"
  by (auto simp: pipe_ok_def conserved_def pipeline_init_def with_resumed_def out_queue_def waiting_def taken_def fresh_batches_def
      runner_pending_def split: option.split)

text \<open>Every generation began with a start, the first one apart, and conserves its events.\<close>

definition generation_ok :: "('q, 'x) runner_lib \<Rightarrow> ('q \<Rightarrow> 'e list) \<Rightarrow> ('q, 'x, 'e) generation \<Rightarrow> bool" where
  "generation_ok lib pend g \<longleftrightarrow> pipe_ok pend (resumed pend g) (gn_pipe g) \<and>
     (gn_start g = NewOutputServer \<or> (\<exists>r cfg err. runner_Start lib r cfg = Return (gn_start g, err)))"

abbreviation generations :: "('q, 'x, 'e) lifecycle \<Rightarrow> ('q, 'x, 'e) generation list" where
  "generations s \<equiv> lf_old s @ [lf_now s]"

lemma generations_ok:
  assumes "lifecycle_steps lib bq lifecycle_init s" "queue_laws bq pend"
  shows "\<forall>g \<in> set (generations s). generation_ok lib pend g"
  using assms(1)
proof (induction rule: rtranclp_induct)
  case base
  show ?case by (simp add: lifecycle_init_def generation_ok_def new_generation_def pipe_ok_init)
next
  case (step s s')
  from step.hyps(2) show ?case
  proof cases
    case (now p)
    with step.IH pipe_ok_step [OF _ now(2) assms(2)] show ?thesis by (simp add: generation_ok_def)
  next
    case (old i p)
    have "generation_ok lib pend ((lf_old s ! i)\<lparr>gn_pipe := p\<rparr>)"
      using step.IH old(2) pipe_ok_output [OF _ old(3) assms(2)] by (simp add: generation_ok_def)
    with old(1) step.IH show ?thesis by (auto dest!: set_update_subset_insert [THEN subsetD])
  next
    case (start cfg r err)
    have "generation_ok lib pend (new_generation r)"
      using start(2) by (auto simp: generation_ok_def new_generation_def pipe_ok_init)
    with start(1) step.IH show ?thesis by simp
  qed
qed

lemma generation_conserves:
  assumes "generation_ok lib pend g"
  shows "resumed pend g @ pl_accepted (gn_pipe g) = taken (gn_pipe g) @ waiting pend (gn_pipe g)"
  using assms by (auto simp: generation_ok_def pipe_ok_def conserved_def taken_def waiting_def split: if_splits)

lemma generation_memory:
  assumes "generation_ok lib pend g" "memory_starts_empty lib pend"
    and "sr_queue (gn_start g) = Some q" "\<not> useDiskQueue (queue_cfg q)"
  shows "resumed pend g = []"
  using assms memory_start_empty [OF _ assms(2-4)] by (auto simp: generation_ok_def NewOutputServer_def)

text \<open>C4: over any number of starts, restarts and failed starts, with clients publishing and the outputs of
  all generations taking and acknowledging in any order, each generation conserves its events: what its queue held when it was
  opened, followed by what it accepted, is what its own output took, in order, followed by what waits in its own queue. No event
  moves from one generation to another within the program. A memory queue holds nothing when it is opened, so
  there what was accepted is what was taken and what waits; a disk queue may resume with events.\<close>

theorem generations_conserve:
  assumes "queue_laws bq pend" "memory_starts_empty lib pend" "lifecycle_steps lib bq lifecycle_init s"
  shows "\<forall>g \<in> set (lf_old s @ [lf_now s]).
    runner_pending pend (gn_start g) @ pl_accepted (gn_pipe g) = taken (gn_pipe g) @ waiting pend (gn_pipe g) \<and>
    (\<forall>q. sr_queue (gn_start g) = Some q \<and> \<not> useDiskQueue (queue_cfg q) \<longrightarrow>
      pl_accepted (gn_pipe g) = taken (gn_pipe g) @ waiting pend (gn_pipe g))"
proof
  fix g assume "g \<in> set (lf_old s @ [lf_now s])"
  with generations_ok [OF assms(3,1)] have ok: "generation_ok lib pend g" by blast
  with generation_conserves [OF ok] generation_memory [OF ok assms(2)]
  show "runner_pending pend (gn_start g) @ pl_accepted (gn_pipe g) = taken (gn_pipe g) @ waiting pend (gn_pipe g) \<and>
    (\<forall>q. sr_queue (gn_start g) = Some q \<and> \<not> useDiskQueue (queue_cfg q) \<longrightarrow>
      pl_accepted (gn_pipe g) = taken (gn_pipe g) @ waiting pend (gn_pipe g))"
    by fastforce
qed

section \<open>The controller's handlers\<close>

definition closed_now :: "('q, 'e) beats_queue \<Rightarrow> ('q, 'x, 'e) lifecycle \<Rightarrow> ('q, 'x, 'e) lifecycle" where
  "closed_now bq s = s\<lparr>lf_now := (lf_now s)\<lparr>gn_pipe := (gn_pipe (lf_now s))\<lparr>pl_runner := fst (runner_Close bq (now_runner s)),
     pl_closed := (case sr_queue (now_runner s) of None \<Rightarrow> pl_closed (gn_pipe (lf_now s)) | Some q \<Rightarrow> Some (fst (queue_Close bq q)))\<rparr>\<rparr>\<rparr>"

definition all_accepted :: "('q, 'x, 'e) lifecycle \<Rightarrow> 'e list" where
  "all_accepted s = concat (map (\<lambda>g. pl_accepted (gn_pipe g)) (lf_old s @ [lf_now s]))"

lemma closed_now_step: "lifecycle_step lib bq s (closed_now bq s)"
  unfolding closed_now_def
proof (rule lifecycle_step.now)
  let ?p = "gn_pipe (lf_now s)" and ?r = "fst (runner_Close bq (now_runner s))"
  show "pipeline_step bq ?p (?p\<lparr>pl_runner := ?r, pl_closed :=
      (case sr_queue (now_runner s) of None \<Rightarrow> pl_closed ?p | Some q \<Rightarrow> Some (fst (queue_Close bq q)))\<rparr>)"
  proof (cases "sr_queue (now_runner s)")
    case None
    have "pipeline_step bq ?p (?p\<lparr>pl_runner := ?r\<rparr>)"
      by (rule pipeline_step.close_again) (simp add: runner_Close_def None)
    with None show ?thesis by simp
  next
    case (Some q)
    have "pipeline_step bq ?p (?p\<lparr>pl_runner := ?r, pl_closed := Some (fst (queue_Close bq q))\<rparr>)"
      by (rule pipeline_step.close) (simp add: runner_Close_def Some)
    with Some show ?thesis by simp
  qed
qed

lemma closed_now_fields:
  "all_accepted (closed_now bq s) = all_accepted s"
  "stopShipper env c = Handled (c', eff) \<Longrightarrow> now_runner s = ct_runner c \<Longrightarrow>
   now_runner (closed_now (env_bq env) s) = ct_runner c'"
  by (auto simp: closed_now_def all_accepted_def dest: stopShipper_fields)

lemma startShipper_lifecycle:
  assumes "startShipper env c u = Handled (c', eff)" "now_runner s = ct_runner c"
  shows "\<exists>s'. lifecycle_steps (env_runner env) bq s s' \<and> now_runner s' = ct_runner c' \<and> all_accepted s' = all_accepted s"
proof -
  consider "ct_runner c' = ct_runner c"
    | cfg err where "runner_Start (env_runner env) (ct_runner c) cfg = Return (ct_runner c', err)"
    using assms(1)
    by (auto simp: startShipper_def after_Handled split: prod.splits sum.splits outcome.splits option.splits)
  then show ?thesis
  proof cases
    case 1
    with assms(2) show ?thesis by auto
  next
    case 2
    let ?s = "s\<lparr>lf_now := new_generation (ct_runner c'), lf_old := lf_old s @ [lf_now s]\<rparr>"
    have "lifecycle_step (env_runner env) bq s ?s"
      using 2 assms(2) by (intro lifecycle_step.start) simp
    then show ?thesis by (intro exI [of _ ?s]) (auto simp: new_generation_def pipeline_init_def all_accepted_def)
  qed
qed

lemma input_handlers_keep_runner:
  "addInput env io c u = Handled (c', eff) \<Longrightarrow> ct_runner c' = ct_runner c"
  "handleUnitRemoved env c u = Handled (c', eff) \<Longrightarrow> ct_runner c' = ct_runner c"
  by (auto simp: addInput_def startgRPC_def after_Handled dest: handleUnitRemoved_Handled
      split: sum.splits option.splits prod.splits)

lemma updateShipperOutput_lifecycle:
  assumes "updateShipperOutput env c u = Handled (c', eff)" "now_runner s = ct_runner c"
  shows "\<exists>s'. lifecycle_steps (env_runner env) (env_bq env) s s' \<and> now_runner s' = ct_runner c' \<and>
    all_accepted s' = all_accepted s"
proof -
  let ?c = "c\<lparr>ct_units := UpdateUnit (ct_units c) u\<rparr>" and ?s1 = "closed_now (env_bq env) s"
  have s1: "lifecycle_steps (env_runner env) (env_bq env) s ?s1" "all_accepted ?s1 = all_accepted s"
    using closed_now_step closed_now_fields(1) by (auto intro: r_into_rtranclp)
  have stopped: "now_runner ?s1 = ct_runner c1" if "stopShipper env ?c = Handled (c1, eff1)" for c1 eff1
    using closed_now_fields(2) [OF that] assms(2) by simp
  consider "ct_runner c' = ct_runner c" | eff1 where "stopShipper env ?c = Handled (c', eff1)"
    | c1 eff1 eff2 where "stopShipper env ?c = Handled (c1, eff1)" "startShipper env c1 u = Handled (c', eff2)"
    using assms(1) by (auto simp: updateShipperOutput_def Let_def after_Handled andThen_Handled split: if_splits)
  then show ?thesis
  proof cases
    case 3
    from startShipper_lifecycle [OF 3(2) stopped [OF 3(1)], of "env_bq env"] s1 show ?thesis by (metis rtranclp_trans)
  qed (use assms(2) s1 stopped in auto)
qed

text \<open>The controller drives the runner only through its life cycle: every unit change it handles is a run of the machine above, from
  the runner it had to the one it has afterwards, and accepts no event itself. So what holds of life
  cycles holds of a controller that is fed any changes.\<close>

lemma handlers_run_lifecycle:
  assumes "handle_change env io c ku = Handled (c', eff)" "now_runner s = ct_runner c"
  shows "\<exists>s'. lifecycle_steps (env_runner env) (env_bq env) s s' \<and> now_runner s' = ct_runner c' \<and>
    all_accepted s' = all_accepted s"
proof -
  obtain k u where ku: "ku = (k, u)" by force
  show ?thesis
  proof (cases "ct_runner c' = ct_runner c")
    case True
    with assms(2) show ?thesis by auto
  next
    case False
    with assms(1) ku input_handlers_keep_runner consider
        eff' where "startShipper env (c\<lparr>ct_units := AddUnit (ct_units c) u\<rparr>) u = Handled (c', eff')"
      | "updateShipperOutput env c u = Handled (c', eff)"
      by (fastforce simp: handle_change_def handleUnitAdded_def handleUnitUpdated_def updateInput_def Let_def
          split: unit_change.splits unit_type.splits if_splits)
    then show ?thesis
    proof cases
      case 1
      from startShipper_lifecycle [OF 1, of s "env_bq env"] assms(2) show ?thesis by auto
    next
      case 2
      then show ?thesis using assms(2) by (rule updateShipperOutput_lifecycle)
    qed
  qed
qed

section \<open>What a restart means\<close>

lemma restart_new_queue:
  assumes "updateShipperOutput env c u = Handled (c', eff)" "u_Type u = UnitTypeOutput" "u_State u = Healthy"
    and "sr_queue (ct_runner c') = Some q"
  shows "uuid_of c' = uuid_of c \<and> (\<exists>qc. queue_New (rl_DefaultSettings (env_runner env)) (rl_pbkdf2_Key (env_runner env))
        (rl_diskqueue (env_runner env)) (rl_memqueue (env_runner env)) qc = Return (Inr q))"
proof -
  obtain c1 eff1 eff2 where stop: "stopShipper env (c\<lparr>ct_units := UpdateUnit (ct_units c) u\<rparr>) = Handled (c1, eff1)"
      and start: "startShipper env c1 u = Handled (c', eff2)"
    using assms(1-3) by (auto simp: updateShipperOutput_def Let_def after_Handled andThen_Handled)
  have "uuid_of c1 = uuid_of c" "\<not> runner_IsInitialized (ct_runner c1)"
    using stopShipper_fields [OF stop] by (auto simp: uuid_of_def)
  with startShipper_restart [OF start] assms(4) show ?thesis by auto
qed

text \<open>C28: a restart into a memory queue drops what waits: when the output unit is updated and the new queue, if one could be created, is a memory
  queue, the events that were accepted, or resumed, but not yet taken by the output are in no queue the runner has afterwards, though their clients were told
  that they are accepted. What the output has taken, and these, are all there was. (A new disk queue resumes
  with what its directory holds.)\<close>

theorem restart_drops_waiting:
  assumes "queue_laws (env_bq env) pend" "memory_starts_empty (env_runner env) pend"
    and "lifecycle_steps (env_runner env) (env_bq env) lifecycle_init s" "pl_runner (gn_pipe (lf_now s)) = ct_runner c"
    and "updateShipperOutput env c u = Handled (c', eff)" "u_Type u = UnitTypeOutput" "u_State u = Healthy"
    and "\<forall>q. sr_queue (ct_runner c') = Some q \<longrightarrow> \<not> useDiskQueue (queue_cfg q)"
  shows "runner_pending pend (gn_start (lf_now s)) @ pl_accepted (gn_pipe (lf_now s)) =
      taken (gn_pipe (lf_now s)) @ waiting pend (gn_pipe (lf_now s)) \<and>
    runner_pending pend (ct_runner c') = []"
proof
  have "generation_ok (env_runner env) pend (lf_now s)" using generations_ok [OF assms(3,1)] by simp
  then show "resumed pend (lf_now s) @ pl_accepted (gn_pipe (lf_now s)) =
      taken (gn_pipe (lf_now s)) @ waiting pend (gn_pipe (lf_now s))"
    by (rule generation_conserves)
  show "runner_pending pend (ct_runner c') = []"
  proof (cases "sr_queue (ct_runner c')")
    case (Some q)
    with restart_new_queue [OF assms(5-7) Some] assms(8) queue_New_memory assms(2) show ?thesis
      by (fastforce simp: runner_pending_def memory_starts_empty_def)
  qed (simp add: runner_pending_def)
qed

text \<open>The ledger of a new memory queue is empty.\<close>

definition starts_unreleased :: "('q, 'x) runner_lib \<Rightarrow> ('q \<Rightarrow> ledger) \<Rightarrow> bool" where
  "starts_unreleased lib ledger \<longleftrightarrow> (\<forall>ms. ledger (rl_memqueue lib ms) = [])"

text \<open>C29: across a restart a subscriber's index falls, and nothing tells it why: if the persisted index had
  advanced, a stream that polls once before and once after the restart is sent the index and then the
  smaller first index of the new queue, on the same stream and from a service with the same UUID.\<close>

theorem index_falls_on_restart:
  assumes "release_laws (env_bq env) ledger first" "starts_unreleased (env_runner env) ledger"
    and "updateShipperOutput env c u = Handled (c', eff)" "u_Type u = UnitTypeOutput" "u_State u = Healthy"
    and "runner_PersistedIndex (env_bq env) (ct_runner c) = Inr i" "word_of_nat first < i"
    and "sr_queue (ct_runner c') = Some q" "\<not> useDiskQueue (queue_cfg q)"
    and "runner_PersistedIndex (env_bq env) (ct_runner c') = Inr j" "0 < sint interval"
  shows "PersistedIndex (runner_ops (env_bq env)) serv (ct_runner c) interval None
      [poll_input.Tick (runner_PersistedIndex (env_bq env) (ct_runner c')) None] =
        Return (clear_init_error serv, [i, word_of_nat first], None) \<and>
    word_of_nat first < i \<and>
    map_option srv_uuid (ih_Shipper (ct_grpc c')) = map_option srv_uuid (ih_Shipper (ct_grpc c))"
proof -
  note new = restart_new_queue [OF assms(3-5,8)]
  obtain ms where ms: "eventQueue q = rl_memqueue (env_runner env) ms" using new queue_New_memory assms(9) by blast
  obtain m where "beats_Metrics (env_bq env) (eventQueue q) = Inr m" "j = OldestEntryID m"
    using assms(8-10) by (auto simp: runner_PersistedIndex_def queue_PersistedIndex_def split: sum.splits)
  with release_lawsD(7) [OF assms(1)] ms assms(2) have j: "j = word_of_nat first"
    by (simp add: starts_unreleased_def released_def)
  have "runner_IsInitialized (ct_runner c)"
    using assms(6) by (auto simp: runner_PersistedIndex_def runner_IsInitialized_def split: option.splits)
  then show ?thesis
    using assms(6,7,10,11) j new by (auto simp: PersistedIndex_def runner_ops_def uuid_of_def Let_def)
qed

text \<open>An output unit that is added while the runner runs starts a second queue and output and closes neither
  the first queue nor its monitor, and waits for no output: nothing the handler does is a close.\<close>

theorem added_output_closes_nothing:
  assumes "handleUnitAdded env io c u = Handled (c', eff)" "u_Type u = UnitTypeOutput"
  shows "(\<forall>ceff. RunnerClosed ceff \<notin> set eff) \<and>
    (ct_runner c' = ct_runner c \<or> (\<exists>cfg err. runner_Start (env_runner env) (ct_runner c) cfg = Return (ct_runner c', err)))"
  using assms by (auto simp: handleUnitAdded_def Let_def startShipper_def reportError_def after_Handled
      split: prod.splits sum.splits outcome.splits option.splits)

text \<open>An output unit that is told to stop with the same configuration and another log level is taken for a
  change of the log level: it is reported healthy and the runner goes on.\<close>

theorem stop_with_new_level_ignored:
  assumes "su_config (GetUnit (ct_units c) (u_ID u) (u_Type u)) = Some (u_Source u)"
    and "ZapFromUnitLogLevel (u_LogLevel u) \<noteq> ct_level c" "u_Type u = UnitTypeOutput" "u_State u = Stopped"
  shows "handleUnitUpdated env c u = Handled (c\<lparr>ct_level := ZapFromUnitLogLevel (u_LogLevel u)\<rparr>,
    [UpdateState (u_ID u) Healthy ''log level changed''])"
  using assms by (simp add: handleUnitUpdated_def onlyLogLevelUpdated_def)

section \<open>Examples\<close>

text \<open>A controller over a queue that keeps a ledger of its batches.\<close>

definition tracked_lib :: "('e tracked, string) runner_lib" where
  "tracked_lib =
     (let lib = (example_runner_lib :: ('e fifo, string) runner_lib) in
      \<lparr>rl_DefaultSettings = rl_DefaultSettings lib, rl_pbkdf2_Key = rl_pbkdf2_Key lib,
       rl_diskqueue = \<lambda>ds. Inl (NewError ''no disk''), rl_memqueue = \<lambda>ms. (rl_memqueue lib ms, []),
       rl_monitor = rl_monitor lib, rl_output = rl_output lib\<rparr>)"

definition tracked_env :: "(nat tracked, nat, string, string, string) controller_env" where
  "tracked_env = \<lparr>env_bq = tracked_queue, env_runner = tracked_lib, env_config = example_config_lib,
     env_Close_returns = \<lambda>_. True, env_calls_end = \<lambda>_. True\<rparr>"

definition console_config :: "string root_config" where
  "console_config = set_output (\<lambda>o'. o'\<lparr>oc_Console := Some True\<rparr>) (root_DefaultConfig\<lparr>rt_Type := ''console''\<rparr>)"

lemma tracked_starts_empty: "memory_starts_empty tracked_lib (fifo_pending \<circ> fst)" "starts_unreleased tracked_lib snd"
  by (simp_all add: memory_starts_empty_def starts_unreleased_def tracked_lib_def example_runner_lib_def fifo_new_def)

definition running :: "'e fifo \<Rightarrow> ledger \<Rightarrow> ('e tracked, string) server_runner" where
  "running f l = \<lparr>sr_queue = Some \<lparr>queue_cfg = queue_DefaultConfig, eventQueue = (f, l)\<rparr>,
     sr_monitoring = Some \<lparr>logReporter = '''', httpHandler = None, queueLimitCount = 0\<rparr>, sr_out = Some ConsoleOutput\<rparr>"

lemma tracked_start: "runner_Start tracked_lib r console_config = Return (running (fifo_new 4096) [], None)"
  by (cases r) (simp add: runner_Start_def tracked_lib_def example_runner_lib_def console_config_def root_DefaultConfig_def
      queue_New_def queue_DefaultConfig_def useDiskQueue_def NewFromConfig_def start_output_def outputFromConfig_def Let_def running_def)

lemma tracked_update:
  "\<exists>c' eff. updateShipperOutput tracked_env c (example_unit UnitTypeOutput) = Handled (c', eff) \<and>
     ct_runner c' = running (fifo_new 4096) []"
proof -
  have cfg: "ShipperConfigFromUnitConfig example_config_lib lvl UnitLogLevelInfo ''console'' = (InfoLevel, Inr console_config)" for lvl
    by (simp add: ShipperConfigFromUnitConfig_def Let_def example_config_lib_def unpack_output_def console_config_def
        esKey_def kafaKey_def consoleKey_def)
  show ?thesis
    by (simp add: updateShipperOutput_def example_unit_def Let_def startShipper_def tracked_env_def cfg tracked_start
        stopShipper_def runner_Close_def)
qed

text \<open>One event accepted and waiting, after a first start.\<close>

definition one_waiting :: "nat fifo" where
  "one_waiting = \<lparr>fifo_pending = [7], fifo_newest = 1, fifo_cap = 4096, fifo_closed = False\<rparr>"

definition waiting_state :: "(nat tracked, string, nat) lifecycle" where
  "waiting_state = \<lparr>lf_now = \<lparr>gn_start = running (fifo_new 4096) [], gn_pipe = (pipeline_init (running one_waiting []))\<lparr>pl_accepted := [7]\<rparr>\<rparr>,
     lf_old = [new_generation NewOutputServer]\<rparr>"

definition waiting_controller :: "(nat tracked, string, string) controller" where
  "waiting_controller = (newClientHandler InfoLevel)\<lparr>ct_runner := running one_waiting []\<rparr>"

lemma waiting_reached: "lifecycle_steps tracked_lib tracked_queue lifecycle_init waiting_state"
proof -
  let ?r = "running (fifo_new 4096) [] :: (nat tracked, string) server_runner"
  let ?s = "\<lparr>lf_now = new_generation ?r, lf_old = [new_generation NewOutputServer]\<rparr> :: (nat tracked, string, nat) lifecycle"
  have "lifecycle_step tracked_lib tracked_queue lifecycle_init ?s"
    using lifecycle_step.start [OF tracked_start, of tracked_queue lifecycle_init] by (simp add: lifecycle_init_def)
  moreover have "pipeline_step tracked_queue (gn_pipe (lf_now ?s)) (gn_pipe (lf_now waiting_state))"
    using pipeline_step.publish [of tracked_queue "gn_pipe (lf_now ?s)" 7 "running one_waiting []" "Inr 1"]
    by (simp add: new_generation_def pipeline_init_def running_def runner_Publish_def queue_Publish_def tracked_queue_def tracked_put_def
        fifo_put_def fifo_new_def one_waiting_def accepted_events_def waiting_state_def)
  from lifecycle_step.now [of _ ?s, OF this] have "lifecycle_step tracked_lib tracked_queue ?s waiting_state"
    by (simp add: waiting_state_def new_generation_def)
  ultimately show ?thesis by (meson converse_rtranclp_into_rtranclp r_into_rtranclp)
qed

lemma waiting_runner: "now_runner waiting_state = ct_runner waiting_controller"
  by (simp add: waiting_state_def waiting_controller_def pipeline_init_def)

theorem generations_conserve_witness:
  "lifecycle_steps tracked_lib tracked_queue lifecycle_init waiting_state \<and>
   runner_pending (fifo_pending \<circ> fst) (gn_start (lf_now waiting_state)) @ [7] =
     taken (gn_pipe (lf_now waiting_state)) @ waiting (fifo_pending \<circ> fst) (gn_pipe (lf_now waiting_state)) \<and>
   [7] = taken (gn_pipe (lf_now waiting_state)) @ waiting (fifo_pending \<circ> fst) (gn_pipe (lf_now waiting_state))"
proof -
  have "pl_accepted (gn_pipe (lf_now waiting_state)) = [7]" "\<exists>q. sr_queue (gn_start (lf_now waiting_state)) = Some q \<and> \<not> useDiskQueue (queue_cfg q)"
    by (simp_all add: waiting_state_def running_def queue_DefaultConfig_def useDiskQueue_def)
  with generations_conserve [OF tracked_laws tracked_starts_empty(1) waiting_reached] waiting_reached show ?thesis by fastforce
qed

theorem restart_drops_waiting_witness:
  "\<exists>c' eff. updateShipperOutput tracked_env waiting_controller (example_unit UnitTypeOutput) = Handled (c', eff) \<and>
     runner_pending (fifo_pending \<circ> fst) (gn_start (lf_now waiting_state)) @ [7] =
       taken (gn_pipe (lf_now waiting_state)) @ waiting (fifo_pending \<circ> fst) (gn_pipe (lf_now waiting_state)) \<and>
     runner_pending (fifo_pending \<circ> fst) (ct_runner c') = []"
proof -
  obtain c' eff where h: "updateShipperOutput tracked_env waiting_controller (example_unit UnitTypeOutput) = Handled (c', eff)"
      and r: "ct_runner c' = running (fifo_new 4096) []"
    using tracked_update by blast
  have "\<forall>q. sr_queue (ct_runner c') = Some q \<longrightarrow> \<not> useDiskQueue (queue_cfg q)"
    by (simp add: r running_def queue_DefaultConfig_def useDiskQueue_def)
  moreover have "pl_accepted (gn_pipe (lf_now waiting_state)) = [7]" by (simp add: waiting_state_def)
  ultimately show ?thesis
    using restart_drops_waiting [of tracked_env "fifo_pending \<circ> fst", OF _ _ _ waiting_runner h] h tracked_laws tracked_starts_empty(1)
      waiting_reached
    by (simp add: tracked_env_def example_unit_def)
qed

theorem index_falls_on_restart_witness:
  "\<exists>c' eff. updateShipperOutput tracked_env (waiting_controller\<lparr>ct_runner := running one_waiting [(1, 1, True)]\<rparr>) (example_unit UnitTypeOutput) =
       Handled (c', eff) \<and>
     PersistedIndex (runner_ops tracked_queue) example_server (running one_waiting [(1, 1, True)]) 1000 None
       [poll_input.Tick (runner_PersistedIndex tracked_queue (ct_runner c')) None] = Return (clear_init_error example_server, [2, 1], None)"
proof -
  let ?c = "waiting_controller\<lparr>ct_runner := running one_waiting [(1, 1, True)]\<rparr>"
  obtain c' eff where h: "updateShipperOutput tracked_env ?c (example_unit UnitTypeOutput) = Handled (c', eff)"
      and r: "ct_runner c' = running (fifo_new 4096) []" using tracked_update by blast
  note index = runner_PersistedIndex_def running_def queue_PersistedIndex_def tracked_queue_def released_def one_waiting_def
    fifo_new_def useDiskQueue_def queue_DefaultConfig_def
  have "runner_PersistedIndex tracked_queue (ct_runner ?c) = Inr 2" "runner_PersistedIndex tracked_queue (ct_runner c') = Inr 1"
    by (simp_all add: r index)
  then have "PersistedIndex (runner_ops tracked_queue) example_server (running one_waiting [(1, 1, True)]) 1000 None
      [poll_input.Tick (runner_PersistedIndex tracked_queue (ct_runner c')) None] = Return (clear_init_error example_server, [2, 1], None)"
    using index_falls_on_restart [of tracked_env snd 1, OF _ _ h,
      of 2 "\<lparr>queue_cfg = queue_DefaultConfig, eventQueue = (fifo_new 4096, [])\<rparr>" 1 1000 example_server] tracked_release [where 'a = nat]
      tracked_starts_empty(2) [where 'b = nat] r
    by (simp add: tracked_env_def example_unit_def running_def useDiskQueue_def queue_DefaultConfig_def)
  with h show ?thesis by blast
qed

end
