(* ===== verification/Test_Runner.thy ===== *)
theory Test_Runner
  imports Build_Env
begin

text \<open>
  \<^verbatim>\<open>src/dev-tools/common/test.go\<close> and \<^verbatim>\<open>src/testing/environments/environments.go\<close>: running the unit and the
  integration tests with their reports, and the containers they run against. Making directories and
  files and running commands are arguments (the record \<open>shell\<close>). The theory shows that a failing test
  run is never reported as a success, whatever happens to the reports.
\<close>

section \<open>Running tests\<close>

text \<open>What \<open>Run\<close> of a command returns: nothing, an \<open>ExitError\<close> of a command that ran and failed, or
  another error.\<close>

datatype run_result = Passed | Exit_error go_error | Not_run go_error

record shell =
  sh_MkdirAll :: "string \<Rightarrow> go_error option"
  sh_Create :: "string \<Rightarrow> go_error option"
  sh_ReadFile :: "string \<Rightarrow> string result"
  sh_Run :: "command \<Rightarrow> run_result"
  sh_RunCmd :: "string list \<Rightarrow> go_error option"
  sh_Pipe :: "string \<Rightarrow> string \<Rightarrow> string \<Rightarrow> go_error option"
  sh_Environ :: "string list"

text \<open>Calls of \<open>CreateDir\<close> one after the other: the first that panics ends the target.\<close>

fun create_dirs :: "shell \<Rightarrow> string list \<Rightarrow> unit outcome" where
  "create_dirs sh [] = Return ()"
| "create_dirs sh (f # fs) =
     (case CreateDir (sh_MkdirAll sh) f of Panic e \<Rightarrow> Panic e | Return _ \<Rightarrow> create_dirs sh fs)"

definition format_args :: "bool \<Rightarrow> string list" where
  "format_args verbose = [''--no-color'', ''-f'', if verbose then ''standard-verbose'' else ''standard-quiet'']"

text \<open>The part both targets share: the file for the output is made, the command runs, and its failure is
  kept for later; an error of another kind is returned at once.\<close>

definition run_tests :: "shell \<Rightarrow> bool \<Rightarrow> string \<Rightarrow> string list \<Rightarrow> go_error option result outcome" where
  "run_tests sh verbose fileName args =
     (let goTest = MakeCommand (sh_Environ sh) verbose [] ''gotestsum'' args in
      case CreateDir (sh_MkdirAll sh) (fileName @ ''.out'') of
        Panic e \<Rightarrow> Panic e
      | Return out \<Rightarrow>
          Return (case sh_Create sh out of
             Some err \<Rightarrow> Inl (Wrapped ''failed to create go test output file: '' err)
           | None \<Rightarrow>
               (case sh_Run sh (goTest\<lparr>cmd_stdout := True\<rparr>) of
                  Passed \<Rightarrow> Inr None
                | Exit_error err \<Rightarrow> Inr (Some err)
                | Not_run err \<Rightarrow> Inl (Wrapped ''failed to execute go: '' err))))"

definition test_outcome :: "go_error option \<Rightarrow> go_error option" where
  "test_outcome goTestErr = map_option (Wrapped ''go test returned a non-zero value: '') goTestErr"

text \<open>The reports on coverage.\<close>

definition cobertura_package :: string where
  "cobertura_package = ''github.com/boumenot/gocover-cobertura@latest''"

definition coverage_reports :: "shell \<Rightarrow> string \<Rightarrow> go_error option" where
  "coverage_reports sh covFile =
     (let base = strings_TrimSuffix covFile (filepath_Ext covFile);
          codecovReport = base @ ''-cov.xml''
      in case sh_RunCmd sh [''go'', ''tool'', ''cover'', ''-html='' @ covFile, ''-o'', base @ ''.html''] of
           Some err \<Rightarrow> Some (Wrapped ''failed to write HTML code coverage report: '' err)
         | None \<Rightarrow>
        (case sh_RunCmd sh [''go'', ''install'', cobertura_package] of
           Some err \<Rightarrow> Some (Wrapped ''failed to install gocover-cobertura: '' err)
         | None \<Rightarrow>
        (case sh_ReadFile sh covFile of
           Inl err \<Rightarrow> Some (Wrapped ''failed to read code coverage report: '' err)
         | Inr coverage \<Rightarrow>
        (case sh_Create sh codecovReport of
           Some err \<Rightarrow> Some err
         | None \<Rightarrow>
             map_option (Wrapped ''failed to write XML code coverage report: '')
               (sh_Pipe sh ''gocover-cobertura'' coverage codecovReport)))))"

definition GoUnitTest :: "shell \<Rightarrow> bool \<Rightarrow> bool \<Rightarrow> go_error option outcome" where
  "GoUnitTest sh verbose testCoverage =
     (let fileName = filepath_Join [''build'', ''TEST-go-unit''];
          covFile = (if testCoverage then filepath_Clean (fileName @ ''.cov'') else fileName @ ''.cov'');
          gotestsumArgs = format_args verbose @ [''--junitfile'', fileName @ ''.xml'', ''--jsonfile'', fileName @ ''.out'' @ ''.json''];
          testArgs = (if testCoverage then [''-covermode=atomic'', ''-coverprofile='' @ covFile] else []) @ [''./...'']
      in case create_dirs sh ([fileName @ ''.xml'', fileName @ ''.out''] @
                (if testCoverage then [fileName @ ''.cov'', covFile] else [])) of
           Panic e \<Rightarrow> Panic e
         | Return _ \<Rightarrow>
        (case run_tests sh verbose fileName (gotestsumArgs @ [''--''] @ testArgs) of
           Panic e \<Rightarrow> Panic e
         | Return (Inl err) \<Rightarrow> Return (Some err)
         | Return (Inr goTestErr) \<Rightarrow>
             Return (case if testCoverage then coverage_reports sh covFile else None of
                       Some err \<Rightarrow> Some err
                     | None \<Rightarrow> test_outcome goTestErr)))"

definition GoIntegrationTest :: "shell \<Rightarrow> bool \<Rightarrow> go_error option outcome" where
  "GoIntegrationTest sh verbose =
     (let fileName = filepath_Join [''build'', ''TEST-go-integration''];
          testArgs = [''-tags=integration'', ''-count=1'', ''-timeout=60s''] @ [''./...'']
      in case run_tests sh verbose fileName (format_args verbose @ [''--''] @ testArgs) of
           Panic e \<Rightarrow> Panic e
         | Return (Inl err) \<Rightarrow> Return (Some err)
         | Return (Inr goTestErr) \<Rightarrow> Return (test_outcome goTestErr))"

section \<open>Containers\<close>

record testImage =
  ti_name :: string
  ti_path :: string

record testImageConfig =
  tic_image :: testImage
  tic_environment :: "(string \<times> string) list"

definition elasticsearchImage :: testImage where
  "elasticsearchImage = \<lparr>ti_name = ''Elasticsearch'', ti_path = ''testing/environments/elasticsearch/docker-compose.yml''\<rparr>"

definition kafkaImage :: testImage where
  "kafkaImage = \<lparr>ti_name = ''Kafka'', ti_path = ''testing/environments/kafka/docker-compose.yml''\<rparr>"

definition logstashImage :: testImage where
  "logstashImage = \<lparr>ti_name = ''Logstash'', ti_path = ''testing/environments/logstash/docker-compose.yml''\<rparr>"

definition DefaultElasticsearch :: testImageConfig where
  "DefaultElasticsearch =
     (let basePath = ''docker.elastic.co/elasticsearch/elasticsearch''; version = DefaultBeatVersion @ ''-SNAPSHOT''
      in \<lparr>tic_image = elasticsearchImage, tic_environment = [(''ELASTICSEARCH_IMAGE_REF'', basePath @ '':'' @ version)]\<rparr>)"

definition DefaultKafka :: testImageConfig where
  "DefaultKafka = \<lparr>tic_image = kafkaImage, tic_environment = []\<rparr>"

definition DefaultLogstash :: testImageConfig where
  "DefaultLogstash =
     (let basePath = ''docker.elastic.co/logstash/logstash''; version = DefaultBeatVersion @ ''-SNAPSHOT''
      in \<lparr>tic_image = logstashImage, tic_environment = [(''LOGSTASH_IMAGE_REF'', basePath @ '':'' @ version)]\<rparr>)"

definition dockerComposeCommand :: "string list \<Rightarrow> bool \<Rightarrow> string list \<Rightarrow> testImageConfig list \<Rightarrow> command" where
  "dockerComposeCommand os_Environ verbose args configs =
     (let (args, env) =
        fold (\<lambda>c (args, env). (args @ [''-f'', ti_path (tic_image c)],
                 env @ map (\<lambda>(k, v). k @ ''='' @ v) (tic_environment c)))
          configs (args, os_Environ)
      in \<lparr>cmd_Path = ''docker-compose'', cmd_Args = args, cmd_Env = os_Environ @ env, cmd_stdout = verbose\<rparr>)"

definition environments_Up :: "string list \<Rightarrow> bool \<Rightarrow> testImageConfig list \<Rightarrow> command" where
  "environments_Up os_Environ verbose configs = dockerComposeCommand os_Environ verbose [''up'', ''-d''] configs"

definition environments_Down :: "string list \<Rightarrow> bool \<Rightarrow> testImageConfig list \<Rightarrow> command" where
  "environments_Down os_Environ verbose configs = dockerComposeCommand os_Environ verbose [''down''] configs"

section \<open>Properties\<close>

lemma run_tests_passed:
  assumes "run_tests sh verbose fileName args = Return (Inr None)"
  shows "sh_Run sh ((MakeCommand (sh_Environ sh) verbose [] ''gotestsum'' args)\<lparr>cmd_stdout := True\<rparr>) = Passed"
  using assms by (auto simp: run_tests_def Let_def split: outcome.splits option.splits run_result.splits)

lemma test_outcome_None [simp]: "test_outcome e = None \<longleftrightarrow> e = None"
  by (simp add: test_outcome_def)

text \<open>A target that runs tests returns without an error only if a command that runs the tests of all
  packages passed; with coverage, only if all reports were written too.\<close>

lemma unit_tests_not_masked:
  assumes "GoUnitTest sh verbose testCoverage = Return None"
  shows "(\<exists>c. cmd_Path c = ''gotestsum'' \<and> last (cmd_Args c) = ''./...'' \<and> sh_Run sh c = Passed) \<and>
    (testCoverage \<longrightarrow> coverage_reports sh ''build/TEST-go-unit.cov'' = None)"
proof
  have "\<exists>fileName args. run_tests sh verbose fileName args = Return (Inr None) \<and> last args = ''./...''"
    using assms by (fastforce simp: GoUnitTest_def Let_def split: outcome.splits sum.splits option.splits if_splits)
  then obtain fileName args where "run_tests sh verbose fileName args = Return (Inr None)" "last args = ''./...''" by blast
  from run_tests_passed [OF this(1)] this(2)
  show "\<exists>c. cmd_Path c = ''gotestsum'' \<and> last (cmd_Args c) = ''./...'' \<and> sh_Run sh c = Passed"
    by (intro exI, intro conjI) (auto simp: MakeCommand_def)
  have "filepath_Clean (filepath_Join [''build'', ''TEST-go-unit''] @ ''.cov'') = ''build/TEST-go-unit.cov''"
    by (simp add: filepath_Join_def filepath_Clean_def prefix_def)
  then show "testCoverage \<longrightarrow> coverage_reports sh ''build/TEST-go-unit.cov'' = None"
    using assms by (auto simp: GoUnitTest_def Let_def split: outcome.splits sum.splits option.splits)
qed

lemma integration_tests_not_masked:
  assumes "GoIntegrationTest sh verbose = Return None"
  shows "\<exists>c. cmd_Path c = ''gotestsum'' \<and> last (cmd_Args c) = ''./...'' \<and>
    ''-tags=integration'' \<in> set (cmd_Args c) \<and> sh_Run sh c = Passed"
proof -
  from assms have "run_tests sh verbose (filepath_Join [''build'', ''TEST-go-integration''])
      (format_args verbose @ [''--''] @ [''-tags=integration'', ''-count=1'', ''-timeout=60s''] @ [''./...'']) = Return (Inr None)"
    by (auto simp: GoIntegrationTest_def Let_def split: outcome.splits sum.splits)
  from run_tests_passed [OF this] show ?thesis
    by (intro exI, intro conjI) (auto simp: MakeCommand_def)
qed

text \<open>The files of all containers are named, in order, after the subcommand.\<close>

lemma dockerCompose_args:
  "cmd_Args (dockerComposeCommand env verbose args configs) =
     args @ concat (map (\<lambda>c. [''-f'', ti_path (tic_image c)]) configs)"
proof -
  have "fst (fold (\<lambda>c (args, env). (args @ [''-f'', ti_path (tic_image c)],
                 env @ map (\<lambda>(k, v). k @ ''='' @ v) (tic_environment c))) configs (args, es)) =
      args @ concat (map (\<lambda>c. [''-f'', ti_path (tic_image c)]) configs)" for args es
    by (induction configs arbitrary: args es) auto
  then show ?thesis by (simp add: dockerComposeCommand_def split_beta)
qed

end
