(* ===== verification/Build_Targets.thy ===== *)
theory Build_Targets
  imports Test_Runner "HOL-Library.Multiset"
begin

text \<open>
  \<^verbatim>\<open>src/magefile.go\<close>: the targets that build the binaries, check that they exist and pack them into
  archives. Running goreleaser, looking for a file and reading one are arguments; the commands, the
  environment handed to them and the archives with their names are computed here. The theory shows
  that the build and the packaging agree on the version, so that the files packed are the files built.
  The targets that only start linters and licence checks are left out.
\<close>

section \<open>Names\<close>

definition specFileName :: string where "specFileName = ProjectName @ ''.spec.yml''"
definition configFileName :: string where "configFileName = ProjectName @ ''.yml''"
definition platformsEnvName :: string where "platformsEnvName = ''PLATFORMS''"

definition fullVersion :: "environ \<Rightarrow> string result" where
  "fullVersion env =
     (let version = DefaultBeatVersion;
          version = (case env ''VERSION_QUALIFIER'' of None \<Rightarrow> version | Some q \<Rightarrow> version @ ''-'' @ q);
          snapshotEnv = os_Getenv env ''SNAPSHOT''
      in if snapshotEnv \<noteq> []
         then (case ParseBool snapshotEnv of
                 Inl err \<Rightarrow> Inl err
               | Inr isSnapshot \<Rightarrow> Inr (if isSnapshot then version @ ''-'' @ ''SNAPSHOT'' else version))
         else Inr version)"

definition execName :: "string \<Rightarrow> string" where
  "execName platform = (if strings_Contains platform ''windows'' then ProjectName @ ''.exe'' else ProjectName)"

definition target_dir :: "string \<Rightarrow> string \<Rightarrow> string" where
  "target_dir version platform = ProjectName @ ''-'' @ version @ ''-'' @ platform"

definition binaryName :: "string \<Rightarrow> string \<Rightarrow> string \<Rightarrow> string" where
  "binaryName path version platform = filepath_Join [path, target_dir version platform, execName platform]"

definition binaryFilePath :: "string \<Rightarrow> string \<Rightarrow> string" where
  "binaryFilePath version platform = binaryName (filepath_Join [''build'', ''binaries'']) version platform"

section \<open>Checking for the binaries\<close>

fun check_files :: "(string \<Rightarrow> go_error option) \<Rightarrow> string list \<Rightarrow> go_error option" where
  "check_files os_Stat [] = None"
| "check_files os_Stat (b # bs) =
     (case os_Stat b of
        Some err \<Rightarrow> Some (Wrapped ''Build: binary check failed: '' err)
      | None \<Rightarrow> check_files os_Stat bs)"

definition CheckBinaries :: "(string \<Rightarrow> go_error option) \<Rightarrow> string \<Rightarrow> string \<Rightarrow> go_error option" where
  "CheckBinaries os_Stat platform version =
     (let path = filepath_Join [''build'', ''binaries''] in
      case PlatformFiles platform of
        None \<Rightarrow> Some (NewError ''No selected platform files found'')
      | Some files \<Rightarrow> check_files os_Stat (map (binaryName path version) files))"

fun find_binary :: "(string \<Rightarrow> go_error option) \<Rightarrow> string \<Rightarrow> string list \<Rightarrow> string result" where
  "find_binary os_Stat binary [] = Inr binary"
| "find_binary os_Stat binary (b # bs) =
     (case os_Stat b of
        Some err \<Rightarrow> Inl (Wrapped (''error reading '' @ b @ '': '') err)
      | None \<Rightarrow> find_binary os_Stat b bs)"

definition absoluteBinaryPath ::
    "string result \<Rightarrow> (string \<Rightarrow> go_error option) \<Rightarrow> string \<Rightarrow> string \<Rightarrow> string result" where
  "absoluteBinaryPath os_Getwd os_Stat version platform =
     (case os_Getwd of
        Inl err \<Rightarrow> Inl (Wrapped ''unable to get current working directory: '' err)
      | Inr dir \<Rightarrow>
          (case PlatformFiles platform of
             None \<Rightarrow> Inl (NewError (''no platform files found for '' @ platform))
           | Some files \<Rightarrow> find_binary os_Stat [] (map (\<lambda>pf. filepath_Join [dir, binaryFilePath version pf]) files)))"

section \<open>Building\<close>

text \<open>The environment of the build, before the platform is known, and the arguments.\<close>

definition build_env :: "environ \<Rightarrow> ((string \<rightharpoonup> string) \<times> string list) result" where
  "build_env env =
     (let benv = [''CGO_ENABLED'' \<mapsto> EnvOrDefault env ''CGO_ENABLED'' ''0'',
                  ''DEV'' \<mapsto> EnvOrDefault env ''DEV'' ''false'',
                  ''DEFAULT_VERSION'' \<mapsto> DefaultBeatVersion];
          benv = (case env ''VERSION_QUALIFIER'' of
                    None \<Rightarrow> benv
                  | Some q \<Rightarrow> benv(''VERSION_QUALIFIER'' \<mapsto> q,
                                  ''DEFAULT_VERSION'' \<mapsto> the (benv ''DEFAULT_VERSION'') @ ''-'' @ q));
          snapshotEnv = os_Getenv env ''SNAPSHOT''
      in if snapshotEnv \<noteq> []
         then (case ParseBool snapshotEnv of
                 Inl err \<Rightarrow> Inl err
               | Inr isSnapshot \<Rightarrow>
                   Inr (if isSnapshot
                        then (benv(''DEFAULT_VERSION'' \<mapsto> the (benv ''DEFAULT_VERSION'') @ ''-'' @ ''SNAPSHOT''), [''--snapshot''])
                        else (benv, [])))
         else Inr (benv, []))"

definition os_platforms :: "string list" where
  "os_platforms = [''windows'', ''linux'', ''darwin'']"

definition single_platforms :: "string list" where
  "single_platforms = [''darwin/amd64'', ''darwin/arm64'', ''linux/386'', ''linux/amd64'', ''linux/arm64'',
     ''windows/386'', ''windows/amd64'']"

text \<open>What the platform adds: the platform checked in the end, the environment and the arguments.\<close>

definition select_platform ::
    "string \<Rightarrow> string \<Rightarrow> string \<Rightarrow> (string \<rightharpoonup> string) \<Rightarrow> string \<times> (string \<rightharpoonup> string) \<times> string list" where
  "select_platform GOOS GOARCH platform benv =
     (if platform \<in> set os_platforms then (platform, benv, [''--id'', platform])
      else if platform \<in> set single_platforms
      then let goos = strings_Split platform (CHR ''/'') ! 0;
               arch = strings_Split platform (CHR ''/'') ! 1
           in (platform, benv(''GOOS'' \<mapsto> goos, ''GOARCH'' \<mapsto> arch), [''--id'', goos, ''--single-target''])
      else if platform = ''all'' then (platform, benv, [])
      else (GOOS @ ''/'' @ GOARCH, benv, [''--id'', GOOS, ''--single-target'']))"

definition unrecognized :: "string \<Rightarrow> go_error" where
  "unrecognized platform = NewError (''Platform '' @ platform @ '' not recognized, only supported options: all, darwin, '' @
     ''linux, windows, darwin/amd64, darwin/arm64, linux/386, linux/amd64, linux/arm64, windows/386, windows/amd64'')"

text \<open>\<open>Build.Binary\<close>: the run of goreleaser, if it got there, and the error.\<close>

definition Build_Binary ::
    "bool \<Rightarrow> string \<Rightarrow> string \<Rightarrow> ((string \<rightharpoonup> string) \<Rightarrow> string list \<Rightarrow> go_error option) \<Rightarrow>
     (string \<Rightarrow> go_error option) \<Rightarrow> environ \<Rightarrow>
     ((string \<rightharpoonup> string) \<times> string list) option \<times> go_error option" where
  "Build_Binary verbose GOOS GOARCH goreleaser os_Stat env =
     (let args = [''build'', ''--rm-dist'', ''--skip-validate''] @ (if verbose then [''--debug''] else []) in
      case build_env env of
        Inl err \<Rightarrow> (None, Some err)
      | Inr (benv, snapshot_args) \<Rightarrow>
          (let platform = os_Getenv env platformsEnvName in
           if platform \<noteq> [] \<and> PlatformFiles platform = None then (None, Some (unrecognized platform))
           else
             (case select_platform GOOS GOARCH platform benv of
                (platform, benv, platform_args) \<Rightarrow>
                  (let args = args @ snapshot_args @ platform_args in
                   (Some (benv, args),
                    case goreleaser benv args of
                      Some err \<Rightarrow> Some (Wrapped (''Build failed on '' @ platform @ '': '') err)
                    | None \<Rightarrow> CheckBinaries os_Stat platform (the (benv ''DEFAULT_VERSION'')))))))"

text \<open>\<open>Build.All\<close>: the platform is set in the environment of the process.\<close>

definition Build_All ::
    "bool \<Rightarrow> string \<Rightarrow> string \<Rightarrow> ((string \<rightharpoonup> string) \<Rightarrow> string list \<Rightarrow> go_error option) \<Rightarrow>
     (string \<Rightarrow> go_error option) \<Rightarrow> environ \<Rightarrow>
     ((string \<rightharpoonup> string) \<times> string list) option \<times> go_error option" where
  "Build_All verbose GOOS GOARCH goreleaser os_Stat env =
     Build_Binary verbose GOOS GOARCH goreleaser os_Stat (env(platformsEnvName \<mapsto> ''all''))"

section \<open>Packing\<close>

datatype archive_kind = Zip | TarGz

text \<open>An archive: where it is written, and its members, the name in the archive with the contents.\<close>

record archive =
  ar_kind :: archive_kind
  ar_path :: string
  ar_members :: "(string \<times> string) list"
  ar_dropped_errors :: "go_error list"

text \<open>The operating system as the packaging sees it, and the order in which Go ranges over a map.\<close>

record pack_io =
  pio_MkdirAll :: "string \<Rightarrow> go_error option"
  pio_Create :: "string \<Rightarrow> go_error option"
  pio_Open :: "string \<Rightarrow> go_error option"
  pio_Stat :: "string \<Rightarrow> go_error option"
  pio_WriteHeader :: "archive_kind \<Rightarrow> string \<Rightarrow> go_error option"
  pio_Copy :: "string \<Rightarrow> string result"
  pio_Close :: "archive_kind \<Rightarrow> string \<Rightarrow> go_error list"
  pio_range :: "(string \<times> string) list \<Rightarrow> (string \<times> string) list"
  pio_sha512 :: "archive \<Rightarrow> string result"
  pio_WriteFile :: "string \<Rightarrow> string \<Rightarrow> go_error option"

definition kind_name :: "archive_kind \<Rightarrow> string" where
  "kind_name kind = (case kind of Zip \<Rightarrow> ''zip'' | TarGz \<Rightarrow> ''tar'')"

text \<open>The function \<open>addFile\<close> of both \<open>prepareZipArchive\<close> and \<open>prepareTarArchive\<close>.\<close>

definition addFile :: "pack_io \<Rightarrow> archive_kind \<Rightarrow> string \<Rightarrow> string \<Rightarrow> string \<Rightarrow> (string \<times> string) result" where
  "addFile io kind targetDir fileName filePath =
     (case pio_Open io filePath of
        Some err \<Rightarrow> Inl (Wrapped ''failed opening a file: '' err)
      | None \<Rightarrow>
     (case pio_Stat io filePath of
        Some err \<Rightarrow> Inl (Wrapped ''failed retrieving stat info for a file: '' err)
      | None \<Rightarrow>
          (let name = filepath_Join [targetDir, fileName] in
           case pio_WriteHeader io kind name of
             Some err \<Rightarrow> Inl (Wrapped (''failed writing '' @ kind_name kind @ '' header: '') err)
           | None \<Rightarrow>
          (case pio_Copy io filePath of
             Inl err \<Rightarrow> Inl (Wrapped ''failed adding a file into an archive: '' err)
           | Inr content \<Rightarrow> Inr (name, content)))))"

fun add_files ::
    "pack_io \<Rightarrow> archive_kind \<Rightarrow> string \<Rightarrow> (string \<times> string) list \<Rightarrow> ((string \<times> string) list) result" where
  "add_files io kind targetDir [] = Inr []"
| "add_files io kind targetDir ((fileName, filePath) # files) =
     (case addFile io kind targetDir fileName filePath of
        Inl err \<Rightarrow> Inl (Wrapped (''failed adding file '' @ go_quoted filePath @ '' into '' @ kind_name kind @ '' archive: '') err)
      | Inr mem \<Rightarrow> map_sum id (Cons mem) (add_files io kind targetDir files))"

text \<open>The archive that was written. The deferred \<open>Close\<close> calls, which flush the data, are the last thing both functions do, and
  their errors are dropped: they are kept here beside the members, and nothing reads them.\<close>

definition prepare_archive ::
    "pack_io \<Rightarrow> archive_kind \<Rightarrow> string \<Rightarrow> string \<Rightarrow> string \<Rightarrow> (string \<times> string) list \<Rightarrow> archive result" where
  "prepare_archive io kind path targetDir archiveFileName files =
     (let archiveFullName = filepath_Join [path, archiveFileName] in
      case pio_Create io archiveFullName of
        Some err \<Rightarrow> Inl (Wrapped (''failed to create '' @ go_quoted archiveFullName @ '': '') err)
      | None \<Rightarrow>
          map_sum id (\<lambda>ms. \<lparr>ar_kind = kind, ar_path = archiveFullName, ar_members = ms,
              ar_dropped_errors = pio_Close io kind archiveFullName\<rparr>)
            (add_files io kind targetDir (pio_range io files)))"

definition prepareZipArchive :: "pack_io \<Rightarrow> string \<Rightarrow> string \<Rightarrow> string \<Rightarrow> (string \<times> string) list \<Rightarrow> archive result" where
  "prepareZipArchive io = prepare_archive io Zip"

definition prepareTarArchive :: "pack_io \<Rightarrow> string \<Rightarrow> string \<Rightarrow> string \<Rightarrow> (string \<times> string) list \<Rightarrow> archive result" where
  "prepareTarArchive io = prepare_archive io TarGz"

text \<open>One platform of \<open>Package.Artifacts\<close>: the archive and the text of its checksum file.\<close>

definition pack_platform :: "pack_io \<Rightarrow> string \<Rightarrow> string \<Rightarrow> (archive \<times> string) outcome" where
  "pack_platform io version platform =
     (let archivePath = filepath_Join [''build'', ''distributions''];
          isWindows = strings_Contains platform ''windows'';
          binaryPath = binaryFilePath version platform;
          targetDir = target_dir version platform;
          files = [(specFileName, specFileName), (configFileName, configFileName), (execName platform, binaryPath)];
          archiveFileName = target_dir version platform @ (if isWindows then ''.zip'' else ''.tar.gz'');
          archiveFullPath = filepath_Join [archivePath, archiveFileName]
      in case (if isWindows then prepareZipArchive io archivePath targetDir archiveFileName files
               else prepareTarArchive io archivePath targetDir archiveFileName files) of
           Inl err \<Rightarrow> Panic (Error_text err)
         | Inr ar \<Rightarrow>
             (case pio_Open io archiveFullPath of
                Some err \<Rightarrow> Panic (''failed opening archive '' @ go_quoted archiveFileName @ '': '' @ Error_text err)
              | None \<Rightarrow>
             (case pio_sha512 io ar of
                Inl err \<Rightarrow> Panic (''failed computing hash for archive '' @ go_quoted archiveFileName @ '': '' @ Error_text err)
              | Inr h \<Rightarrow>
                  (let shaFile = archiveFullPath @ ''.sha512'';
                       content = h @ ''  '' @ archiveFileName @ [CHR 0x0A]
                   in case pio_WriteFile io shaFile content of
                        Some err \<Rightarrow> Panic (''failed writing hash for archive '' @ go_quoted archiveFileName @ '': '' @ Error_text err)
                      | None \<Rightarrow> Return (ar, content)))))"

fun pack_all :: "pack_io \<Rightarrow> string \<Rightarrow> string list \<Rightarrow> ((archive \<times> string) list) outcome" where
  "pack_all io version [] = Return []"
| "pack_all io version (p # ps) =
     (case pack_platform io version p of
        Panic e \<Rightarrow> Panic e
      | Return a \<Rightarrow> (case pack_all io version ps of Panic e \<Rightarrow> Panic e | Return as \<Rightarrow> Return (a # as)))"

text \<open>\<open>Package.Artifacts\<close>. A dependency that fails ends the target in a panic.\<close>

definition Package_Artifacts ::
    "bool \<Rightarrow> string \<Rightarrow> string \<Rightarrow> ((string \<rightharpoonup> string) \<Rightarrow> string list \<Rightarrow> go_error option) \<Rightarrow>
     (string \<Rightarrow> go_error option) \<Rightarrow> pack_io \<Rightarrow> environ \<Rightarrow> ((archive \<times> string) list) outcome" where
  "Package_Artifacts verbose GOOS GOARCH goreleaser os_Stat io env =
     (case snd (Build_Binary verbose GOOS GOARCH goreleaser os_Stat env) of
        Some err \<Rightarrow> Panic (Error_text err)
      | None \<Rightarrow>
     (case fullVersion env of
        Inl err \<Rightarrow> Panic (Error_text err)
      | Inr version \<Rightarrow>
          (let platforms = (case PlatformFiles (os_Getenv env platformsEnvName) of
                              Some ps \<Rightarrow> ps
                            | None \<Rightarrow> (case PlatformFiles (GOOS @ ''/'' @ GOARCH) of Some ps \<Rightarrow> ps | None \<Rightarrow> []))
           in case pio_MkdirAll io (filepath_Join [''build'', ''distributions'']) of
                Some err \<Rightarrow> Panic (Error_text err)
              | None \<Rightarrow> pack_all io version platforms)))"

definition Package_All ::
    "bool \<Rightarrow> string \<Rightarrow> string \<Rightarrow> ((string \<rightharpoonup> string) \<Rightarrow> string list \<Rightarrow> go_error option) \<Rightarrow>
     (string \<Rightarrow> go_error option) \<Rightarrow> pack_io \<Rightarrow> environ \<Rightarrow> ((archive \<times> string) list) outcome" where
  "Package_All verbose GOOS GOARCH goreleaser os_Stat io env =
     Package_Artifacts verbose GOOS GOARCH goreleaser os_Stat io (env(platformsEnvName \<mapsto> ''all''))"

section \<open>Tests and dependencies\<close>

text \<open>\<open>Test.Integration\<close>: the error, and the environment the tests ran in, if they did.\<close>

definition Test_Integration ::
    "bool \<Rightarrow> string \<Rightarrow> string \<Rightarrow> ((string \<rightharpoonup> string) \<Rightarrow> string list \<Rightarrow> go_error option) \<Rightarrow>
     (string \<Rightarrow> go_error option) \<Rightarrow> string result \<Rightarrow> (environ \<Rightarrow> shell) \<Rightarrow> environ \<Rightarrow>
     (environ \<times> go_error option) outcome" where
  "Test_Integration verbose GOOS GOARCH goreleaser os_Stat os_Getwd sh env =
     (let platform = GOOS @ ''/'' @ GOARCH in
      case fullVersion env of
        Inl err \<Rightarrow> Return (env, Some (Wrapped ''error getting full version: '' err))
      | Inr version \<Rightarrow>
          (let env = env(platformsEnvName \<mapsto> platform) in
           case snd (Build_Binary verbose GOOS GOARCH goreleaser os_Stat env) of
             Some err \<Rightarrow> Panic (Error_text err)
           | None \<Rightarrow>
               (case absoluteBinaryPath os_Getwd os_Stat version platform of
                  Inl err \<Rightarrow> Return (env, Some (Wrapped ''error determining native binary: '' err))
                | Inr binary \<Rightarrow>
                    (let env = env(''INTEGRATION_TEST_BINARY'' \<mapsto> binary) in
                     case GoIntegrationTest (sh env) verbose of
                       Panic e \<Rightarrow> Panic e
                     | Return err \<Rightarrow> Return (env, err)))))"

definition Test_Unit :: "bool \<Rightarrow> shell \<Rightarrow> environ \<Rightarrow> go_error option outcome" where
  "Test_Unit verbose sh env = GoUnitTest sh verbose (BoolEnvOrFalse env ''TEST_COVERAGE'')"

text \<open>\<open>Dependencies.Generate\<close>: the command that writes the report, for the answers of the operating system.\<close>

definition Dependencies_Generate ::
    "(string \<Rightarrow> go_error option) \<Rightarrow> (string \<Rightarrow> string result) \<Rightarrow> (string list \<Rightarrow> go_error option) \<Rightarrow> environ \<Rightarrow> string list outcome" where
  "Dependencies_Generate MkdirAll filepath_Abs run env =
     (case MkdirAll (filepath_Join [''build'', ''distributions'', ''reports'']) of
        Some err \<Rightarrow> Panic (Error_text err)
      | None \<Rightarrow>
     (case filepath_Abs (filepath_Join [''dev-tools'', ''run_with_go_ver'']) of
        Inl err \<Rightarrow> Panic (Error_text err)
      | Inr runWithGoPath \<Rightarrow>
     (case fullVersion env of
        Inl err \<Rightarrow> Panic (Error_text err)
      | Inr version \<Rightarrow>
          (let csvPath = filepath_Join [''build'', ''distributions'', ''reports'', ''dependencies-'' @ version @ ''.csv''];
               cmd = [runWithGoPath, filepath_Join [''dev-tools'', ''dependencies-report''], ''--csv'', csvPath]
           in case run cmd of Some err \<Rightarrow> Panic (Error_text err) | None \<Rightarrow> Return cmd))))"

definition Dependencies_Snapshot ::
    "(string \<Rightarrow> go_error option) \<Rightarrow> (string \<Rightarrow> string result) \<Rightarrow> (string list \<Rightarrow> go_error option) \<Rightarrow> environ \<Rightarrow> string list outcome" where
  "Dependencies_Snapshot MkdirAll filepath_Abs run env =
     Dependencies_Generate MkdirAll filepath_Abs run (env(''SNAPSHOT'' \<mapsto> ''true''))"

section \<open>Properties\<close>

text \<open>The build and the packaging agree on the version: the version handed to goreleaser and used to
  check for the binaries is the one \<open>fullVersion\<close> computes from the environment, and one of them fails
  exactly when the other does, with the same error.\<close>

theorem build_version_is_fullVersion:
  "fullVersion env = map_sum id (\<lambda>(benv, args). the (benv ''DEFAULT_VERSION'')) (build_env env)"
  by (simp add: fullVersion_def build_env_def Let_def split: option.split sum.split)

lemma build_env_version:
  assumes "build_env env = Inr (benv, args)"
  shows "fullVersion env = Inr (the (benv ''DEFAULT_VERSION''))"
  using assms by (auto simp: fullVersion_def build_env_def Let_def split: option.splits sum.splits if_splits)

lemma PlatformFiles_empty [simp]: "PlatformFiles [] = None"
  by (simp add: PlatformFiles_def)

lemma PlatformFiles_names:
  "PlatformFiles p \<noteq> None \<longleftrightarrow> p \<in> set os_platforms \<or> p \<in> set single_platforms \<or> p = ''all''"
  unfolding PlatformFiles_def map_of_eq_None_iff by (auto simp: os_platforms_def single_platforms_def)

lemma select_platform_keeps:
  assumes "select_platform GOOS GOARCH platform benv = (p, benv', args)"
  shows "the (benv' ''DEFAULT_VERSION'') = the (benv ''DEFAULT_VERSION'')"
    and "PlatformFiles platform \<noteq> None \<Longrightarrow> p = platform"
    and "platform = [] \<Longrightarrow> p = GOOS @ ''/'' @ GOARCH"
proof -
  show "the (benv' ''DEFAULT_VERSION'') = the (benv ''DEFAULT_VERSION'')"
    using assms by (auto simp: select_platform_def Let_def split: if_splits)
  show "p = platform" if "PlatformFiles platform \<noteq> None"
    using assms that unfolding PlatformFiles_names by (auto simp: select_platform_def Let_def split: if_splits)
  show "p = GOOS @ ''/'' @ GOARCH" if "platform = []"
    using assms that by (simp add: select_platform_def os_platforms_def single_platforms_def)
qed

lemma check_files_all: "check_files os_Stat bs = None \<longleftrightarrow> (\<forall>b \<in> set bs. os_Stat b = None)"
  by (induction bs) (auto split: option.split)

lemma pack_all_each:
  assumes "pack_all io version ps = Return as"
  shows "list_all2 (\<lambda>p a. pack_platform io version p = Return a) ps as"
  using assms by (induction ps arbitrary: as) (auto split: outcome.splits)

lemma map_sum_eq_Inr: "map_sum id f x = Inr y \<longleftrightarrow> (\<exists>z. x = Inr z \<and> y = f z)"
  by (cases x) auto

lemma Build_Binary_checked:
  assumes "snd (Build_Binary verbose GOOS GOARCH goreleaser os_Stat env) = None"
  obtains version p files where "fullVersion env = Inr version"
    "os_Getenv env platformsEnvName = [] \<or> PlatformFiles (os_Getenv env platformsEnvName) \<noteq> None"
    "p = (if os_Getenv env platformsEnvName = [] then GOOS @ ''/'' @ GOARCH else os_Getenv env platformsEnvName)"
    "PlatformFiles p = Some files" "\<forall>f \<in> set files. os_Stat (binaryFilePath version f) = None"
proof -
  let ?plat = "os_Getenv env platformsEnvName"
  obtain benv sargs where b: "build_env env = Inr (benv, sargs)"
    using assms by (auto simp: Build_Binary_def Let_def split: sum.splits)
  obtain p benv' pargs where sel: "select_platform GOOS GOARCH ?plat benv = (p, benv', pargs)"
    using prod_cases3 by blast
  note keeps = select_platform_keeps [OF sel]
  let ?v = "the (benv ''DEFAULT_VERSION'')"
  from assms b sel keeps(1) have rec: "?plat = [] \<or> PlatformFiles ?plat \<noteq> None"
      and chk: "CheckBinaries os_Stat p ?v = None"
    by (auto simp: Build_Binary_def Let_def split: if_splits option.splits)
  from chk obtain files where "PlatformFiles p = Some files"
      "\<forall>f \<in> set files. os_Stat (binaryFilePath ?v f) = None"
    by (auto simp: CheckBinaries_def Let_def check_files_all binaryFilePath_def split: option.splits)
  moreover have "p = (if ?plat = [] then GOOS @ ''/'' @ GOARCH else ?plat)" using rec keeps(2,3) by auto
  ultimately show thesis using rec build_env_version [OF b] that [of ?v p files] by blast
qed

lemma addFile_member:
  assumes "addFile io kind targetDir fileName filePath = Inr mem"
  shows "map_prod id Inr mem = (filepath_Join [targetDir, fileName], pio_Copy io filePath)"
  using assms by (auto simp: addFile_def Let_def split: option.splits sum.splits)

lemma add_files_members:
  assumes "add_files io kind targetDir files = Inr ms"
  shows "map (map_prod id Inr) ms = map (\<lambda>(f, p). (filepath_Join [targetDir, f], pio_Copy io p)) files"
  using assms
proof (induction files arbitrary: ms)
  case (Cons fp files)
  obtain fileName filePath where fp: "fp = (fileName, filePath)" by (cases fp)
  from Cons.prems fp obtain mem ms' where mem: "addFile io kind targetDir fileName filePath = Inr mem"
      and rest: "add_files io kind targetDir files = Inr ms'" and ms: "ms = mem # ms'"
    by (cases "add_files io kind targetDir files") (auto split: sum.splits)
  from Cons.IH [OF rest] addFile_member [OF mem] fp ms show ?case by (simp add: id_def)
qed simp

text \<open>The members an archive of a platform has, each with what reading its file gives.\<close>

definition platform_members :: "pack_io \<Rightarrow> string \<Rightarrow> string \<Rightarrow> (string \<times> string result) list" where
  "platform_members io version p =
     [(filepath_Join [target_dir version p, specFileName], pio_Copy io specFileName),
      (filepath_Join [target_dir version p, configFileName], pio_Copy io configFileName),
      (filepath_Join [target_dir version p, execName p], pio_Copy io (binaryFilePath version p))]"

lemma pack_platform_members:
  assumes perm: "\<forall>fs. mset (pio_range io fs) = mset fs"
    and "pack_platform io version p = Return (ar, content)"
  shows "mset (map (map_prod id Inr) (ar_members ar)) = mset (platform_members io version p) \<and>
    ar_kind ar = (if strings_Contains p ''windows'' then Zip else TarGz)"
proof -
  let ?files = "[(specFileName, specFileName), (configFileName, configFileName), (execName p, binaryFilePath version p)]"
  let ?dir = "target_dir version p"
  obtain kind ms where add: "add_files io kind ?dir (pio_range io ?files) = Inr ms" and ms: "ar_members ar = ms"
      and kind: "ar_kind ar = kind" "kind = (if strings_Contains p ''windows'' then Zip else TarGz)"
    using assms(2)
    by (auto simp: pack_platform_def prepareZipArchive_def prepareTarArchive_def prepare_archive_def Let_def map_sum_eq_Inr
        split: option.splits sum.splits if_splits)
  let ?mem = "\<lambda>(f, q). (filepath_Join [?dir, f], pio_Copy io q)"
  have "mset (map (map_prod id Inr) (ar_members ar)) = mset (map ?mem (pio_range io ?files))"
    using add_files_members [OF add] ms by simp
  also have "\<dots> = mset (map ?mem ?files)"
    using perm by (metis mset_map)
  finally show ?thesis
    using kind by (simp add: platform_members_def)
qed

text \<open>C40: what is packed is what was built and checked: when the packaging succeeds, there is one archive for
  each file of the selected platform (the one of the machine by default), in the format of its
  operating system; the binary in it is read from the path where the build found it, and beside it the
  archive has the specification and the configuration file, and nothing else.\<close>

theorem packed_binaries_were_checked:
  assumes "\<forall>fs. mset (pio_range io fs) = mset fs"
    and "Package_Artifacts verbose GOOS GOARCH goreleaser os_Stat io env = Return archives"
  shows "\<exists>version files. fullVersion env = Inr version \<and>
    PlatformFiles (if os_Getenv env platformsEnvName = [] then GOOS @ ''/'' @ GOARCH
                   else os_Getenv env platformsEnvName) = Some files \<and>
    list_all2 (\<lambda>p (ar, content). os_Stat (binaryFilePath version p) = None \<and>
      mset (map (map_prod id Inr) (ar_members ar)) =
        {#(filepath_Join [target_dir version p, specFileName], pio_Copy io specFileName),
          (filepath_Join [target_dir version p, configFileName], pio_Copy io configFileName),
          (filepath_Join [target_dir version p, execName p], pio_Copy io (binaryFilePath version p))#} \<and>
      ar_kind ar = (if strings_Contains p ''windows'' then Zip else TarGz)) files archives"
proof -
  let ?plat = "os_Getenv env platformsEnvName"
  from assms(2) have built: "snd (Build_Binary verbose GOOS GOARCH goreleaser os_Stat env) = None"
    by (simp add: Package_Artifacts_def split: option.splits)
  then obtain version p files where version: "fullVersion env = Inr version" and rec: "?plat = [] \<or> PlatformFiles ?plat \<noteq> None"
      and p: "p = (if ?plat = [] then GOOS @ ''/'' @ GOARCH else ?plat)" and files: "PlatformFiles p = Some files"
      and ok: "\<forall>f \<in> set files. os_Stat (binaryFilePath version f) = None"
    by (rule Build_Binary_checked)
  have "pack_all io version files = Return archives"
    using assms(2) built version rec p files
    by (cases "?plat = []") (auto simp: Package_Artifacts_def Let_def split: option.splits)
  from pack_all_each [OF this] have "list_all2 (\<lambda>p (ar, content). os_Stat (binaryFilePath version p) = None \<and>
      mset (map (map_prod id Inr) (ar_members ar)) = mset (platform_members io version p) \<and>
      ar_kind ar = (if strings_Contains p ''windows'' then Zip else TarGz)) files archives"
    using ok pack_platform_members [OF assms(1)] by (fastforce simp: list_all2_conv_all_nth)
  with version p files show ?thesis by (auto simp: platform_members_def)
qed

definition example_pack_io :: pack_io where
  "example_pack_io = \<lparr>pio_MkdirAll = \<lambda>_. None, pio_Create = \<lambda>_. None, pio_Open = \<lambda>_. None, pio_Stat = \<lambda>_. None,
     pio_WriteHeader = \<lambda>_ _. None, pio_Copy = Inr, pio_Close = \<lambda>_ _. [], pio_range = rev, pio_sha512 = \<lambda>_. Inr ''ab'', pio_WriteFile = \<lambda>_ _. None\<rparr>"

definition example_archives :: "((archive \<times> string) list) outcome" where
  "example_archives =
     Package_Artifacts False ''linux'' ''amd64'' (\<lambda>_ _. None) (\<lambda>_. None) example_pack_io [''SNAPSHOT'' \<mapsto> ''1'']"

theorem packed_binaries_were_checked_witness:
  "\<exists>ar content. example_archives = Return [(ar, content)] \<and> ar_kind ar = TarGz \<and>
     (''elastic-agent-shipper-8.10.0-SNAPSHOT-linux-x86_64/elastic-agent-shipper'',
      ''build/binaries/elastic-agent-shipper-8.10.0-SNAPSHOT-linux-x86_64/elastic-agent-shipper'') \<in> set (ar_members ar)"
proof -
  have "case example_archives of Return as \<Rightarrow> length as = 1 | Panic e \<Rightarrow> False" by code_simp
  then obtain ar content where a: "example_archives = Return [(ar, content)]"
    by (auto simp: length_Suc_conv split: outcome.splits)
  have perm: "\<forall>fs. mset (pio_range example_pack_io fs) = mset fs" by (simp add: example_pack_io_def)
  from packed_binaries_were_checked [OF perm a [unfolded example_archives_def]] obtain version p where
    v: "fullVersion [''SNAPSHOT'' \<mapsto> ''1''] = Inr version" and p: "PlatformFiles ''linux/amd64'' = Some [p]" and
    m: "mset (map (map_prod id Inr) (ar_members ar)) =
        {#(filepath_Join [target_dir version p, specFileName], pio_Copy example_pack_io specFileName),
          (filepath_Join [target_dir version p, configFileName], pio_Copy example_pack_io configFileName),
          (filepath_Join [target_dir version p, execName p], pio_Copy example_pack_io (binaryFilePath version p))#}"
    and k: "ar_kind ar = (if strings_Contains p ''windows'' then Zip else TarGz)"
    by (auto simp: os_Getenv_def platformsEnvName_def list_all2_Cons2)
  have v': "version = ''8.10.0-SNAPSHOT''" using v by (simp add: fullVersion_def DefaultBeatVersion_def os_Getenv_def ParseBool_def)
  have p': "p = ''linux-x86_64''" using p by (simp add: PlatformFiles_def)
  have names: "filepath_Join [target_dir ''8.10.0-SNAPSHOT'' ''linux-x86_64'', execName ''linux-x86_64''] =
      ''elastic-agent-shipper-8.10.0-SNAPSHOT-linux-x86_64/elastic-agent-shipper''"
    "binaryFilePath ''8.10.0-SNAPSHOT'' ''linux-x86_64'' =
      ''build/binaries/elastic-agent-shipper-8.10.0-SNAPSHOT-linux-x86_64/elastic-agent-shipper''"
    "\<not> strings_Contains ''linux-x86_64'' ''windows''" by code_simp+
  from m v' p' names have "(''elastic-agent-shipper-8.10.0-SNAPSHOT-linux-x86_64/elastic-agent-shipper'',
      Inr ''build/binaries/elastic-agent-shipper-8.10.0-SNAPSHOT-linux-x86_64/elastic-agent-shipper'' :: string result) \<in>
      set_mset (mset (map (map_prod id Inr) (ar_members ar)))"
    by (simp add: example_pack_io_def)
  then have "(''elastic-agent-shipper-8.10.0-SNAPSHOT-linux-x86_64/elastic-agent-shipper'',
      ''build/binaries/elastic-agent-shipper-8.10.0-SNAPSHOT-linux-x86_64/elastic-agent-shipper'') \<in> set (ar_members ar)"
    by auto
  moreover have "ar_kind ar = TarGz" using k p' names(3) by simp
  ultimately show ?thesis using a by blast
qed

text \<open>The integration tests run with the path of a binary that exists and that the build has made for
  this version.\<close>

lemma integration_tests_use_checked_binary:
  assumes "Test_Integration verbose GOOS GOARCH goreleaser os_Stat (Inr dir) sh env = Return (env', None)"
    and "PlatformFiles (GOOS @ ''/'' @ GOARCH) = Some [p]"
  shows "\<exists>version. fullVersion env = Inr version \<and> os_Stat (binaryFilePath version p) = None \<and>
    env' ''INTEGRATION_TEST_BINARY'' = Some (filepath_Join [dir, binaryFilePath version p]) \<and>
    os_Stat (filepath_Join [dir, binaryFilePath version p]) = None"
proof -
  let ?env = "env(platformsEnvName \<mapsto> GOOS @ ''/'' @ GOARCH)"
  obtain version where v: "fullVersion env = Inr version"
    using assms(1) by (auto simp: Test_Integration_def Let_def split: sum.splits)
  have vq: "fullVersion ?env = fullVersion env"
    by (simp add: fullVersion_def platformsEnvName_def os_Getenv_def)
  from assms(1) v have built: "snd (Build_Binary verbose GOOS GOARCH goreleaser os_Stat ?env) = None"
    by (simp add: Test_Integration_def Let_def split: option.splits)
  have plat: "os_Getenv ?env platformsEnvName = GOOS @ ''/'' @ GOARCH" by (simp add: os_Getenv_def)
  obtain version' p' files where "fullVersion ?env = Inr version'" "PlatformFiles p' = Some files"
      "p' = (if os_Getenv ?env platformsEnvName = [] then GOOS @ ''/'' @ GOARCH else os_Getenv ?env platformsEnvName)"
      "\<forall>f \<in> set files. os_Stat (binaryFilePath version' f) = None"
    using built by (rule Build_Binary_checked)
  with vq v plat assms(2) have "os_Stat (binaryFilePath version p) = None"
    by (auto dest: sym [of "[p]"])
  moreover have "absoluteBinaryPath (Inr dir) os_Stat version (GOOS @ ''/'' @ GOARCH) =
      (let b = filepath_Join [dir, binaryFilePath version p] in
       case os_Stat b of Some err \<Rightarrow> Inl (Wrapped (''error reading '' @ b @ '': '') err) | None \<Rightarrow> Inr b)"
    using assms(2) by (simp add: absoluteBinaryPath_def Let_def split: option.split)
  with assms(1) v built have "os_Stat (filepath_Join [dir, binaryFilePath version p]) = None \<and>
      env' ''INTEGRATION_TEST_BINARY'' = Some (filepath_Join [dir, binaryFilePath version p])"
    by (cases "os_Stat (filepath_Join [dir, binaryFilePath version p])")
       (auto simp: Test_Integration_def Let_def split: outcome.splits)
  ultimately show ?thesis using v by blast
qed

end
