(* ===== verification/Build_Checks.thy ===== *)
theory Build_Checks
  imports Build_Targets
begin

text \<open>
  \<^verbatim>\<open>src/magefile.go\<close>: the targets that check the sources, generate the notice, clean up and run all tests, and
  the short names of targets. What they start is code of the libraries \<^verbatim>\<open>mage\<close> and \<^verbatim>\<open>gotool\<close>; a call is a
  value of \<open>tool_call\<close>, its answer an argument that may depend on the calls made before. The theory shows
  that a check that succeeds has made every call, and that it stops at the first one that fails.
\<close>

section \<open>Calls and dependencies\<close>

datatype tool_call = Install string | InstallGoLicenser | Licenser string bool | GenerateNotice string string string
  | ModTidy | CheckModuleTidy | CheckNoChanges | LinterAll | RemoveAll string

type_synonym tools = "tool_call list \<Rightarrow> tool_call \<Rightarrow> go_error option"

text \<open>A target: from the calls made so far to those made when it ends, with its result.\<close>

type_synonym target = "tool_call list \<Rightarrow> tool_call list \<times> go_error option outcome"

definition call :: "tools \<Rightarrow> tool_call \<Rightarrow> target" where
  "call tools c calls = (calls @ [c], Return (tools calls c))"

text \<open>\<open>mg.Deps\<close> and \<open>mg.SerialDeps\<close>: an error of a dependency becomes a panic of the target that names it, and
  the dependencies after it do not run. No target names the same dependency twice.\<close>

fun SerialDeps :: "target list \<Rightarrow> tool_call list \<Rightarrow> tool_call list \<times> unit outcome" where
  "SerialDeps [] calls = (calls, Return ())"
| "SerialDeps (t # ts) calls =
     (case t calls of
        (calls', Panic e) \<Rightarrow> (calls', Panic e)
      | (calls', Return (Some err)) \<Rightarrow> (calls', Panic (Error_text err))
      | (calls', Return None) \<Rightarrow> SerialDeps ts calls')"

definition with_dep :: "target \<Rightarrow> target \<Rightarrow> target" where
  "with_dep dep t calls =
     (case SerialDeps [dep] calls of (calls', Panic e) \<Rightarrow> (calls', Panic e) | (calls', Return _) \<Rightarrow> t calls')"

section \<open>The targets\<close>

definition GoreleaserRepo :: string where
  "GoreleaserRepo = ''github.com/goreleaser/goreleaser@v1.19.1''"

definition InstallGoReleaser :: "tools \<Rightarrow> target" where
  "InstallGoReleaser tools = call tools (Install GoreleaserRepo)"

text \<open>\<open>InstallGoTestTools\<close> of the developer tools ignores the outcome.\<close>

definition InstallGoTestTools :: "tools \<Rightarrow> target" where
  "InstallGoTestTools tools calls = (fst (call tools (Install ''gotest.tools/gotestsum'') calls), Return None)"

definition Build_Clean :: "tools \<Rightarrow> target" where
  "Build_Clean tools calls = (fst (call tools (RemoveAll ''build'') calls), Return None)"

definition Lint :: "tools \<Rightarrow> target" where
  "Lint tools = call tools LinterAll"

definition CheckLicense :: "tools \<Rightarrow> target" where
  "CheckLicense tools = with_dep (call tools InstallGoLicenser) (call tools (Licenser ''Elastic'' True))"

definition License :: "tools \<Rightarrow> target" where
  "License tools = with_dep (call tools InstallGoLicenser) (call tools (Licenser ''Elastic'' False))"

definition notice_call :: tool_call where
  "notice_call = GenerateNotice (filepath_Join [''dev-tools'', ''templates'', ''notice'', ''overrides.json''])
     (filepath_Join [''dev-tools'', ''templates'', ''notice'', ''rules.json''])
     (filepath_Join [''dev-tools'', ''templates'', ''notice'', ''NOTICE.txt.tmpl''])"

definition Notice :: "tools \<Rightarrow> target" where
  "Notice tools calls =
     (case call tools notice_call calls of
        (calls', Return None) \<Rightarrow> call tools ModTidy calls'
      | res \<Rightarrow> res)"

definition Check :: "tools \<Rightarrow> tool_call list \<Rightarrow> tool_call list \<times> unit outcome" where
  "Check tools = SerialDeps [CheckLicense tools, Notice tools, call tools CheckModuleTidy, call tools CheckNoChanges]"

definition Version_target :: string where
  "Version_target = DefaultBeatVersion @ [CHR 0x0A]"

definition Dependencies_Release ::
    "(string \<Rightarrow> go_error option) \<Rightarrow> (string \<Rightarrow> string result) \<Rightarrow> (string list \<Rightarrow> go_error option) \<Rightarrow> environ \<Rightarrow> string list outcome" where
  "Dependencies_Release MkdirAll filepath_Abs run env = Dependencies_Generate MkdirAll filepath_Abs run env"

text \<open>\<open>Test.All\<close>: the environment the tests leave behind.\<close>

definition Test_All ::
    "bool \<Rightarrow> string \<Rightarrow> string \<Rightarrow> ((string \<rightharpoonup> string) \<Rightarrow> string list \<Rightarrow> go_error option) \<Rightarrow>
     (string \<Rightarrow> go_error option) \<Rightarrow> string result \<Rightarrow> (environ \<Rightarrow> shell) \<Rightarrow> environ \<Rightarrow> environ outcome" where
  "Test_All verbose GOOS GOARCH goreleaser os_Stat os_Getwd sh env =
     (case Test_Unit verbose (sh env) env of
        Panic e \<Rightarrow> Panic e
      | Return (Some err) \<Rightarrow> Panic (Error_text err)
      | Return None \<Rightarrow>
          (case Test_Integration verbose GOOS GOARCH goreleaser os_Stat os_Getwd sh env of
             Panic e \<Rightarrow> Panic e
           | Return (env', Some err) \<Rightarrow> Panic (Error_text err)
           | Return (env', None) \<Rightarrow> Return env'))"

text \<open>The short names.\<close>

datatype mage_target = BuildBinary | PackageArtifacts | TestUnit | TestIntegration | TestAll
  | DependenciesGenerate | DependenciesSnapshot | DependenciesRelease

definition Aliases :: "string \<rightharpoonup> mage_target" where
  "Aliases = map_of
     [(''build'', BuildBinary), (''package'', PackageArtifacts), (''unitTest'', TestUnit),
      (''integrationTest'', TestIntegration), (''test'', TestAll),
      (''release-manager-dependencies'', DependenciesGenerate),
      (''release-manager-dependencies-snapshot'', DependenciesSnapshot),
      (''release-manager-dependencies-release'', DependenciesRelease)]"

section \<open>Properties\<close>

text \<open>The calls of a check that goes through, in their order.\<close>

definition check_calls :: "tool_call list" where
  "check_calls = [InstallGoLicenser, Licenser ''Elastic'' True, notice_call, ModTidy, CheckModuleTidy, CheckNoChanges]"

text \<open>The calls made until one fails.\<close>

fun until_failure :: "tools \<Rightarrow> tool_call list \<Rightarrow> tool_call list \<Rightarrow> tool_call list \<times> go_error option" where
  "until_failure tools calls [] = (calls, None)"
| "until_failure tools calls (c # cs) =
     (case tools calls c of Some err \<Rightarrow> (calls @ [c], Some err) | None \<Rightarrow> until_failure tools (calls @ [c]) cs)"

lemma until_failure_success:
  "snd (until_failure tools calls cs) = None \<longleftrightarrow> (\<forall>i < length cs. tools (calls @ take i cs) (cs ! i) = None)"
proof (induction cs arbitrary: "calls")
  case (Cons c cs)
  then show ?case by (auto simp: All_less_Suc2 split: option.splits)
qed simp

lemma until_failure_calls:
  "\<exists>n. fst (until_failure tools calls cs) = calls @ take n cs \<and> (snd (until_failure tools calls cs) = None \<longrightarrow> n = length cs)"
proof (induction cs arbitrary: "calls")
  case (Cons c cs)
  show ?case
  proof (cases "tools calls c")
    case None
    with Cons.IH [of "calls @ [c]"] obtain n where "fst (until_failure tools calls (c # cs)) = calls @ c # take n cs"
      "snd (until_failure tools calls (c # cs)) = None \<longrightarrow> n = length cs" by auto
    then show ?thesis by (intro exI [of _ "Suc n"]) simp
  next
    case (Some err)
    then show ?thesis by (intro exI [of _ 1]) simp
  qed
qed simp

text \<open>The nested targets of the check amount to its calls one after the other, up to the first failure.\<close>

theorem check_is_serial:
  "Check tools calls = (case until_failure tools calls check_calls of
     (calls', None) \<Rightarrow> (calls', Return ()) | (calls', Some err) \<Rightarrow> (calls', Panic (Error_text err)))"
  by (simp add: Check_def CheckLicense_def Notice_def with_dep_def call_def check_calls_def split: option.split)

text \<open>A check succeeds exactly when each of its calls does, and has then made all of them.\<close>

theorem check_success:
  "snd (Check tools []) = Return () \<longleftrightarrow> (\<forall>i < length check_calls. tools (take i check_calls) (check_calls ! i) = None)"
  "snd (Check tools []) = Return () \<Longrightarrow> fst (Check tools []) = check_calls"
proof -
  have eq: "snd (Check tools []) = Return () \<longleftrightarrow> snd (until_failure tools [] check_calls) = None"
    by (simp add: check_is_serial split: prod.split option.split)
  then show "snd (Check tools []) = Return () \<longleftrightarrow> (\<forall>i < length check_calls. tools (take i check_calls) (check_calls ! i) = None)"
    by (simp add: until_failure_success)
  assume "snd (Check tools []) = Return ()"
  with eq until_failure_calls [of tools "[]" check_calls] show "fst (Check tools []) = check_calls"
    by (auto simp: check_is_serial split: prod.splits option.splits)
qed

text \<open>All tests pass only if the unit tests passed, before a binary was built, and the integration tests did.\<close>

lemma Test_All_passes:
  "Test_All verbose GOOS GOARCH goreleaser os_Stat os_Getwd sh env = Return env' \<longleftrightarrow>
   Test_Unit verbose (sh env) env = Return None \<and>
   Test_Integration verbose GOOS GOARCH goreleaser os_Stat os_Getwd sh env = Return (env', None)"
  by (auto simp: Test_All_def split: outcome.splits option.splits)

end
