(* ===== verification/Command_Line.thy ===== *)
theory Command_Line
  imports Build_Env
begin

text \<open>
  \<^verbatim>\<open>src/main.go\<close> and \<^verbatim>\<open>src/cmd\<close>: the command of the process, its subcommands and flags, what they print and
  the exit code. The library that parses the arguments calls the \<open>Run\<close> function of the command it selects;
  a command is its name, its flags, its subcommands and that function, here with the result of
  \<open>LoadAndRun\<close> as its argument and what it prints as its result.
\<close>

record process_result =
  pr_stdout :: string
  pr_stderr :: string
  pr_exit :: nat

datatype 'r cobra_command =
  Command (cc_Use: string) (cc_Flags: "string list") (cc_Commands: "'r cobra_command list") (cc_Run: 'r)

type_synonym run_function = "go_error option \<Rightarrow> process_result"

definition runCmd :: "run_function cobra_command" where
  "runCmd = Command ''run'' [] []
     (\<lambda>err. case err of
        Some e \<Rightarrow> \<lparr>pr_stdout = [], pr_stderr = ''Error: '' @ Error_text e @ [CHR 0x0A, CHR 0x0A], pr_exit = 1\<rparr>
      | None \<Rightarrow> \<lparr>pr_stdout = [], pr_stderr = [], pr_exit = 0\<rparr>)"

record build_info =
  bi_qualifier :: string
  bi_commit :: string
  bi_buildTime :: string
  bi_snapshot :: string

text \<open>\<open>newVersionCommand\<close>; \<open>show_time\<close> is how the build time is printed.\<close>

definition newVersionCommand :: "(string \<Rightarrow> string) \<Rightarrow> build_info \<Rightarrow> run_function cobra_command" where
  "newVersionCommand show_time info = Command ''version'' [] []
     (\<lambda>_. \<lparr>pr_stdout = ''elastic-agent-shipper'' @ [CHR 0x09] @ ''version: '' @ GetDefaultVersion (bi_qualifier info) @ [CHR 0x0A] @
         [CHR 0x09] @ ''build_commit: '' @ bi_commit info @ [CHR 0x09] @ ''build_time: '' @ show_time (bi_buildTime info) @
         [CHR 0x09] @ ''snapshot_build: '' @ FormatBool (tools_Snapshot (bi_snapshot info)) @ [CHR 0x0A],
       pr_stderr = [], pr_exit = 0\<rparr>)"

definition NewCommand :: "(string \<Rightarrow> string) \<Rightarrow> build_info \<Rightarrow> run_function cobra_command" where
  "NewCommand show_time info =
     Command ''elastic-agent-shipper [subcommand]'' [''v'', ''e'', ''d'', ''environment'', ''c'', ''E'']
       [newVersionCommand show_time info, runCmd] (cc_Run runCmd)"

text \<open>\<open>main\<close>, for the outcome of parsing the arguments and running the command they select.\<close>

definition main_exit :: "process_result result \<Rightarrow> process_result" where
  "main_exit executed =
     (case executed of
        Inl err \<Rightarrow> \<lparr>pr_stdout = [], pr_stderr = Error_text err @ [CHR 0x0A], pr_exit = 1\<rparr>
      | Inr r \<Rightarrow> r)"

text \<open>Without a subcommand the shipper runs, as with \<open>run\<close>, and the exit code tells whether it failed.\<close>

lemma root_command_runs:
  "pr_exit (main_exit (Inr (cc_Run (NewCommand show_time info) err))) = (if err = None then 0 else 1) \<and>
   runCmd \<in> set (cc_Commands (NewCommand show_time info))"
  by (simp add: NewCommand_def runCmd_def main_exit_def split: option.split)

end
