(* ===== verification/Spec2Isabelle.thy ===== *)
theory Spec2Isabelle
  imports Runner_Lock ES_Process Lifecycle Build_Checks Command_Line
begin

text \<open>
  A verification library for the Elastic Agent shipper (\<^verbatim>\<open>src/\<close>), a process that takes events from
  clients over gRPC, puts them into a queue and sends them on through one output.

  \<^bold>\<open>The program.\<close> A client calls \<open>PublishEvents\<close> of the gRPC service (\<^verbatim>\<open>grpcserver/server.go\<close>), which
  hands the events one by one to the publisher server (\<^verbatim>\<open>publisherserver/server.go\<close>): the runner that
  owns the queue (\<^verbatim>\<open>queue/queue.go\<close>, a wrapper around libbeat's queue), the queue monitor
  (\<^verbatim>\<open>monitoring/queuemon.go\<close>) and one output (\<^verbatim>\<open>output/\<close>: Elasticsearch, Kafka, Logstash or console). The
  output's goroutine takes batches from the queue, sends them, and acknowledges their events with
  \<open>Done\<close>; when all events of a batch are acknowledged the batch is released to libbeat's queue, and
  the oldest index not yet released is what subscribers of \<open>PersistedIndex\<close> are told. The endpoint
  (\<^verbatim>\<open>grpcserver/inputhandler.go\<close>) starts and stops the gRPC server. In managed mode the controller
  (\<^verbatim>\<open>controller/\<close>) receives units from the agent: an output unit (re)starts the runner, input units
  start the endpoint, and the last input unit to go stops it; in unmanaged mode both are started from a
  file (\<^verbatim>\<open>config/config.go\<close>).

  \<^bold>\<open>The theories\<close>, in the order they build on each other:

  \<^item> \<open>Shipper_Prelude\<close>: Go integers as words, Go errors and panics as values, string functions of the
    standard library, shared lemmas.
  \<^item> \<open>Go_Float\<close>: conversion and division of 64-bit floating point numbers, rounded to nearest, ties to even; positive
    and in the range of normal numbers, which is all the code computes with them.
  \<^item> \<open>Beats_Queue\<close>: the interface of libbeat's queue, which is not part of the repository: a record of
    functions that every definition using it takes as an argument, with the documented behaviour the
    shipper relies on as the predicates \<open>queue_laws\<close> (first in, first out; an entry leaves through
    \<open>Get\<close> only) and \<open>ascending_ids\<close>. A list queue with these properties serves as the witness.
  \<^item> \<open>Queue_Config\<close> (\<^verbatim>\<open>queue/config.go\<close>): validation and the settings of the disk queue, with the sizes a
    validated configuration leads to, and the field that is read in place of another.
  \<^item> \<open>Shipper_Queue\<close> (\<^verbatim>\<open>queue/queue.go\<close>): the queue wrapper and the batch wrapper with its atomic counter
    of acknowledgements; a batch completes exactly once and with its last acknowledgement. Locale
    \<open>acknowledging_output\<close>: what an output owes a batch. The console and the Logstash output
    (one call of \<open>Done\<close>), Kafka (several) and Elasticsearch (one for each event) interpret it.
  \<^item> \<open>ES_Config\<close>, \<open>ES_Watcher\<close>, \<open>ES_Output\<close> (\<^verbatim>\<open>output/elasticsearch/\<close>): defaults and backoff, the
    health watcher, serialization and the output loop with its wait group.
  \<^item> \<open>Console_Output\<close> (\<^verbatim>\<open>output/console.go\<close>) and \<open>Logstash_Output\<close> (\<^verbatim>\<open>output/logstash/\<close>): the loops, and
    for Logstash the rotation over the hosts with reconnection.
  \<^item> \<open>Kafka_Partition\<close>, \<open>Kafka_Config\<close>, \<open>Kafka_Client\<close>, \<open>Kafka_Output\<close> (\<^verbatim>\<open>output/kafka/\<close>): the partition
    strategies (locale \<open>partitioner\<close>), the Sarama configuration and the retry backoff, the accounting
    of \<open>publishEvents\<close> under every order of Sarama's answers, and the loop that sends a batch again
    until nothing is left to retry.
  \<^item> \<open>Shipper_Config\<close> (\<^verbatim>\<open>config/config.go\<close>, \<^verbatim>\<open>output/output.go\<close>): configurations from a file or a unit.
  \<^item> \<open>Queue_Monitor\<close> (\<^verbatim>\<open>monitoring/queuemon.go\<close>): limits, counters, reports. The fill level is computed
    with 64-bit floating point numbers, rounded as \<open>Go_Float\<close> does.
  \<^item> \<open>Messages\<close>, \<open>Grpc_Server\<close> (\<^verbatim>\<open>grpcserver/server.go\<close>): the service over an abstract publisher. Locales
    \<open>publisher\<close> and its extension \<open>indexed_publisher\<close> state what the service needs of a publisher.
  \<^item> \<open>Publisher_Server\<close> (\<^verbatim>\<open>publisherserver/server.go\<close>): the runner, and that it is such a publisher.
  \<^item> \<open>Input_Handler\<close> (\<^verbatim>\<open>grpcserver/inputhandler.go\<close>, \<^verbatim>\<open>util_windows.go\<close>): starting and stopping the
    endpoint, the mutex included; waiting for it forever is the value \<open>None\<close>.
  \<^item> \<open>Unit_Map\<close> (\<^verbatim>\<open>controller/units.go\<close>; locale \<open>unit_store\<close>) and \<open>Controller\<close> (the rest of
    \<^verbatim>\<open>controller/\<close>): the handlers of unit changes, the run loop, managed and unmanaged mode.
    Looking up a unit refines a map of the configurations stored last; the run loop returns when told to, if what it
    waits for does; queues are opened and closed in turn.
  \<^item> \<open>Pipeline\<close>: the path of an event as a step relation over the runner, the queue and the batches in
    flight, with the history of accepted and taken events.
  \<^item> \<open>Runner_Lock\<close>: the runner with its mutex, held while \<open>Publish\<close> waits for room and \<open>Close\<close> for the output;
    it implements the pipeline, and a waiting \<open>Publish\<close> keeps \<open>Close\<close> from beginning.
  \<^item> \<open>Persistence\<close>: the persisted index over pipeline runs: it covers exactly the batches completed without a
    gap, and what a subscriber is sent ascends.
  \<^item> \<open>Delivery\<close>: the calls of \<open>Done\<close> for one batch, run on the pipeline.
  \<^item> \<open>Output_Process\<close>: the goroutine of the console, Logstash and Kafka outputs as a process beside the clients,
    a run of the pipeline with at most one open batch: the persisted index is at most one batch behind and
    catches up, and after \<open>Close\<close> the goroutine ends. Proved once for the contract \<open>acknowledging_output\<close>, and used
    through its interpretations.
  \<^item> \<open>ES_Process\<close>: the same for Elasticsearch, with many batches open at once and the indexer's callbacks in any
    order: the wait group is exact, the goroutine ends, it is said for which events \<open>Wait\<close> returns, and the persisted
    index catches up with what was taken.
  \<^item> \<open>Lifecycle\<close>: the runner over several starts. Each generation of queue and output conserves its events, those a
    disk queue resumed with included; the controller's handlers are runs of this machine, and a restart into a memory queue drops what
    waits and lets the index of a subscriber fall.
  \<^item> \<open>Build_Env\<close>, \<open>Test_Runner\<close>, \<open>Build_Targets\<close>, \<open>Build_Checks\<close> (\<^verbatim>\<open>tools/\<close>, \<^verbatim>\<open>dev-tools/common/\<close>, \<^verbatim>\<open>testing/environments/\<close>,
    \<^verbatim>\<open>magefile.go\<close>): versions and environment variables, test runs, and the build and packaging targets; what
    is packed is what was built and checked, and a failing test run is not reported as a success.
  \<^item> \<open>Command_Line\<close> (\<^verbatim>\<open>main.go\<close>, \<^verbatim>\<open>cmd/\<close>): the commands, what they print and the exit code.
  \<^item> this theory: a publish request is a run of the pipeline; accepted events are conserved; what the
    console prints is a prefix of what was accepted.

  \<^bold>\<open>How the code is rendered.\<close> A struct is a record with the source's field names (with a prefix where
  two structs share one), a method takes the record and returns it updated. An error is a value
  (\<open>Inl\<close> of a sum, or \<open>Some\<close>); its text is kept where the code builds one from constants. A nil
  dereference, an invalid argument of the standard library and the like end in \<open>Panic\<close>. Integers have
  their width wherever they are computed with: durations and sizes are 64-bit words, Kafka partitions
  32-bit words. Logging has no effect in the model, except for the logger's level, on which the
  controller's decisions depend. Effects on the outside (lines printed, calls of \<open>Done\<close>, states
  reported to the agent, servers stopped) are returned as a list, in the order they happen.

  \<^bold>\<open>Concurrency and loops.\<close> A call that runs under one lock or is one atomic operation is one step. Where
  goroutines meet, the other side is an argument: the clients that publish between two events of a
  request (\<open>interference\<close>), the sequence of ticks, cancellations and readings a polling loop sees, the
  order of Sarama's answers and of the bulk indexer's callbacks. Every theorem holds for all of them.
  Loops over such sequences are recursive on the sequence, so they need no fuel; a sequence that ends
  before the loop does leaves the loop running, which the result says. The retry loop of Kafka may run
  forever: it is given as many answers as it takes calls, that it ends is a theorem when one call leaves nothing to retry,
  and that it does not end otherwise is another.

  \<^bold>\<open>Bounds.\<close> Batches have fewer than \<open>2 ^ 63\<close> events (Go's \<open>int\<close>); the comparison of fill levels is
  proved for limits up to \<open>2 ^ 50\<close> bytes; the Elasticsearch delay for maxima below \<open>2 ^ 62\<close> nanoseconds
  (146 years), the Kafka backoff for settings below \<open>2 ^ 53\<close> nanoseconds (104 days), which floats hold exactly; that the indexes sent to a subscriber ascend, for fewer than \<open>2 ^ 64\<close> accepted events.

  \<^bold>\<open>Taken as arguments\<close>, because their code is not in the repository: libbeat's queue, the Elasticsearch
  client and bulk indexer, Sarama, the lumberjack client, the codecs and format strings, the parsing
  and unpacking of configurations, the operating system's answers, goreleaser and the other commands the
  build runs, and the agent's client. That libbeat's memory queue releases its entries in the order of
  the batches is the hypothesis \<open>release_laws\<close> of \<open>Persistence\<close>, that \<open>Get\<close> returns at most as many entries as it
  is asked for, if that is positive, is \<open>bounded_get\<close> of \<open>Output_Process\<close>, and that a new memory queue is empty is \<open>memory_starts_empty\<close> and
  \<open>starts_unreleased\<close> of \<open>Lifecycle\<close>; a concrete queue
  satisfies each of them. The results on the persisted index are about memory queues; of a disk queue only the order of
  events is used. That \<open>math.Log2\<close> is accurate to the next power of two is \<open>Log2_accurate\<close> of \<open>Kafka_Config\<close>. Values the
  shipper only passes on between them are opaque type variables. It is assumed that the agent's units
  carry a configuration. \<open>runner_Close\<close> and \<open>handler_Stop\<close> give the results of these calls when the output and the calls in progress
  let them return; whether they do is a parameter of the controller (\<open>env_Close_returns\<close>, \<open>env_calls_end\<close>), whose handlers block
  otherwise. \<open>closed_console_ends\<close>, \<open>closed_es_wait\<close> and \<open>waiting_publish_excludes_close\<close> say when a \<open>Close\<close> does.

  \<^bold>\<open>Not modelled:\<close> the tests themselves, the registration of command line flags with the standard library
  (\<open>NewCommand\<close> has the list of them), the interface types whose methods are modelled one by one, and
  the encoder of the Logstash output, which only calls the JSON library.

  \<^bold>\<open>Plan.\<close> What may be added: the life cycle with the mutex of \<open>Runner_Lock\<close>, and the disk queue's contents
  across restarts.
\<close>

section \<open>Publish requests as runs of the pipeline\<close>

lemma try_publish_loop_run:
  assumes "try_publish_loop (runner_ops bq) no_interference n (pl_runner s) cnt index es = (r, cnt', index')"
  shows "\<exists>k\<le>length es. cnt' = cnt + word_of_nat k \<and>
    pipeline_steps bq s (s\<lparr>pl_runner := r, pl_accepted := pl_accepted s @ take k es\<rparr>)"
  using assms
proof (induction es arbitrary: n s cnt index)
  case Nil
  then show ?case by auto
next
  case (Cons e es)
  obtain r1 res where t: "runner_TryPublish bq (pl_runner s) e = (r1, res)" by force
  let ?s = "s\<lparr>pl_runner := r1, pl_accepted := pl_accepted s @ accepted_events e res\<rparr>"
  have step: "pipeline_step bq s ?s" using t by (rule pipeline_step.try_publish)
  show ?case
  proof (cases res)
    case (Inl err)
    with Cons.prems t have "r = r1" "cnt' = cnt" by (simp_all add: runner_ops_def)
    with step Inl show ?thesis by (intro exI [of _ 0]) auto
  next
    case (Inr i)
    with Cons.prems t have "try_publish_loop (runner_ops bq) no_interference (Suc n) (pl_runner ?s) (cnt + 1) i es =
        (r, cnt', index')" by (simp add: runner_ops_def)
    from Cons.IH [OF this] obtain k where k: "k \<le> length es" "cnt' = cnt + 1 + word_of_nat k"
      "pipeline_steps bq ?s (?s\<lparr>pl_runner := r, pl_accepted := pl_accepted ?s @ take k es\<rparr>)" by blast
    from converse_rtranclp_into_rtranclp [of "pipeline_step bq", OF step k(3)] k(1,2) Inr show ?thesis
      by (intro exI [of _ "Suc k"]) simp
  qed
qed

text \<open>C2: a publish request that the server handles without an error is a run of the pipeline that
  accepts a non-empty prefix of its events, in order; a request that ends in an error is a run that
  accepts nothing. So everything proved of pipeline runs holds of requests.\<close>

theorem publish_request_is_pipeline_run:
  assumes "PublishEvents CheckValid (runner_ops bq) no_interference serv (pl_runner s) req =
    (serv', r, reply, st)"
  shows "\<exists>k\<le>length (rq_Events req). (0 < k \<longleftrightarrow> st = None) \<and>
    pipeline_steps bq s (s\<lparr>pl_runner := r, pl_accepted := pl_accepted s @ take k (rq_Events req)\<rparr>)"
proof (cases "st = None")
  case True
  then obtain e es r1 i cnt index where ev: "rq_Events req = e # es"
      and p: "runner_Publish bq (pl_runner s) e = (r1, Inr i)"
      and l: "try_publish_loop (runner_ops bq) no_interference 1 r1 1 i es = (r, cnt, index)"
    using assms unfolding PublishEvents_def Let_def clear_init_error_def
    by (auto simp: runner_ops_def split: if_splits list.splits option.splits prod.splits sum.splits)
  let ?s = "s\<lparr>pl_runner := r1, pl_accepted := pl_accepted s @ accepted_events e (Inr i)\<rparr>"
  have step: "pipeline_step bq s ?s" using p by (rule pipeline_step.publish)
  have "try_publish_loop (runner_ops bq) no_interference 1 (pl_runner ?s) 1 i es = (r, cnt, index)"
    using l by simp
  from try_publish_loop_run [OF this] obtain k where k: "k \<le> length es"
    "pipeline_steps bq ?s (?s\<lparr>pl_runner := r, pl_accepted := pl_accepted ?s @ take k es\<rparr>)" by blast
  from converse_rtranclp_into_rtranclp [of "pipeline_step bq", OF step k(2)] k(1) ev True show ?thesis
    by (intro exI [of _ "Suc k"]) simp
next
  case False
  then consider "r = pl_runner s" | e err where "runner_Publish bq (pl_runner s) e = (r, Inl err)"
    using assms unfolding PublishEvents_def Let_def
    by (auto simp: runner_ops_def split: if_splits list.splits option.splits prod.splits sum.splits)
  then show ?thesis
  proof cases
    case 1
    with False show ?thesis by (intro exI [of _ 0]) simp
  next
    case 2
    from pipeline_step.publish [OF this] False show ?thesis by (intro exI [of _ 0]) auto
  qed
qed

definition example_pipeline :: "((unit, unit) event fifo, unit, (unit, unit) event) pipeline" where
  "example_pipeline = pipeline_init (example_runner 2)"

theorem publish_request_is_pipeline_run_witness:
  "\<exists>r' k. 0 < k \<and> pipeline_steps fifo_queue example_pipeline
     (example_pipeline\<lparr>pl_runner := r', pl_accepted := take k (rq_Events example_request)\<rparr>)"
proof -
  obtain r' where r: "PublishEvents (\<lambda>t. None) (runner_ops fifo_queue) no_interference
      (SetStrictMode example_server False)
      (example_runner 2 :: ((unit, unit) event fifo, unit) server_runner) example_request =
      (SetStrictMode example_server False, r', Some \<lparr>rp_Uuid = ''u'', AcceptedCount = 2, AcceptedIndex = 2\<rparr>, None)"
    using example_request_run by blast
  have "pl_runner example_pipeline = example_runner 2" "pl_accepted example_pipeline = []"
    by (simp_all add: example_pipeline_def pipeline_init_def)
  with publish_request_is_pipeline_run [of "\<lambda>t. None" fifo_queue "SetStrictMode example_server False"
      example_pipeline example_request] r show ?thesis by fastforce
qed

section \<open>From acceptance to the output\<close>

text \<open>C1: no event is lost, duplicated or reordered between its acceptance and the output: in every
  state the pipeline can reach from a fresh start, by any interleaving of publishing clients, output
  goroutines and \<open>Close\<close>, the events accepted so far are the events the output has taken, in the
  order of acceptance, followed by those waiting in the queue; after \<open>Close\<close> too.\<close>

theorem accepted_events_conserved:
  assumes "queue_laws bq pend" "sr_queue r = Some q" "pend (eventQueue q) = []"
    and "pipeline_steps bq (pipeline_init r) s"
  shows "pl_accepted s = taken s @ waiting pend s"
  using conserved_steps [OF assms(4) conserved_init [of r q pend, OF assms(2,3)] assms(1)]
  by (simp add: conserved_def)

lemma example_run:
  "\<exists>s. pipeline_steps fifo_queue (pipeline_init (example_runner 3 :: (nat fifo, unit) server_runner)) s \<and>
     pl_accepted s = [7, 8] \<and> taken s = [7]"
proof -
  let ?s0 = "pipeline_init (example_runner 3) :: (nat fifo, unit, nat) pipeline"
  let ?q = "\<lambda>es n. \<lparr>queue_cfg = queue_DefaultConfig, eventQueue = \<lparr>fifo_pending = es, fifo_newest = n,
      fifo_cap = 3, fifo_closed = False\<rparr>\<rparr>"
  let ?r = "\<lambda>es n. \<lparr>sr_queue = Some (?q es n), sr_monitoring = None, sr_out = None\<rparr>"
  let ?w = "\<lparr>wb_batch = \<lparr>batch_id = 0, batch_entries = [Some (7 :: nat)]\<rparr>, doneCount = 0,
      CompletionCallback = (None :: unit option)\<rparr>"
  note defs = pipeline_init_def example_runner_def NewOutputServer_def fifo_new_def runner_Publish_def
    queue_Publish_def fifo_queue_def fifo_put_def out_queue_def set_out_queue_def queue_Get_def fifo_get_def
  have r0: "pl_runner ?s0 = ?r [] 0" by (simp add: defs)
  let ?s1 = "?s0\<lparr>pl_runner := ?r [7] 1, pl_accepted := pl_accepted ?s0 @ accepted_events 7 (Inr 1)\<rparr>"
  have "runner_Publish fifo_queue (pl_runner ?s0) 7 = (?r [7] 1, Inr 1)" by (simp add: defs)
  then have 1: "pipeline_step fifo_queue ?s0 ?s1" by (rule pipeline_step.publish)
  let ?s2 = "?s1\<lparr>pl_runner := ?r [7, 8] 2, pl_accepted := pl_accepted ?s1 @ accepted_events 8 (Inr 2)\<rparr>"
  have "runner_Publish fifo_queue (pl_runner ?s1) 8 = (?r [7, 8] 2, Inr 2)" by (simp add: defs)
  then have 2: "pipeline_step fifo_queue ?s1 ?s2" by (rule pipeline_step.publish)
  let ?s3 = "(set_out_queue ?s2 (?q [8] 2))\<lparr>pl_inflight := pl_inflight ?s2 @ [?w],
      pl_batches := pl_batches ?s2 @ [?w]\<rparr>"
  have "out_queue ?s2 = Some (?q [7, 8] 2)" "queue_Get fifo_queue (?q [7, 8] 2) 1 = (?q [8] 2, Inr ?w)"
    by (simp_all add: defs)
  then have 3: "pipeline_step fifo_queue ?s2 ?s3" by (intro pipeline_step.by_output output_step.get)
  have "pipeline_steps fifo_queue ?s0 ?s3"
    using 1 2 3 by (meson converse_rtranclp_into_rtranclp rtranclp.rtrancl_refl)
  moreover have "pl_accepted ?s3 = [7, 8]" "taken ?s3 = [7]"
    by (simp_all add: defs taken_def WrappedBatch_Events_entries)
  ultimately show ?thesis by blast
qed

theorem accepted_events_conserved_witness:
  "\<exists>s. pipeline_steps fifo_queue (pipeline_init (example_runner 3 :: (nat fifo, unit) server_runner)) s \<and>
     taken s = [7] \<and> waiting fifo_pending s = [8]"
proof -
  obtain s where s: "pipeline_steps fifo_queue (pipeline_init (example_runner 3 :: (nat fifo, unit) server_runner)) s"
      "pl_accepted s = [7, 8]" "taken s = [7]" using example_run by blast
  have "sr_queue (example_runner 3 :: (nat fifo, unit) server_runner) =
      Some \<lparr>queue_cfg = queue_DefaultConfig, eventQueue = fifo_new 3\<rparr>"
    by (simp add: example_runner_def)
  from accepted_events_conserved [OF fifo_laws this _ s(1)] s show ?thesis
    by (auto simp: fifo_new_def)
qed

text \<open>C17: with the console output, what is printed is at every moment a prefix of what was accepted:
  the lines for the batches taken so far are those of the first accepted events, one line for each
  and in the order of acceptance, and each of these batches is completed once.\<close>

theorem console_prints_accepted_prefix:
  assumes "queue_laws bq pend" "sr_queue r = Some q" "pend (eventQueue q) = []"
    and "pipeline_steps bq (pipeline_init r) s"
  shows "\<exists>n. console_loop fmt (pl_batches s) =
    (map (\<lambda>e. fmt (Some e) @ [CHR 0x0A]) (take n (pl_accepted s)), map completion (pl_batches s))"
proof -
  have c: "conserved pend s"
    by (rule conserved_steps [OF assms(4) conserved_init [of r q pend, OF assms(2,3)] assms(1)])
  let ?ess = "map (\<lambda>w. map the (WrappedBatch_Events w)) (pl_batches s)"
  have "list_all2 fresh_batch (pl_batches s) ?ess"
    using c by (simp add: conserved_def fresh_batches_def list_all2_map2 list_all2_same list_all_iff)
  from console_run [OF this]
  have "console_loop fmt (pl_batches s) =
      (map (\<lambda>e. fmt (Some e) @ [CHR 0x0A]) (taken s), map completion (pl_batches s))"
    by (simp add: taken_def)
  moreover have "taken s = take (length (taken s)) (pl_accepted s)"
    using c by (simp add: conserved_def)
  ultimately show ?thesis by metis
qed

theorem console_prints_accepted_prefix_witness:
  "\<exists>s n. taken s = [7] \<and> pl_accepted s = [7, 8] \<and>
     fst (console_loop (\<lambda>e. case e of None \<Rightarrow> [] | Some k \<Rightarrow> replicate k (CHR ''x'')) (pl_batches
       (s :: (nat fifo, unit, nat) pipeline))) =
     map (\<lambda>k. replicate k (CHR ''x'') @ [CHR 0x0A]) (take n [7, 8])"
proof -
  obtain s where s: "pipeline_steps fifo_queue (pipeline_init (example_runner 3 :: (nat fifo, unit) server_runner)) s"
      "pl_accepted s = [7, 8]" "taken s = [7]" using example_run by blast
  have "sr_queue (example_runner 3 :: (nat fifo, unit) server_runner) =
      Some \<lparr>queue_cfg = queue_DefaultConfig, eventQueue = fifo_new 3\<rparr>"
    by (simp add: example_runner_def)
  from console_prints_accepted_prefix [OF fifo_laws this _ s(1),
      of "\<lambda>e. case e of None \<Rightarrow> [] | Some k \<Rightarrow> replicate k (CHR ''x'')"] s show ?thesis
    by (fastforce simp: fifo_new_def)
qed

end
